(* ===== verification/Supervisor.thy ===== *)
theory Supervisor
  imports Prelude
begin

text \<open>
  The restart policies of \<^verbatim>\<open>src/scheduler/supervisor.rs\<close>: the entry points a task can be
  started from, the policy and the counter kept for each of them, and the decision whether a dead
  task is started again. The rate limit counts restarts in windows that start at a restart; the
  theorems give the bound it enforces on any interval as long as a window.
\<close>

section \<open>Durations\<close>

text \<open>\<^verbatim>\<open>core::time::Duration\<close>, as its number of nanoseconds.\<close>

type_synonym duration = nat

definition from_micros :: "u64 \<Rightarrow> duration" where
  "from_micros t = 1000 * unat t"

definition from_millis :: "u64 \<Rightarrow> duration" where
  "from_millis t = 1000000 * unat t"

definition as_micros :: "duration \<Rightarrow> nat" where
  "as_micros d = d div 1000"

lemma as_micros_from_micros [simp]: "as_micros (from_micros t) = unat t"
  by (simp add: as_micros_def from_micros_def)

section \<open>Policies and the restart table\<close>

datatype entry_point_id = IdleEntry | AppTask

datatype restart_policy = NoRestart | Always | MaxN u32 duration

record restart_entry =
  re_policy :: restart_policy
  restart_count :: u32
  window_start :: u64

definition restart_entry_new :: "restart_policy \<Rightarrow> restart_entry" where
  "restart_entry_new pol = \<lparr>re_policy = pol, restart_count = 0, window_start = 0\<rparr>"

text \<open>Sliding the window: a full window after its start the count begins again; the first call
  opens the first window.\<close>

definition slide_window :: "duration \<Rightarrow> u64 \<Rightarrow> restart_entry \<Rightarrow> restart_entry" where
  "slide_window window now e =
     (let window_us = (of_nat (as_micros window) :: u64)
      in if window_us \<noteq> 0 \<and> window_start e \<noteq> 0 \<and>
            window_us \<le> saturating_sub now (window_start e)
         then e\<lparr>restart_count := 0, window_start := now\<rparr>
         else if window_start e = 0 then e\<lparr>window_start := now\<rparr> else e)"

definition may_restart :: "u64 \<Rightarrow> restart_entry \<Rightarrow> bool \<times> restart_entry" where
  "may_restart now e =
     (case re_policy e of
        NoRestart \<Rightarrow> (False, e)
      | Always \<Rightarrow> (True, e\<lparr>restart_count := saturating_add (restart_count e) 1\<rparr>)
      | MaxN cnt window \<Rightarrow>
          (let e1 = slide_window window now e
           in if restart_count e1 < cnt
              then (True, e1\<lparr>restart_count := saturating_add (restart_count e1) 1\<rparr>)
              else (False, e1)))"

definition restart_table_init :: "restart_entry list" where
  "restart_table_init = [restart_entry_new NoRestart, restart_entry_new NoRestart]"

primrec entry_index :: "entry_point_id \<Rightarrow> nat" where
  "entry_index IdleEntry = 0"
| "entry_index AppTask = 1"

definition should_restart ::
    "u64 \<Rightarrow> entry_point_id \<Rightarrow> restart_entry list \<Rightarrow> (bool \<times> restart_entry list) option" where
  "should_restart now ep table = do {
     let idx = entry_index ep;
     guard (idx < length table);
     let (b, e) = may_restart now (table ! idx);
     Some (b, table[idx := e])
   }"

section \<open>Runs of restarts\<close>

text \<open>The answers for a list of deaths of the same entry point, with their times.\<close>

fun restart_run :: "u64 list \<Rightarrow> restart_entry \<Rightarrow> bool list" where
  "restart_run [] e = []"
| "restart_run (t # ts) e = (let (b, e') = may_restart t e in b # restart_run ts e')"

abbreviation permits :: "bool list \<Rightarrow> nat" where
  "permits bs \<equiv> length (filter (\<lambda>b. b) bs)"

text \<open>A window length that fits the 64-bit microsecond count.\<close>

definition window_fits :: "duration \<Rightarrow> bool" where
  "window_fits w \<longleftrightarrow> as_micros w < 2 ^ 64"

lemma window_us: "window_fits w \<Longrightarrow> unat (of_nat (as_micros w) :: u64) = as_micros w"
  by (simp add: window_fits_def unat_of_nat)

lemma restart_count_step:
  "c < (cnt :: u32) \<Longrightarrow> unat (saturating_add c 1) = Suc (unat c)"
  by (simp add: unat_saturating_add word_less_nat_alt) (use unat_less_pow [of cnt] in simp)

text \<open>While no time of the run leaves the window, the counter only grows.\<close>

lemma permits_in_window:
  assumes "re_policy e = MaxN cnt w" and "window_fits w" and "0 < as_micros w"
    and "window_start e \<noteq> 0"
    and "\<forall>t \<in> set ts. unat t - unat (window_start e) < as_micros w"
  shows "permits (restart_run ts e) \<le> unat cnt - unat (restart_count e)"
  using assms
proof (induction ts arbitrary: e)
  case Nil
  then show ?case by simp
next
  case (Cons t ts)
  have stay: "slide_window w t e = e"
    using Cons.prems window_us [OF Cons.prems(2)]
    by (simp add: slide_window_def Let_def word_le_nat_alt unat_saturating_sub)
  show ?case
  proof (cases "restart_count e < cnt")
    case True
    let ?e = "e\<lparr>restart_count := saturating_add (restart_count e) 1\<rparr>"
    have "permits (restart_run ts ?e) \<le> unat cnt - unat (restart_count ?e)"
      using Cons.prems by (intro Cons.IH) simp_all
    with True stay Cons.prems(1) restart_count_step [OF True] show ?thesis
      by (simp add: may_restart_def Let_def word_less_nat_alt)
  next
    case False
    have "permits (restart_run ts e) \<le> unat cnt - unat (restart_count e)"
      using Cons.prems by (intro Cons.IH) simp_all
    with False stay Cons.prems(1) show ?thesis
      by (simp add: may_restart_def Let_def)
  qed
qed

text \<open>In an interval shorter than a window there is at most one reset: what was left of the old
  window, and one whole new one.\<close>

lemma permits_interval:
  assumes "re_policy e = MaxN cnt w" and "window_fits w" and "0 < as_micros w"
    and "\<forall>t \<in> set ts. t \<noteq> 0 \<and> unat a \<le> unat t \<and> unat t < unat a + as_micros w"
  shows "permits (restart_run ts e) \<le> (unat cnt - unat (restart_count e)) + unat cnt"
  using assms
proof (induction ts arbitrary: e)
  case Nil
  then show ?case by simp
next
  case (Cons t ts)
  let ?e1 = "slide_window w t e"
  have pol: "re_policy ?e1 = MaxN cnt w"
    using Cons.prems(1) by (simp add: slide_window_def Let_def)
  have t: "t \<noteq> 0" "unat a \<le> unat t"
    using Cons.prems(4) by auto
  show ?case
  proof (cases "restart_count ?e1 = 0 \<and> window_start ?e1 = t")
    case True
    have "permits (restart_run (t # ts) ?e1) \<le> unat cnt - unat (restart_count ?e1)"
      using Cons.prems True t pol by (intro permits_in_window) (auto simp: less_diff_conv2)
    moreover have "slide_window w t ?e1 = ?e1"
      using True t window_us [OF Cons.prems(2)] Cons.prems(3)
      by (simp add: slide_window_def [of w t ?e1] Let_def word_le_nat_alt unat_saturating_sub)
    then have "restart_run (t # ts) ?e1 = restart_run (t # ts) e"
      using Cons.prems(1) pol by (simp add: may_restart_def Let_def)
    ultimately show ?thesis
      by simp
  next
    case False
    then have cnt: "restart_count ?e1 = restart_count e"
      by (auto simp: slide_window_def Let_def split: if_splits)
    show ?thesis
    proof (cases "restart_count ?e1 < cnt")
      case True
      let ?e = "?e1\<lparr>restart_count := saturating_add (restart_count ?e1) 1\<rparr>"
      have "permits (restart_run ts ?e) \<le> (unat cnt - unat (restart_count ?e)) + unat cnt"
        using Cons.prems pol by (intro Cons.IH) simp_all
      with True Cons.prems(1) restart_count_step [OF True] cnt show ?thesis
        by (simp add: may_restart_def Let_def word_less_nat_alt)
    next
      case False
      have "permits (restart_run ts ?e1) \<le> (unat cnt - unat (restart_count ?e1)) + unat cnt"
        using Cons.prems pol by (intro Cons.IH) simp_all
      with False Cons.prems(1) cnt show ?thesis
        by (simp add: may_restart_def Let_def)
    qed
  qed
qed

section \<open>Properties\<close>

text \<open>C26: The rate limit of \<open>MaxN\<close>. Whatever the state of an entry, and whatever the times of the deaths in an
  interval shorter than the window, at most twice the configured number of restarts is granted in it.\<close>

theorem restarts_bounded_in_window:
  fixes a :: u64
  assumes "re_policy e = MaxN cnt w" and "window_fits w" and "0 < as_micros w"
    and "\<forall>t \<in> set ts. t \<noteq> 0 \<and> unat a \<le> unat t \<and> unat t < unat a + as_micros w"
  shows "permits (restart_run ts e) \<le> 2 * unat cnt"
  using permits_interval [OF assms] by simp

theorem restarts_bounded_in_window_witness:
  "permits (restart_run [5000, 6000, 7000] (restart_entry_new (MaxN 1 (from_millis 10)))) \<le> 2"
  using restarts_bounded_in_window [of "restart_entry_new (MaxN 1 (from_millis 10))" 1
      "from_millis 10" "[5000, 6000, 7000]" 5000]
  by (simp add: restart_entry_new_def window_fits_def as_micros_def from_millis_def)

text \<open>The window is not a sliding one, and the bound of twice the number is reached: with two restarts
  allowed per 10 ms, deaths at 1.0, 10.8, 11.0 and 11.1 ms are all answered with a restart,
  although the last three of them lie within 0.3 ms.\<close>

theorem restart_window_is_not_sliding:
  "restart_run [1000, 10800, 11000, 11100] (restart_entry_new (MaxN 2 (from_millis 10))) =
     [True, True, True, True]"
  by (simp add: restart_entry_new_def may_restart_def slide_window_def saturating_sub_def
      saturating_add_def checked_add_def as_micros_def from_millis_def Let_def)

end
