(* ===== verification/Tasks.thy ===== *)
theory Tasks
  imports Supervisor
begin

text \<open>
  The data types of a task: identifiers, priorities, states and handles of
  \<^verbatim>\<open>src/scheduler/task/mod.rs\<close>, and the task control block.

  A \<open>TaskId\<close> is an \<^verbatim>\<open>i32\<close>, kept as an integer; a \<open>Priority\<close> is a \<^verbatim>\<open>u8\<close>.
  A task control block is shared through \<^verbatim>\<open>Rc<RefCell<Task>>\<close>: the model gives each
  control block an address (\<open>tref\<close>) in a store, so that two queues that hold the same task hold
  the same address and \<^verbatim>\<open>Rc::ptr_eq\<close> is equality of addresses.
\<close>

datatype task_status = Invalid | Ready | Running | Blocked | Finished | Idle

datatype task_id = TaskId (tid_into: int)

datatype priority = Priority (prio_into: u8)

text \<open>The derived orders of the two newtypes compare the wrapped integers.\<close>

instantiation task_id :: linorder
begin

definition less_eq_task_id :: "task_id \<Rightarrow> task_id \<Rightarrow> bool" where
  "less_eq_task_id a b \<longleftrightarrow> tid_into a \<le> tid_into b"

definition less_task_id :: "task_id \<Rightarrow> task_id \<Rightarrow> bool" where
  "less_task_id a b \<longleftrightarrow> tid_into a < tid_into b"

instance
  by standard (auto simp: less_eq_task_id_def less_task_id_def task_id.expand)

end

instantiation priority :: linorder
begin

definition less_eq_priority :: "priority \<Rightarrow> priority \<Rightarrow> bool" where
  "less_eq_priority a b \<longleftrightarrow> prio_into a \<le> prio_into b"

definition less_priority :: "priority \<Rightarrow> priority \<Rightarrow> bool" where
  "less_priority a b \<longleftrightarrow> prio_into a < prio_into b"

instance
  by standard (auto simp: less_eq_priority_def less_priority_def priority.expand)

end

definition HIGH_PRIO :: priority where
  "HIGH_PRIO = Priority 3"

definition NORMAL_PRIO :: priority where
  "NORMAL_PRIO = Priority 2"

definition LOW_PRIO :: priority where
  "LOW_PRIO = Priority 1"

definition IDLE_PRIO :: priority where
  "IDLE_PRIO = Priority 0"

text \<open>\<^verbatim>\<open>prio.into() as usize\<close>, the level of a priority.\<close>

definition prio_index :: "priority \<Rightarrow> nat" where
  "prio_index p = unat (prio_into p)"

lemma prio_index_le: "prio_index p \<le> prio_index q \<longleftrightarrow> p \<le> q"
  by (simp add: prio_index_def less_eq_priority_def word_le_nat_alt)

lemma prio_index_less: "prio_index p < prio_index q \<longleftrightarrow> p < q"
  by (simp add: prio_index_def less_priority_def word_less_nat_alt)

lemma prio_index_inj: "prio_index p = prio_index q \<longleftrightarrow> p = q"
  by (cases p; cases q) (simp add: prio_index_def word_unat_eq_iff)

type_synonym core_id = u32

record task_handle =
  handle_id :: task_id
  handle_priority :: priority
  handle_core_id :: core_id

definition handle_new :: "task_id \<Rightarrow> priority \<Rightarrow> core_id \<Rightarrow> task_handle" where
  "handle_new i p c = \<lparr>handle_id = i, handle_priority = p, handle_core_id = c\<rparr>"

text \<open>\<^verbatim>\<open>PartialEq\<close> and \<^verbatim>\<open>Ord\<close> of a handle look at the identifier only.\<close>

definition handle_eq :: "task_handle \<Rightarrow> task_handle \<Rightarrow> bool" where
  "handle_eq a b \<longleftrightarrow> handle_id a = handle_id b"

lemma handle_new_simps [simp]:
  "handle_id (handle_new i p c) = i" "handle_priority (handle_new i p c) = p"
  "handle_core_id (handle_new i p c) = c"
  by (simp_all add: handle_new_def)

lemma prio_index_consts [simp]:
  "prio_index HIGH_PRIO = 3" "prio_index NORMAL_PRIO = 2" "prio_index LOW_PRIO = 1" "prio_index IDLE_PRIO = 0"
  by (simp_all add: prio_index_def HIGH_PRIO_def NORMAL_PRIO_def LOW_PRIO_def IDLE_PRIO_def)

abbreviation handle_level :: "task_handle \<Rightarrow> nat" where
  "handle_level h \<equiv> prio_index (handle_priority h)"

section \<open>The task control block\<close>

text \<open>
  Where a task's saved register frame lives (\<open>FrameLocation\<close>): in its scratch slot, being copied
  out of it, or on its kernel stack.
\<close>

datatype frame_location = InSlot | BeingEvicted | Evicted

text \<open>
  The stacks of a task (\<^verbatim>\<open>arch/aarch64/kernel/scheduler.rs\<close>): the boot stack, or one
  allocated region described by its virtual address, physical address and total size.
\<close>

datatype task_stacks = BootStacks u64 | CommonStacks u64 u64 u64

text \<open>The lazily saved FPU state is not part of the model, and neither is the thread-local storage
  block beyond the value of its thread pointer, which \<open>create_stack_frame\<close> takes as an argument.\<close>

type_synonym objmap_ref = nat

record task =
  t_id :: task_id
  t_status :: task_status
  t_prio :: priority
  t_last_stack_pointer :: u64
  t_user_stack_pointer :: u64
  t_core_id :: core_id
  t_stacks :: task_stacks
  t_frame_location :: frame_location
  t_slot :: "nat option"
  t_wake_pending :: bool
  t_last_touch :: duration
  t_object_map :: objmap_ref
  t_entry :: u64
  t_entry_arg :: u64
  t_entry_point_id :: entry_point_id

definition task_new ::
    "task_id \<Rightarrow> core_id \<Rightarrow> task_status \<Rightarrow> priority \<Rightarrow> task_stacks \<Rightarrow> objmap_ref \<Rightarrow> u64 \<Rightarrow> task" where
  "task_new tid core_id status prio stacks object_map placeholder_entry =
     \<lparr>t_id = tid, t_status = status, t_prio = prio, t_last_stack_pointer = 0,
      t_user_stack_pointer = 0, t_core_id = core_id, t_stacks = stacks,
      t_frame_location = InSlot, t_slot = None, t_wake_pending = False, t_last_touch = 0,
      t_object_map = object_map, t_entry = placeholder_entry, t_entry_arg = 0,
      t_entry_point_id = IdleEntry\<rparr>"

text \<open>Addresses of control blocks, and the store that holds them.\<close>

type_synonym tref = nat
type_synonym task_store = "tref \<Rightarrow> task"

abbreviation task_level :: "task_store \<Rightarrow> tref \<Rightarrow> nat" where
  "task_level h r \<equiv> prio_index (t_prio (h r))"

definition task_handle_of :: "task \<Rightarrow> task_handle" where
  "task_handle_of t = handle_new (t_id t) (t_prio t) (t_core_id t)"

end
