(* ===== verification/Prio_Bitmap.thy ===== *)
theory Prio_Bitmap
  imports Prelude
begin

text \<open>
  The priority bitmap that both priority queues of \<^verbatim>\<open>src/scheduler/task/mod.rs\<close> keep: one
  bit per priority level, set when the level has a task. \<open>msb\<close> finds the highest set bit;
  \<open>bitmap_ok\<close> says that a bitmap describes a list of levels. The locale \<open>prio_queue\<close> is the
  contract of a priority queue that both queues meet; it proves, once, in which order a queue
  gives back what was pushed.
\<close>

section \<open>The most significant bit\<close>

text \<open>\<^verbatim>\<open>u64::leading_zeros\<close>: the number of zero bits above the highest one bit.\<close>

definition leading_zeros :: "u64 \<Rightarrow> nat" where
  "leading_zeros n = length (takeWhile (\<lambda>i. \<not> bit n i) (rev [0..<64]))"

definition msb :: "u64 \<Rightarrow> nat option" where
  "msb n = (if n = 0 then None else Some (63 - leading_zeros n))"

text \<open>Number of priorities: priorities are \<open>0 .. 30\<close>.\<close>

definition NO_PRIORITIES :: nat where
  "NO_PRIORITIES = 31"

lemma NO_PRIORITIES_eq [simp]: "NO_PRIORITIES = 31"
  by (simp add: NO_PRIORITIES_def)

lemma takeWhile_rev_upt:
  assumes "i < n" and "P i" and "\<forall>j. i < j \<and> j < n \<longrightarrow> \<not> P j"
  shows "takeWhile (\<lambda>j. \<not> P j) (rev [0..<n]) = rev [Suc i..<n]"
proof -
  have "[0..<n] = [0..<Suc i] @ [Suc i..<n]"
    using assms(1) upt_add_eq_append [of 0 "Suc i" "n - Suc i"] by simp
  then have "rev [0..<n] = rev [Suc i..<n] @ i # rev [0..<i]"
    by simp
  moreover have "takeWhile (\<lambda>j. \<not> P j) (rev [Suc i..<n] @ i # rev [0..<i]) = rev [Suc i..<n]"
    using assms(2,3) by (subst takeWhile_append2) auto
  ultimately show ?thesis by simp
qed

lemma msb_None: "msb n = None \<longleftrightarrow> n = 0"
  by (simp add: msb_def)

lemma msb_eqI:
  assumes "bit n i" and "\<And>j. i < j \<Longrightarrow> \<not> bit n j"
  shows "msb n = Some i"
proof -
  from assms(1) have i: "i < 64"
    by (auto dest: bit_imp_le_length)
  from assms i have "leading_zeros n = 63 - i"
    by (simp add: leading_zeros_def takeWhile_rev_upt [where i = i])
  moreover from assms(1) have "n \<noteq> 0"
    by auto
  ultimately show ?thesis
    using i by (simp add: msb_def)
qed

lemma msb_SomeD:
  assumes "msb n = Some i"
  shows "bit n i" and "i < j \<Longrightarrow> \<not> bit n j"
proof -
  from assms have "n \<noteq> 0"
    by (auto simp: msb_def)
  then have ex: "{j. bit n j} \<noteq> {}"
    by (auto simp: bit_eq_iff)
  have fin: "finite {j. bit n j}"
    by (rule finite_subset [of _ "{..<64}"]) (auto dest: bit_imp_le_length)
  define m where "m = Max {j. bit n j}"
  have m: "bit n m"
    using Max_in [OF fin ex] by (simp add: m_def)
  have top: "\<not> bit n j" if "m < j" for j
    using Max_ge [OF fin, of j] that unfolding m_def by fastforce
  from msb_eqI [OF m top] assms have "i = m"
    by simp
  with m top show "bit n i" and "i < j \<Longrightarrow> \<not> bit n j"
    by auto
qed

section \<open>A bitmap that describes levels\<close>

definition bitmap_ok :: "u64 \<Rightarrow> 'a list list \<Rightarrow> bool" where
  "bitmap_ok bm ls \<longleftrightarrow> length ls = NO_PRIORITIES \<and>
     (\<forall>i. bit bm i \<longleftrightarrow> i < NO_PRIORITIES \<and> ls ! i \<noteq> [])"

text \<open>The tasks of all levels in the order in which they are popped: highest level first, and
  within a level in the order in which they were pushed.\<close>

definition pop_order :: "'a list list \<Rightarrow> 'a list" where
  "pop_order ls = concat (rev ls)"

lemma bitmap_ok_empty: "bitmap_ok 0 (replicate NO_PRIORITIES [])"
  by (simp add: bitmap_ok_def)

lemma bitmap_ok_push:
  assumes "bitmap_ok bm ls" and "i < NO_PRIORITIES"
  shows "bitmap_ok (bm OR push_bit i 1) (ls[i := ls ! i @ [x]])"
  using assms by (auto simp: bitmap_ok_def nth_list_update)

lemma bitmap_ok_update:
  assumes "bitmap_ok bm ls" and "i < NO_PRIORITIES" and "xs \<noteq> [] \<Longrightarrow> ls ! i \<noteq> []"
  shows "bitmap_ok (if xs = [] then bm AND NOT (push_bit i 1) else bm) (ls[i := xs])"
  using assms by (auto simp: bitmap_ok_def nth_list_update)

lemma bitmap_ok_zero: "bitmap_ok bm ls \<Longrightarrow> bm = 0 \<longleftrightarrow> (\<forall>i < NO_PRIORITIES. ls ! i = [])"
  by (auto simp: bitmap_ok_def bit_eq_iff)

lemma pop_order_Nil_iff: "pop_order ls = [] \<longleftrightarrow> (\<forall>l \<in> set ls. l = [])"
  by (simp add: pop_order_def)

lemma bitmap_ok_zero_order:
  assumes "bitmap_ok bm ls"
  shows "bm = 0 \<longleftrightarrow> pop_order ls = []"
  using assms bitmap_ok_zero [OF assms]
  by (auto simp: pop_order_Nil_iff all_set_conv_all_nth bitmap_ok_def)

lemma set_pop_order: "set (pop_order ls) = (\<Union>l \<in> set ls. set l)"
  by (simp add: pop_order_def)

text \<open>Splitting the pop order at one level.\<close>

lemma pop_order_split:
  assumes "i < length ls"
  shows "pop_order ls = pop_order (drop (Suc i) ls) @ ls ! i @ pop_order (take i ls)"
proof -
  have "ls = take i ls @ ls ! i # drop (Suc i) ls"
    using assms by (rule id_take_nth_drop)
  then have "pop_order ls = pop_order (take i ls @ ls ! i # drop (Suc i) ls)"
    by simp
  then show ?thesis
    by (simp only: pop_order_def rev_append rev.simps concat_append concat.simps append_assoc append_Nil2)
qed

lemma pop_order_update:
  assumes "i < length ls"
  shows "pop_order (ls[i := xs]) = pop_order (drop (Suc i) ls) @ xs @ pop_order (take i ls)"
  using pop_order_split [of i "ls[i := xs]"] assms by simp

lemma pop_order_msb:
  assumes "bitmap_ok bm ls" and "msb bm = Some i"
  shows "i < NO_PRIORITIES" and "ls ! i \<noteq> []"
    and "pop_order ls = ls ! i @ pop_order (take i ls)"
proof -
  from msb_SomeD (1) [OF assms(2)] assms(1) show i: "i < NO_PRIORITIES" and "ls ! i \<noteq> []"
    by (auto simp: bitmap_ok_def)
  have "ls ! j = []" if "i < j" "j < length ls" for j
    using msb_SomeD (2) [OF assms(2)] assms(1) that by (auto simp: bitmap_ok_def)
  then have "pop_order (drop (Suc i) ls) = []"
    by (auto simp: pop_order_Nil_iff in_set_conv_nth)
  with i assms(1) show "pop_order ls = ls ! i @ pop_order (take i ls)"
    using pop_order_split [of i ls] by (simp add: bitmap_ok_def)
qed

section \<open>Priority queues\<close>

text \<open>
  What a client sees of a priority queue: its elements in the order in which they are popped,
  highest level first and first-come first-served within a level. \<open>insert_prio\<close> is a push.
\<close>

definition insert_prio :: "('a \<Rightarrow> nat) \<Rightarrow> 'a \<Rightarrow> 'a list \<Rightarrow> 'a list" where
  "insert_prio lvl x xs =
     takeWhile (\<lambda>y. lvl x \<le> lvl y) xs @ x # dropWhile (\<lambda>y. lvl x \<le> lvl y) xs"

abbreviation prio_ordered :: "('a \<Rightarrow> nat) \<Rightarrow> 'a list \<Rightarrow> bool" where
  "prio_ordered lvl \<equiv> sorted_wrt (\<lambda>a b. lvl b \<le> lvl a)"

lemma set_insert_prio [simp]: "set (insert_prio lvl x xs) = insert x (set xs)"
proof -
  have "set xs = set (takeWhile P xs) \<union> set (dropWhile P xs)" for P
    by (metis set_append takeWhile_dropWhile_id)
  then show ?thesis
    unfolding insert_prio_def by auto
qed

lemma length_insert_prio [simp]: "length (insert_prio lvl x xs) = Suc (length xs)"
proof -
  have "length xs = length (takeWhile P xs) + length (dropWhile P xs)" for P
    by (metis length_append takeWhile_dropWhile_id)
  then show ?thesis
    by (simp add: insert_prio_def)
qed

lemma insert_prio_Nil: "insert_prio lvl x [] = [x]"
  by (simp add: insert_prio_def)

lemma insert_prio_Cons:
  "insert_prio lvl x (y # ys) = (if lvl x \<le> lvl y then y # insert_prio lvl x ys else x # y # ys)"
  by (simp add: insert_prio_def)

lemma filter_insert_prio_other: "\<not> P x \<Longrightarrow> filter P (insert_prio lvl x xs) = filter P xs"
  by (induction xs) (simp_all add: insert_prio_Nil insert_prio_Cons)

lemma distinct_insert_prio [simp]: "distinct (insert_prio lvl x xs) \<longleftrightarrow> x \<notin> set xs \<and> distinct xs"
  by (induction xs) (auto simp: insert_prio_Nil insert_prio_Cons)

lemma filter_insert_prio_same:
  assumes "prio_ordered lvl xs"
  shows "filter (\<lambda>y. lvl y = lvl x) (insert_prio lvl x xs) = filter (\<lambda>y. lvl y = lvl x) xs @ [x]"
  using assms
proof (induction xs)
  case Nil
  then show ?case by (simp add: insert_prio_def)
next
  case (Cons y ys)
  show ?case
  proof (cases "lvl x \<le> lvl y")
    case True
    with Cons show ?thesis by (simp add: insert_prio_Cons)
  next
    case False
    with Cons.prems have "filter (\<lambda>z. lvl z = lvl x) (y # ys) = []"
      by (auto simp: filter_empty_conv)
    with False show ?thesis by (simp add: insert_prio_Cons)
  qed
qed

lemma prio_ordered_insert: "prio_ordered lvl xs \<Longrightarrow> prio_ordered lvl (insert_prio lvl x xs)"
  by (induction xs) (auto simp: insert_prio_Nil insert_prio_Cons)

text \<open>A run of pushes, and a run of pops until the queue is empty.\<close>

fun push_all :: "('s \<Rightarrow> 'a \<Rightarrow> 's option) \<Rightarrow> 's \<Rightarrow> 'a list \<Rightarrow> 's option" where
  "push_all push s [] = Some s"
| "push_all push s (h # hs) = Option.bind (push s h) (\<lambda>s'. push_all push s' hs)"

fun drain :: "('s \<Rightarrow> ('a option \<times> 's) option) \<Rightarrow> nat \<Rightarrow> 's \<Rightarrow> ('a list \<times> 's) option" where
  "drain pop 0 s = Some ([], s)"
| "drain pop (Suc n) s =
     Option.bind (pop s) (\<lambda>(r, s').
       case r of
         None \<Rightarrow> Some ([], s')
       | Some h \<Rightarrow> map_option (\<lambda>(hs, t). (h # hs, t)) (drain pop n s'))"

locale prio_queue =
  fixes lvl :: "'a \<Rightarrow> nat"
    and ok :: "'s \<Rightarrow> bool"
    and waiters :: "'s \<Rightarrow> 'a list"
    and push :: "'s \<Rightarrow> 'a \<Rightarrow> 's option"
    and pop :: "'s \<Rightarrow> ('a option \<times> 's) option"
  assumes push_law: "\<lbrakk>ok s; lvl h < NO_PRIORITIES\<rbrakk> \<Longrightarrow>
      \<exists>s'. push s h = Some s' \<and> ok s' \<and> waiters s' = insert_prio lvl h (waiters s)"
    and pop_law: "ok s \<Longrightarrow>
      \<exists>s'. pop s = Some (case waiters s of [] \<Rightarrow> None | h # _ \<Rightarrow> Some h, s') \<and>
           ok s' \<and> waiters s' = tl (waiters s)"
    and waiters_ordered: "ok s \<Longrightarrow> prio_ordered lvl (waiters s)"
    and waiters_level: "ok s \<Longrightarrow> h \<in> set (waiters s) \<Longrightarrow> lvl h < NO_PRIORITIES"
begin

lemma pop_highest:
  assumes "ok s" and "pop s = Some (Some h, s')" and "x \<in> set (waiters s)"
  shows "lvl x \<le> lvl h"
proof -
  obtain s1 where s1: "pop s = Some (case waiters s of [] \<Rightarrow> None | h # _ \<Rightarrow> Some h, s1)"
    using pop_law [OF assms(1)] by blast
  with assms(2) obtain hs where "waiters s = h # hs"
    by (cases "waiters s") auto
  with waiters_ordered [OF assms(1)] assms(3) show ?thesis by auto
qed

lemma push_all_law:
  "\<lbrakk>ok s; \<forall>h \<in> set hs. lvl h < NO_PRIORITIES\<rbrakk> \<Longrightarrow>
    \<exists>s'. push_all push s hs = Some s' \<and> ok s' \<and>
         waiters s' = fold (insert_prio lvl) hs (waiters s)"
proof (induction hs arbitrary: s)
  case Nil
  then show ?case by simp
next
  case (Cons h hs)
  then obtain s1 where s1: "push s h = Some s1" "ok s1"
    "waiters s1 = insert_prio lvl h (waiters s)"
    using push_law [of s h] by auto
  with Cons.IH [of s1] Cons.prems show ?case by auto
qed

lemma drain_law:
  "\<lbrakk>ok s; length (waiters s) \<le> n\<rbrakk> \<Longrightarrow>
    \<exists>s'. drain pop n s = Some (waiters s, s') \<and> ok s' \<and> waiters s' = []"
proof (induction n arbitrary: s)
  case 0
  then show ?case by simp
next
  case (Suc n)
  obtain s1 where s1: "pop s = Some (case waiters s of [] \<Rightarrow> None | h # _ \<Rightarrow> Some h, s1)"
    "ok s1" "waiters s1 = tl (waiters s)"
    using pop_law [OF Suc.prems(1)] by blast
  show ?case
  proof (cases "waiters s")
    case Nil
    with s1 show ?thesis by simp
  next
    case (Cons h hs)
    with s1 Suc.prems(2) Suc.IH [of s1] show ?thesis by auto
  qed
qed

lemma fold_insert_level:
  assumes "prio_ordered lvl xs"
  shows "prio_ordered lvl (fold (insert_prio lvl) hs xs) \<and>
    filter (\<lambda>x. lvl x = p) (fold (insert_prio lvl) hs xs) =
    filter (\<lambda>x. lvl x = p) xs @ filter (\<lambda>x. lvl x = p) hs"
  using assms
proof (induction hs arbitrary: xs)
  case Nil
  then show ?case by simp
next
  case (Cons h hs)
  note IH = Cons.IH [OF prio_ordered_insert [OF Cons.prems, of h]]
  show ?case
  proof (cases "lvl h = p")
    case True
    with IH filter_insert_prio_same [OF Cons.prems, of h] show ?thesis by simp
  next
    case False
    with IH filter_insert_prio_other [of "\<lambda>x. lvl x = p" h lvl xs] show ?thesis by simp
  qed
qed

text \<open>
  Pushing elements into an empty queue and popping until it is empty returns all of them, in
  falling priority, and the elements of each priority in the order in which they came.
\<close>

lemma push_all_drain:
  assumes "ok s" and "waiters s = []" and "\<forall>h \<in> set hs. lvl h < NO_PRIORITIES"
  shows "\<exists>s1 ws s2. push_all push s hs = Some s1 \<and> drain pop (length hs) s1 = Some (ws, s2) \<and>
    prio_ordered lvl ws \<and> waiters s2 = [] \<and>
    (\<forall>p. filter (\<lambda>x. lvl x = p) ws = filter (\<lambda>x. lvl x = p) hs)"
proof -
  obtain s1 where s1: "push_all push s hs = Some s1" "ok s1"
    "waiters s1 = fold (insert_prio lvl) hs []"
    using push_all_law [OF assms(1,3)] assms(2) by auto
  have "length (fold (insert_prio lvl) hs xs) = length xs + length hs" for xs
    by (induction hs arbitrary: xs) simp_all
  then have "length (waiters s1) \<le> length hs"
    using s1(3) by simp
  from drain_law [OF s1(2) this] fold_insert_level [of "[]" hs] s1 show ?thesis
    by auto
qed

end

section \<open>Levels\<close>

text \<open>Every element sits in the level of its priority.\<close>

definition levels_match :: "('a \<Rightarrow> nat) \<Rightarrow> 'a list list \<Rightarrow> bool" where
  "levels_match lvl ls \<longleftrightarrow> (\<forall>i < length ls. \<forall>h \<in> set (ls ! i). lvl h = i)"

lemma levels_match_update:
  assumes "levels_match lvl ls" and "\<forall>h \<in> set xs. lvl h = i"
  shows "levels_match lvl (ls[i := xs])"
  using assms
  by (cases "i < length ls")
    (auto simp: levels_match_def nth_list_update list_update_beyond split: if_splits)

lemma levels_matchD: "levels_match lvl ls \<Longrightarrow> i < length ls \<Longrightarrow> h \<in> set (ls ! i) \<Longrightarrow> lvl h = i"
  by (simp add: levels_match_def)

lemma levels_match_take_drop:
  assumes "levels_match lvl ls" and "i < length ls"
  shows "h \<in> set (pop_order (take i ls)) \<Longrightarrow> lvl h < i"
    and "h \<in> set (pop_order (drop (Suc i) ls)) \<Longrightarrow> i < lvl h"
proof -
  assume "h \<in> set (pop_order (take i ls))"
  then obtain j where "j < i" and "j < length ls" and "h \<in> set (ls ! j)"
    by (auto simp: set_pop_order in_set_conv_nth [where xs = "take i ls"])
  with assms(1) show "lvl h < i"
    by (auto dest: levels_matchD)
next
  assume "h \<in> set (pop_order (drop (Suc i) ls))"
  then obtain j where "j < length ls - Suc i" and "h \<in> set (ls ! (Suc i + j))"
    by (auto simp: set_pop_order in_set_conv_nth [where xs = "drop (Suc i) ls"])
  with levels_matchD [OF assms(1), of "Suc i + j" h] have "lvl h = Suc i + j"
    by simp
  then show "i < lvl h" by simp
qed

lemma levels_match_member:
  assumes "levels_match lvl ls" and "h \<in> set (pop_order ls)"
  shows "lvl h < length ls" and "h \<in> set (ls ! lvl h)"
proof -
  from assms(2) obtain i where "i < length ls" and "h \<in> set (ls ! i)"
    by (auto simp: set_pop_order in_set_conv_nth [where xs = ls])
  with levels_matchD [OF assms(1)] show "lvl h < length ls" and "h \<in> set (ls ! lvl h)"
    by auto
qed

lemma levels_match_ordered: "levels_match lvl ls \<Longrightarrow> prio_ordered lvl (pop_order ls)"
proof (induction ls rule: rev_induct)
  case Nil
  then show ?case by (simp add: pop_order_def)
next
  case (snoc l ls)
  have match: "levels_match lvl ls"
    using snoc.prems by (fastforce simp: levels_match_def nth_append)
  have here: "\<forall>h \<in> set l. lvl h = length ls"
    using snoc.prems by (auto simp: levels_match_def)
  have below: "lvl h < length ls" if "h \<in> set (pop_order ls)" for h
    using levels_match_take_drop (1) [of lvl "ls @ [l]" "length ls" h] snoc.prems that by simp
  have "prio_ordered lvl l"
    using here by (auto simp: sorted_wrt_iff_nth_less)
  moreover have "lvl b \<le> lvl a" if "a \<in> set l" "b \<in> set (pop_order ls)" for a b
    using here below [OF that(2)] that(1) by simp
  ultimately show ?case
    using snoc.IH [OF match] by (simp add: pop_order_def sorted_wrt_append)
qed

lemma insert_prio_pop_order:
  assumes "levels_match lvl ls" and "i < length ls" and "lvl h = i"
  shows "insert_prio lvl h (pop_order ls) = pop_order (ls[i := ls ! i @ [h]])"
proof -
  let ?P = "\<lambda>x. lvl h \<le> lvl x"
  have "\<forall>x \<in> set (pop_order (drop (Suc i) ls) @ ls ! i). ?P x"
    using assms levels_match_take_drop (2) [OF assms(1,2)] levels_matchD [OF assms(1,2)]
    by (auto dest: less_imp_le)
  moreover have "\<forall>x \<in> set (pop_order (take i ls)). \<not> ?P x"
    using assms(3) levels_match_take_drop (1) [OF assms(1,2)] by (auto simp: not_le)
  ultimately show ?thesis
    using assms(2)
    by (simp add: insert_prio_def pop_order_split [OF assms(2)] pop_order_update
        takeWhile_all_append dropWhile_all_append flip: append_assoc)
qed

end
