(* ===== verification/Ready_Queue.thy ===== *)
theory Ready_Queue
  imports Tasks Prio_Bitmap
begin

text \<open>
  \<open>PriorityTaskQueue\<close> of \<^verbatim>\<open>src/scheduler/task/mod.rs\<close>: the tasks of a core that are
  ready to run, one linked list per priority and a bitmap of the non-empty lists. The interpretation
  \<open>rq\<close> shows that it is a priority queue; the lemmas add what the scheduler needs of
  \<open>pop_with_prio\<close>, \<open>get_highest_priority\<close> and \<open>set_priority\<close>.
\<close>

record ready_queue =
  rq_queues :: "tref list list"
  rq_bitmap :: u64

definition rq_new :: ready_queue where
  "rq_new = \<lparr>rq_queues = replicate NO_PRIORITIES [], rq_bitmap = 0\<rparr>"

definition rq_push :: "task_store \<Rightarrow> ready_queue \<Rightarrow> tref \<Rightarrow> ready_queue option" where
  "rq_push h q r = do {
     let i = task_level h r;
     guard (i < length (rq_queues q));
     Some (q\<lparr>rq_bitmap := rq_bitmap q OR push_bit i 1,
             rq_queues := (rq_queues q)[i := rq_queues q ! i @ [r]]\<rparr>)
   }"

definition rq_pop_from_queue :: "ready_queue \<Rightarrow> nat \<Rightarrow> (tref option \<times> ready_queue) option" where
  "rq_pop_from_queue q i = do {
     guard (i < length (rq_queues q));
     let l = rq_queues q ! i;
     let task = (case l of [] \<Rightarrow> None | r # _ \<Rightarrow> Some r);
     let q1 = q\<lparr>rq_queues := (rq_queues q)[i := tl l]\<rparr>;
     Some (task, if tl l = [] then q1\<lparr>rq_bitmap := rq_bitmap q1 AND NOT (push_bit i 1)\<rparr> else q1)
   }"

text \<open>\<open>remove_from_queue\<close>: the list is split at the index, the head of the second part taken, and
  the rest appended again.\<close>

definition rq_remove_from_queue ::
    "ready_queue \<Rightarrow> nat \<Rightarrow> nat \<Rightarrow> (tref option \<times> ready_queue) option" where
  "rq_remove_from_queue q task_index i = do {
     guard (i < length (rq_queues q));
     let l = rq_queues q ! i;
     if length l < task_index then Some (None, q)
     else do {
       let split_list = drop task_index l;
       let element = (case split_list of [] \<Rightarrow> None | r # _ \<Rightarrow> Some r);
       let l' = take task_index l @ tl split_list;
       let q1 = q\<lparr>rq_queues := (rq_queues q)[i := l']\<rparr>;
       Some (element, if l' = [] then q1\<lparr>rq_bitmap := rq_bitmap q1 AND NOT (push_bit i 1)\<rparr> else q1)
     }
   }"

definition rq_is_empty :: "ready_queue \<Rightarrow> bool" where
  "rq_is_empty q \<longleftrightarrow> rq_bitmap q = 0"

definition rq_pop :: "ready_queue \<Rightarrow> (tref option \<times> ready_queue) option" where
  "rq_pop q = (case msb (rq_bitmap q) of
     None \<Rightarrow> Some (None, q)
   | Some i \<Rightarrow> rq_pop_from_queue q i)"

definition rq_pop_with_prio :: "ready_queue \<Rightarrow> priority \<Rightarrow> (tref option \<times> ready_queue) option" where
  "rq_pop_with_prio q prio = (case msb (rq_bitmap q) of
     None \<Rightarrow> Some (None, q)
   | Some i \<Rightarrow> if i < prio_index prio then Some (None, q) else rq_pop_from_queue q i)"

definition rq_get_highest_priority :: "ready_queue \<Rightarrow> priority" where
  "rq_get_highest_priority q = (case msb (rq_bitmap q) of
     None \<Rightarrow> IDLE_PRIO
   | Some i \<Rightarrow> Priority (of_nat i))"

text \<open>\<open>set_priority\<close>: \<^const>\<open>False\<close> is the error result, with nothing changed.\<close>

definition rq_set_priority ::
    "task_store \<Rightarrow> ready_queue \<Rightarrow> task_handle \<Rightarrow> priority \<Rightarrow> (bool \<times> task_store \<times> ready_queue) option" where
  "rq_set_priority h q handle prio = do {
     let old_priority = handle_level handle;
     guard (old_priority < length (rq_queues q));
     (case position (\<lambda>r. t_id (h r) = handle_id handle) (rq_queues q ! old_priority) of
        None \<Rightarrow> Some (False, h, q)
      | Some index \<Rightarrow> do {
          (el, q1) \<leftarrow> rq_remove_from_queue q index old_priority;
          (case el of
             None \<Rightarrow> Some (False, h, q1)
           | Some r \<Rightarrow> do {
               let h1 = h(r := (h r)\<lparr>t_prio := prio\<rparr>);
               q2 \<leftarrow> rq_push h1 q1 r;
               Some (True, h1, q2)
             })
        })
   }"

section \<open>Invariant and contract\<close>

definition rq_order :: "ready_queue \<Rightarrow> tref list" where
  "rq_order q = pop_order (rq_queues q)"

definition rq_ok :: "task_store \<Rightarrow> ready_queue \<Rightarrow> bool" where
  "rq_ok h q \<longleftrightarrow> bitmap_ok (rq_bitmap q) (rq_queues q) \<and> levels_match (task_level h) (rq_queues q)"

lemma rq_ok_new: "rq_ok h rq_new"
  using bitmap_ok_empty by (auto simp: rq_ok_def rq_new_def levels_match_def)

lemma rq_order_new [simp]: "rq_order rq_new = []"
  by (simp add: rq_order_def rq_new_def pop_order_def)

lemma rq_ok_length: "rq_ok h q \<Longrightarrow> length (rq_queues q) = NO_PRIORITIES"
  by (simp add: rq_ok_def bitmap_ok_def)

text \<open>The invariant reads only the priorities of the queued tasks.\<close>

lemma rq_ok_cong:
  assumes "rq_ok h q" and "\<forall>r \<in> set (rq_order q). t_prio (h' r) = t_prio (h r)"
  shows "rq_ok h' q"
proof -
  have "r \<in> set (rq_order q)" if "i < length (rq_queues q)" "r \<in> set (rq_queues q ! i)" for i r
    using that nth_mem [OF that(1)] by (auto simp: rq_order_def set_pop_order)
  with assms show ?thesis
    by (auto simp: rq_ok_def levels_match_def)
qed

lemma rq_push_ok:
  assumes "rq_ok h q" and "task_level h r < NO_PRIORITIES"
  shows "\<exists>q'. rq_push h q r = Some q' \<and> rq_ok h q' \<and>
    rq_order q' = insert_prio (task_level h) r (rq_order q)"
proof -
  let ?i = "task_level h r"
  have len: "length (rq_queues q) = NO_PRIORITIES" and match: "levels_match (task_level h) (rq_queues q)"
    and bok: "bitmap_ok (rq_bitmap q) (rq_queues q)"
    using assms(1) by (auto simp: rq_ok_def bitmap_ok_def)
  have "levels_match (task_level h) ((rq_queues q)[?i := rq_queues q ! ?i @ [r]])"
    using match len assms(2) by (intro levels_match_update) (auto dest: levels_matchD)
  with bitmap_ok_push [OF bok assms(2)] insert_prio_pop_order [OF match _ refl, of r] len assms(2)
  show ?thesis
    by (simp add: rq_push_def rq_ok_def rq_order_def Let_def)
qed

text \<open>Replacing one level by a part of it, with the bit cleared when nothing is left.\<close>

lemma rq_shrink_ok:
  assumes ok: "rq_ok h q" and i: "i < NO_PRIORITIES" and sub: "set l \<subseteq> set (rq_queues q ! i)"
  defines "q1 \<equiv> q\<lparr>rq_queues := (rq_queues q)[i := l]\<rparr>"
  shows "rq_ok h (if l = [] then q1\<lparr>rq_bitmap := rq_bitmap q1 AND NOT (push_bit i 1)\<rparr> else q1)"
proof -
  have len: "length (rq_queues q) = NO_PRIORITIES" and match: "levels_match (task_level h) (rq_queues q)"
    and bok: "bitmap_ok (rq_bitmap q) (rq_queues q)"
    using ok by (auto simp: rq_ok_def bitmap_ok_def)
  have "levels_match (task_level h) ((rq_queues q)[i := l])"
    using match sub i len by (auto intro!: levels_match_update dest: levels_matchD)
  moreover have "bitmap_ok (if l = [] then rq_bitmap q AND NOT (push_bit i 1) else rq_bitmap q)
      ((rq_queues q)[i := l])"
    using sub by (intro bitmap_ok_update [OF bok i]) auto
  ultimately show ?thesis
    by (simp add: rq_ok_def q1_def split: if_splits)
qed

lemma rq_pop_from_queue_msb:
  assumes ok: "rq_ok h q" and i: "msb (rq_bitmap q) = Some i"
  shows "\<exists>r q'. rq_pop_from_queue q i = Some (Some r, q') \<and> rq_ok h q' \<and>
    rq_order q = r # rq_order q' \<and> task_level h r = i"
proof -
  have bok: "bitmap_ok (rq_bitmap q) (rq_queues q)"
    using ok by (simp add: rq_ok_def)
  note top = pop_order_msb [OF bok i]
  obtain r l where rl: "rq_queues q ! i = r # l"
    using top(2) by (cases "rq_queues q ! i") auto
  have len: "i < length (rq_queues q)"
    using rq_ok_length [OF ok] top(1) by simp
  let ?q1 = "q\<lparr>rq_queues := (rq_queues q)[i := l]\<rparr>"
  let ?q' = "if l = [] then ?q1\<lparr>rq_bitmap := rq_bitmap ?q1 AND NOT (push_bit i 1)\<rparr> else ?q1"
  have "rq_ok h ?q'"
    by (rule rq_shrink_ok [OF ok top(1)]) (use rl in auto)
  moreover have "rq_order q = r # rq_order ?q'"
    using top(3) pop_order_update [OF len, of l] pop_order_split [OF len] rl
    by (auto simp: rq_order_def)
  moreover have "task_level h r = i"
    using ok len rl by (auto simp: rq_ok_def dest!: levels_matchD)
  moreover have "rq_pop_from_queue q i = Some (Some r, ?q')"
    using len rl by (simp add: rq_pop_from_queue_def Let_def)
  ultimately show ?thesis by blast
qed

lemma rq_is_empty_iff: "rq_ok h q \<Longrightarrow> rq_is_empty q \<longleftrightarrow> rq_order q = []"
  using bitmap_ok_zero_order by (auto simp: rq_ok_def rq_is_empty_def rq_order_def)

lemma rq_pop_ok:
  assumes "rq_ok h q"
  shows "\<exists>q'. rq_pop q = Some (case rq_order q of [] \<Rightarrow> None | r # _ \<Rightarrow> Some r, q') \<and>
    rq_ok h q' \<and> rq_order q' = tl (rq_order q)"
proof (cases "msb (rq_bitmap q)")
  case None
  then have "rq_order q = []"
    using rq_is_empty_iff [OF assms] by (simp add: msb_None rq_is_empty_def)
  with None assms show ?thesis by (simp add: rq_pop_def)
next
  case (Some i)
  with rq_pop_from_queue_msb [OF assms Some] show ?thesis
    by (auto simp: rq_pop_def)
qed

text \<open>\<open>pop_with_prio\<close> pops exactly when the best ready task is at least as urgent as \<open>prio\<close>.\<close>

lemma rq_pop_with_prio_ok:
  assumes "rq_ok h q"
  shows "(case rq_order q of
      [] \<Rightarrow> rq_pop_with_prio q prio = Some (None, q)
    | r # rs \<Rightarrow> if prio_index prio \<le> task_level h r
               then \<exists>q'. rq_pop_with_prio q prio = Some (Some r, q') \<and> rq_ok h q' \<and> rq_order q' = rs
               else rq_pop_with_prio q prio = Some (None, q))"
proof (cases "msb (rq_bitmap q)")
  case None
  then have "rq_order q = []"
    using rq_is_empty_iff [OF assms] by (simp add: msb_None rq_is_empty_def)
  with None show ?thesis by (simp add: rq_pop_with_prio_def)
next
  case (Some i)
  with rq_pop_from_queue_msb [OF assms Some] show ?thesis
    by (auto simp: rq_pop_with_prio_def)
qed

interpretation rq: prio_queue "task_level h" "rq_ok h" rq_order "rq_push h" rq_pop for h
proof (unfold_locales, goal_cases)
  case (1 s r)
  then show ?case by (rule rq_push_ok)
next
  case (2 s)
  then show ?case by (rule rq_pop_ok)
next
  case (3 s)
  then show ?case using levels_match_ordered by (auto simp: rq_ok_def rq_order_def)
next
  case (4 s r)
  then show ?case
    using levels_match_member (1) [of "task_level h" "rq_queues s" r] rq_ok_length [of h s]
    by (simp add: rq_ok_def rq_order_def)
qed

section \<open>Changing the priority of a queued task\<close>

lemma remove1_nth:
  assumes "k < length l" and "xs ! k \<notin> set (take k l)" and "xs = l"
  shows "remove1 (xs ! k) l = take k l @ drop (Suc k) l"
proof -
  have "l = take k l @ l ! k # drop (Suc k) l"
    using assms(1) by (rule id_take_nth_drop)
  then have "remove1 (l ! k) l = remove1 (l ! k) (take k l @ l ! k # drop (Suc k) l)"
    by simp
  with assms show ?thesis
    by (simp add: remove1_append)
qed

lemma rq_remove_from_queue_ok:
  assumes ok: "rq_ok h q" and i: "i < NO_PRIORITIES" and k: "k < length (rq_queues q ! i)"
    and fresh: "rq_queues q ! i ! k \<notin> set (take k (rq_queues q ! i))"
  shows "\<exists>q'. rq_remove_from_queue q k i = Some (Some (rq_queues q ! i ! k), q') \<and> rq_ok h q' \<and>
    rq_order q' = remove1 (rq_queues q ! i ! k) (rq_order q)"
proof -
  let ?l = "rq_queues q ! i"
  let ?l' = "take k ?l @ drop (Suc k) ?l"
  let ?q1 = "q\<lparr>rq_queues := (rq_queues q)[i := ?l']\<rparr>"
  let ?q' = "if ?l' = [] then ?q1\<lparr>rq_bitmap := rq_bitmap ?q1 AND NOT (push_bit i 1)\<rparr> else ?q1"
  have len: "i < length (rq_queues q)"
    using rq_ok_length [OF ok] i by simp
  have match: "levels_match (task_level h) (rq_queues q)"
    using ok by (simp add: rq_ok_def)
  have "drop k ?l = ?l ! k # drop (Suc k) ?l"
    using k by (rule Cons_nth_drop_Suc [symmetric])
  then have run: "rq_remove_from_queue q k i = Some (Some (?l ! k), ?q')"
    using len k by (auto simp: rq_remove_from_queue_def Let_def)
  have "set ?l' \<subseteq> set ?l"
    using set_take_subset [of k ?l] set_drop_subset [of "Suc k" ?l] by auto
  then have ok': "rq_ok h ?q'"
    by (rule rq_shrink_ok [OF ok i])
  have lvl: "task_level h (?l ! k) = i"
    using levels_matchD [OF match len nth_mem [OF k]] .
  have "?l ! k \<notin> set (pop_order (drop (Suc i) (rq_queues q)))"
    using levels_match_take_drop (2) [OF match len, of "?l ! k"] lvl by auto
  then have "remove1 (?l ! k) (rq_order q) =
      pop_order (drop (Suc i) (rq_queues q)) @ remove1 (?l ! k) ?l @ pop_order (take i (rq_queues q))"
    using k by (simp add: rq_order_def pop_order_split [OF len] remove1_append)
  also have "\<dots> = rq_order ?q'"
    using remove1_nth [OF k fresh refl] pop_order_update [OF len] by (simp add: rq_order_def)
  finally show ?thesis
    using run ok' by auto
qed

text \<open>
  A successful \<open>set_priority\<close> takes the task out of the order and inserts it again behind the
  tasks of its new priority.
\<close>

lemma rq_set_priority_ok:
  assumes ok: "rq_ok h q" and mem: "r \<in> set (rq_order q)" and dist: "distinct (rq_order q)"
    and uniq: "\<forall>x \<in> set (rq_order q). t_id (h x) = t_id (h r) \<longrightarrow> x = r"
    and handle: "handle_id handle = t_id (h r)" "handle_priority handle = t_prio (h r)"
    and prio: "prio_index prio < NO_PRIORITIES"
  defines "h' \<equiv> h(r := (h r)\<lparr>t_prio := prio\<rparr>)"
  shows "\<exists>q'. rq_set_priority h q handle prio = Some (True, h', q') \<and> rq_ok h' q' \<and>
    rq_order q' = insert_prio (task_level h') r (remove1 r (rq_order q))"
proof -
  let ?i = "handle_level handle"
  let ?l = "rq_queues q ! ?i"
  have match: "levels_match (task_level h) (rq_queues q)"
    using ok by (simp add: rq_ok_def)
  have here: "?i < length (rq_queues q)" "r \<in> set ?l"
    using levels_match_member [OF match, of r] mem handle by (auto simp: rq_order_def)
  have sub: "set ?l \<subseteq> set (rq_order q)"
    using nth_mem [OF here(1)] by (auto simp: rq_order_def set_pop_order)
  obtain k where pos: "position (\<lambda>x. t_id (h x) = handle_id handle) ?l = Some k"
    using here(2) handle position_None [of "\<lambda>x. t_id (h x) = handle_id handle" ?l] by auto
  note k = position_Some [OF pos]
  have "?l ! k \<in> set (rq_order q)"
    using k sub by (meson nth_mem subsetD)
  with k uniq handle have lk: "?l ! k = r"
    by auto
  have "?l ! k \<notin> set (take k ?l)"
    using k lk handle by (auto simp: in_set_conv_nth)
  then obtain q1 where q1: "rq_remove_from_queue q k ?i = Some (Some r, q1)" "rq_ok h q1"
    "rq_order q1 = remove1 r (rq_order q)"
    using rq_remove_from_queue_ok [OF ok _ _ , of ?i k] here(1) k lk rq_ok_length [OF ok] by auto
  have "r \<notin> set (rq_order q1)"
    using q1(3) dist by simp
  then have "rq_ok h' q1"
    by (intro rq_ok_cong [OF q1(2)]) (auto simp: h'_def)
  then obtain q2 where "rq_push h' q1 r = Some q2" "rq_ok h' q2"
    "rq_order q2 = insert_prio (task_level h') r (rq_order q1)"
    using rq_push_ok [of h' q1 r] prio by (auto simp: h'_def)
  with q1 pos here(1) show ?thesis
    by (auto simp: rq_set_priority_def h'_def Let_def)
qed

lemma rq_set_priority_missing:
  assumes "handle_level handle < length (rq_queues q)"
    and "\<forall>r \<in> set (rq_queues q ! handle_level handle). t_id (h r) \<noteq> handle_id handle"
  shows "rq_set_priority h q handle prio = Some (False, h, q)"
  using assms position_None [of "\<lambda>r. t_id (h r) = handle_id handle" "rq_queues q ! handle_level handle"]
  by (simp add: rq_set_priority_def Let_def)

section \<open>Properties\<close>

text \<open>A task with a number and a priority, for the examples.\<close>

definition plain_task :: "priority \<Rightarrow> nat \<Rightarrow> task" where
  "plain_task prio r = task_new (TaskId (int r)) 0 Ready prio (BootStacks 0) 0 0"

lemma plain_task_simps [simp]:
  "t_prio (plain_task prio r) = prio" "t_id (plain_task prio r) = TaskId (int r)"
  "t_status (plain_task prio r) = Ready" "t_core_id (plain_task prio r) = 0"
  "t_frame_location (plain_task prio r) = InSlot" "t_wake_pending (plain_task prio r) = False"
  "t_slot (plain_task prio r) = None" "t_last_touch (plain_task prio r) = 0"
  by (simp_all add: plain_task_def task_new_def)

text \<open>The preemption test. \<open>pop_with_prio\<close> never panics on a well-formed queue; it takes the task that is
  next in line, provided that this task is at least as urgent as the given priority, and otherwise
  leaves the queue alone. \<open>get_highest_priority\<close> is the priority of the task next in line.\<close>

theorem pop_with_prio_correct:
  assumes "rq_ok h q"
  shows "(case rq_order q of
      [] \<Rightarrow> rq_pop_with_prio q prio = Some (None, q) \<and> rq_get_highest_priority q = IDLE_PRIO
    | r # rs \<Rightarrow> rq_get_highest_priority q = t_prio (h r) \<and>
        (\<forall>s \<in> set rs. t_prio (h s) \<le> t_prio (h r)) \<and>
        (if prio \<le> t_prio (h r)
         then \<exists>q'. rq_pop_with_prio q prio = Some (Some r, q') \<and> rq_ok h q' \<and> rq_order q' = rs
         else rq_pop_with_prio q prio = Some (None, q)))"
proof (cases "rq_order q")
  case Nil
  then have "msb (rq_bitmap q) = None"
    using rq_is_empty_iff [OF assms] by (simp add: rq_is_empty_def msb_None)
  with Nil rq_pop_with_prio_ok [OF assms, of prio] show ?thesis
    by (simp add: rq_get_highest_priority_def)
next
  case (Cons r rs)
  then obtain i where i: "msb (rq_bitmap q) = Some i"
    using rq_is_empty_iff [OF assms] by (cases "msb (rq_bitmap q)") (auto simp: rq_is_empty_def msb_None)
  then have "task_level h r = i"
    using rq_pop_from_queue_msb [OF assms i] Cons by auto
  then have "rq_get_highest_priority q = t_prio (h r)"
    using i by (cases "t_prio (h r)") (auto simp: rq_get_highest_priority_def prio_index_def)
  moreover have "\<forall>s \<in> set rs. t_prio (h s) \<le> t_prio (h r)"
    using rq.waiters_ordered [OF assms] Cons by (simp add: prio_index_le)
  ultimately show ?thesis
    using rq_pop_with_prio_ok [OF assms, of prio] Cons by (simp add: prio_index_le)
qed

text \<open>A queue with one normal task.\<close>

definition demo_ready :: ready_queue where
  "demo_ready = rq_new\<lparr>rq_bitmap := 4, rq_queues := (rq_queues rq_new)[2 := [7]]\<rparr>"

lemma demo_ready_ok: "rq_ok (plain_task NORMAL_PRIO) demo_ready" and demo_ready_order: "rq_order demo_ready = [7]"
proof -
  have "rq_push (plain_task NORMAL_PRIO) rq_new 7 = Some demo_ready"
    by (simp add: rq_push_def demo_ready_def rq_new_def)
  with rq_push_ok [OF rq_ok_new, of "plain_task NORMAL_PRIO" 7]
  show "rq_ok (plain_task NORMAL_PRIO) demo_ready" and "rq_order demo_ready = [7]"
    by (auto simp: insert_prio_Nil)
qed

theorem pop_with_prio_witness:
  "\<exists>q'. rq_pop_with_prio demo_ready LOW_PRIO = Some (Some 7, q') \<and> rq_order q' = []"
  using pop_with_prio_correct [OF demo_ready_ok, of LOW_PRIO]
  by (auto simp: demo_ready_order prio_index_le [symmetric])

text \<open>The ready queue as a whole. Tasks pushed into an empty ready queue are popped in falling priority,
  first come first served within a priority, until the queue is empty; no operation panics.\<close>

theorem ready_tasks_run_by_priority_then_fifo:
  assumes "\<forall>r \<in> set rs. task_level h r < NO_PRIORITIES"
  shows "\<exists>q1 ws q2. push_all (rq_push h) rq_new rs = Some q1 \<and>
    drain rq_pop (length rs) q1 = Some (ws, q2) \<and> rq_order q2 = [] \<and>
    sorted_wrt (\<lambda>a b. t_prio (h b) \<le> t_prio (h a)) ws \<and>
    (\<forall>prio. filter (\<lambda>r. t_prio (h r) = prio) ws = filter (\<lambda>r. t_prio (h r) = prio) rs)"
proof -
  obtain q1 ws q2 where "push_all (rq_push h) rq_new rs = Some q1"
    "drain rq_pop (length rs) q1 = Some (ws, q2)" "rq_order q2 = []" "prio_ordered (task_level h) ws"
    "\<forall>i. filter (\<lambda>r. task_level h r = i) ws = filter (\<lambda>r. task_level h r = i) rs"
    using rq.push_all_drain [OF rq_ok_new rq_order_new assms] by blast
  moreover have level: "filter (\<lambda>r. t_prio (h r) = prio) xs = filter (\<lambda>r. task_level h r = prio_index prio) xs" for prio xs
    by (simp add: prio_index_inj)
  ultimately show ?thesis
    unfolding level prio_index_le by blast
qed

theorem ready_tasks_run_witness:
  "\<exists>q1 ws q2. push_all (rq_push (plain_task NORMAL_PRIO)) rq_new [3, 1, 2] = Some q1 \<and>
    drain rq_pop 3 q1 = Some (ws, q2) \<and>
    filter (\<lambda>r. t_prio (plain_task NORMAL_PRIO r) = NORMAL_PRIO) ws = [3, 1, 2]"
proof -
  have "\<forall>r \<in> set [3, 1, 2]. task_level (plain_task NORMAL_PRIO) r < NO_PRIORITIES"
    and "length [3, 1, 2 :: nat] = 3" by simp_all
  with ready_tasks_run_by_priority_then_fifo [OF this(1)] obtain q1 ws q2 where
    "push_all (rq_push (plain_task NORMAL_PRIO)) rq_new [3, 1, 2] = Some q1" "drain rq_pop 3 q1 = Some (ws, q2)"
    "filter (\<lambda>r. t_prio (plain_task NORMAL_PRIO r) = NORMAL_PRIO) ws =
      filter (\<lambda>r. t_prio (plain_task NORMAL_PRIO r) = NORMAL_PRIO) [3, 1, 2]"
    by metis
  moreover have "filter (\<lambda>r. t_prio (plain_task NORMAL_PRIO r) = NORMAL_PRIO) [3, 1, 2] = [3, 1, 2]"
    by simp
  ultimately show ?thesis by metis
qed

text \<open>Changing the priority of a queued task through an up-to-date handle succeeds: the task gets the new
  priority, leaves its place and is inserted behind the tasks of its new priority; the others keep
  their order.\<close>

theorem set_priority_requeues:
  assumes "rq_ok h q" and "r \<in> set (rq_order q)" and "distinct (rq_order q)"
    and "\<forall>x \<in> set (rq_order q). t_id (h x) = t_id (h r) \<longrightarrow> x = r" and "prio_index prio < NO_PRIORITIES"
  shows "\<exists>q'. rq_set_priority h q (task_handle_of (h r)) prio =
      Some (True, h(r := (h r)\<lparr>t_prio := prio\<rparr>), q') \<and> rq_ok (h(r := (h r)\<lparr>t_prio := prio\<rparr>)) q' \<and>
    rq_order q' = insert_prio (task_level (h(r := (h r)\<lparr>t_prio := prio\<rparr>))) r (remove1 r (rq_order q))"
  using rq_set_priority_ok [OF assms(1-4) _ _ assms(5), of "task_handle_of (h r)"]
  by (simp add: task_handle_of_def)

theorem set_priority_witness:
  "\<exists>h' q'. rq_set_priority (plain_task NORMAL_PRIO) demo_ready
      (task_handle_of (plain_task NORMAL_PRIO 7)) HIGH_PRIO = Some (True, h', q') \<and> rq_order q' = [7]"
  using set_priority_requeues [OF demo_ready_ok, of 7 HIGH_PRIO]
  by (auto simp: demo_ready_order insert_prio_Nil)

end
