(* ===== verification/Timers.thy ===== *)
theory Timers
  imports Prelude
begin

text \<open>
  The timer list of \<^verbatim>\<open>src/scheduler/timer_interrupts.rs\<close>: one slot per source multiplexed
  onto the one-shot hardware timer. The state keeps the slots, the value the hardware timer was
  last programmed with (\<^verbatim>\<open>set_oneshot_timer\<close>) and the number of times the network task
  was woken. \<open>now\<close> arguments are the readings of \<^verbatim>\<open>get_timer_ticks\<close>.
\<close>

datatype source = Network | Scheduler

record timer_slot =
  slot_source :: source
  slot_wakeup :: u64

record timer_state =
  timers :: "timer_slot list"
  oneshot :: "u64 option"
  net_wakes :: nat

definition timer_list_new :: "timer_slot list" where
  "timer_list_new =
     [\<lparr>slot_source = Network, slot_wakeup = u64_max\<rparr>,
      \<lparr>slot_source = Scheduler, slot_wakeup = u64_max\<rparr>]"

text \<open>\<open>slot_by_source_mut\<close>: the index of the slot of a source; the \<^verbatim>\<open>unwrap\<close> panics when
  there is none.\<close>

definition slot_by_source :: "source \<Rightarrow> timer_slot list \<Rightarrow> nat option" where
  "slot_by_source src ts = position (\<lambda>s. slot_source s = src) ts"

text \<open>\<^verbatim>\<open>min_by\<close> returns the first of several minimal elements.\<close>

fun next_timer :: "timer_slot list \<Rightarrow> nat option" where
  "next_timer [] = None"
| "next_timer (x # xs) =
     (case next_timer xs of
        None \<Rightarrow> Some 0
      | Some i \<Rightarrow> if slot_wakeup x \<le> slot_wakeup (xs ! i) then Some 0 else Some (Suc i))"

definition adjust_by :: "u64 \<Rightarrow> timer_slot list \<Rightarrow> timer_slot list" where
  "adjust_by offset ts =
     map (\<lambda>s. if slot_wakeup s \<noteq> u64_max then s\<lparr>slot_wakeup := slot_wakeup s - offset\<rparr> else s) ts"

definition create_timer_abs :: "source \<Rightarrow> u64 \<Rightarrow> timer_state \<Rightarrow> timer_state option" where
  "create_timer_abs src wakeup_time st = do {
     i \<leftarrow> slot_by_source src (timers st);
     let s = timers st ! i;
     let ts = (timers st)[i := s\<lparr>slot_wakeup := min (slot_wakeup s) wakeup_time\<rparr>];
     j \<leftarrow> next_timer ts;
     Some (if slot_wakeup (ts ! j) = wakeup_time
           then st\<lparr>timers := ts, oneshot := Some wakeup_time\<rparr>
           else st\<lparr>timers := ts\<rparr>)
   }"

definition create_timer :: "u64 \<Rightarrow> source \<Rightarrow> u64 \<Rightarrow> timer_state \<Rightarrow> timer_state option" where
  "create_timer now src wakeup_micros st = create_timer_abs src (now + wakeup_micros) st"

definition clear_active_and_set_next :: "u64 \<Rightarrow> timer_state \<Rightarrow> timer_state option" where
  "clear_active_and_set_next now st = do {
     i \<leftarrow> next_timer (timers st);
     let lowest = timers st ! i;
     guard (slot_wakeup lowest \<noteq> u64_max);
     let st1 = (case slot_source lowest of
                  Network \<Rightarrow> st\<lparr>net_wakes := Suc (net_wakes st)\<rparr>
                | Scheduler \<Rightarrow> st);
     let prev = slot_wakeup lowest;
     let ts1 = (timers st)[i := lowest\<lparr>slot_wakeup := u64_max\<rparr>];
     let ts2 = (if now < prev then adjust_by (prev - now) ts1 else ts1);
     j \<leftarrow> next_timer ts2;
     let new_lowest = slot_wakeup (ts2 ! j);
     Some (st1\<lparr>timers := ts2,
               oneshot := (if new_lowest = u64_max then None else Some new_lowest)\<rparr>)
   }"

section \<open>Invariants\<close>

text \<open>One slot per source, in the order of \<open>new\<close>.\<close>

definition timers_ok :: "timer_slot list \<Rightarrow> bool" where
  "timers_ok ts \<longleftrightarrow> map slot_source ts = [Network, Scheduler]"

definition wakeup_of :: "source \<Rightarrow> timer_slot list \<Rightarrow> u64" where
  "wakeup_of src ts = (case src of Network \<Rightarrow> slot_wakeup (ts ! 0) | Scheduler \<Rightarrow> slot_wakeup (ts ! 1))"

definition earliest :: "timer_slot list \<Rightarrow> u64" where
  "earliest ts = min (wakeup_of Network ts) (wakeup_of Scheduler ts)"

text \<open>The hardware timer is programmed for the earliest slot that is set.\<close>

definition armed :: "timer_state \<Rightarrow> bool" where
  "armed st \<longleftrightarrow> timers_ok (timers st) \<and>
     (earliest (timers st) \<noteq> u64_max \<longrightarrow> oneshot st = Some (earliest (timers st)))"

lemma timers_okE:
  assumes "timers_ok ts"
  obtains a b where "ts = [\<lparr>slot_source = Network, slot_wakeup = a\<rparr>,
    \<lparr>slot_source = Scheduler, slot_wakeup = b\<rparr>]"
proof -
  from assms obtain x y where xy: "ts = [x, y]" "slot_source x = Network" "slot_source y = Scheduler"
    by (auto simp: timers_ok_def)
  moreover have "x = \<lparr>slot_source = Network, slot_wakeup = slot_wakeup x\<rparr>"
    "y = \<lparr>slot_source = Scheduler, slot_wakeup = slot_wakeup y\<rparr>"
    using xy by simp_all
  ultimately show ?thesis
    using that by blast
qed

lemma timers_ok_new: "timers_ok timer_list_new"
  by (simp add: timers_ok_def timer_list_new_def)

lemma armed_new: "armed \<lparr>timers = timer_list_new, oneshot = None, net_wakes = n\<rparr>"
  by (simp add: armed_def timers_ok_def timer_list_new_def earliest_def wakeup_of_def)

lemma u64_max_top [simp]: "min w u64_max = w" "min u64_max w = w"
  by (simp_all add: min_absorb1 min_absorb2)

text \<open>Setting a timer keeps the other source's slot, lowers its own to the new time if that is
  earlier, and keeps the hardware timer on the earliest slot.\<close>

lemma create_timer_abs_ok:
  assumes "armed st"
  shows "\<exists>st'. create_timer_abs src w st = Some st' \<and> armed st' \<and> net_wakes st' = net_wakes st \<and>
    wakeup_of src (timers st') = min (wakeup_of src (timers st)) w \<and>
    (\<forall>src'. src' \<noteq> src \<longrightarrow> wakeup_of src' (timers st') = wakeup_of src' (timers st))"
proof -
  from assms obtain a b where ts: "timers st = [\<lparr>slot_source = Network, slot_wakeup = a\<rparr>,
    \<lparr>slot_source = Scheduler, slot_wakeup = b\<rparr>]"
    by (auto simp: armed_def elim: timers_okE)
  from assms have arm: "min a b \<noteq> u64_max \<longrightarrow> oneshot st = Some (min a b)"
    by (simp add: armed_def ts earliest_def wakeup_of_def)
  show ?thesis
  proof (cases src)
    case Network
    with arm show ?thesis
      by (auto simp: create_timer_abs_def ts slot_by_source_def Let_def armed_def timers_ok_def
          earliest_def wakeup_of_def min_def split: if_splits source.splits)
  next
    case Scheduler
    with arm show ?thesis
      by (auto simp: create_timer_abs_def ts slot_by_source_def Let_def armed_def timers_ok_def
          earliest_def wakeup_of_def min_def split: if_splits source.splits)
  qed
qed

text \<open>The subtraction of \<open>adjust_by\<close> in the interrupt handler never wraps: a slot other than the
  expired one is not earlier than it.\<close>

lemma adjusted_slot:
  assumes "now < prev" and "prev \<le> w"
  shows "unat (w - (prev - now)) = unat now + (unat w - unat prev)"
    and "now \<le> w - (prev - now)"
proof -
  have d: "unat (prev - now) = unat prev - unat now"
    using assms(1) by (simp add: unat_sub)
  have "prev - now \<le> w"
    using assms by (simp add: word_le_nat_alt d word_less_nat_alt)
  then have "unat (w - (prev - now)) = unat w - (unat prev - unat now)"
    by (simp add: unat_sub d)
  with assms show eq: "unat (w - (prev - now)) = unat now + (unat w - unat prev)"
    by (simp add: word_le_nat_alt word_less_nat_alt)
  then show "now \<le> w - (prev - now)"
    by (simp add: word_le_nat_alt)
qed

definition expired_source :: "timer_slot list \<Rightarrow> source" where
  "expired_source ts = (if wakeup_of Network ts \<le> wakeup_of Scheduler ts then Network else Scheduler)"

text \<open>The time a slot has after the handler ran at \<open>now\<close> for a timer that was due at \<open>prev\<close>.\<close>

definition slot_after :: "u64 \<Rightarrow> u64 \<Rightarrow> u64 \<Rightarrow> u64" where
  "slot_after now prev w = (if now < prev \<and> w \<noteq> u64_max then w - (prev - now) else w)"

lemma slot_after_max: "prev \<le> w \<Longrightarrow> slot_after now prev w = u64_max \<longleftrightarrow> w = u64_max"
proof -
  assume pw: "prev \<le> w"
  show ?thesis
  proof (cases "now < prev \<and> w \<noteq> u64_max")
    case True
    with adjusted_slot (1) [OF _ pw] have "unat (slot_after now prev w) = unat now + (unat w - unat prev)"
      by (simp add: slot_after_def)
    moreover have "unat now < unat prev" and "unat prev \<le> unat w"
      using True pw by (simp_all add: word_less_nat_alt word_le_nat_alt)
    ultimately have "unat (slot_after now prev w) < unat w"
      by simp
    with True show ?thesis
      using unat_less_pow [of w] by (auto simp: unsigned_minus_1_eq_mask mask_eq_exp_minus_1)
  qed (auto simp: slot_after_def)
qed

text \<open>
  The timer interrupt: the earliest slot is cleared, its source's waiters are notified, the other
  slot is moved by the time the interrupt came early (without wrapping), and the hardware timer
  is programmed for the slot that is left, or stopped.
\<close>

lemma clear_active_ok:
  assumes "armed st" and "earliest (timers st) \<noteq> u64_max"
  shows "\<exists>st'. clear_active_and_set_next now st = Some st' \<and> armed st' \<and>
    (earliest (timers st') = u64_max \<longrightarrow> oneshot st' = None) \<and>
    wakeup_of (expired_source (timers st)) (timers st') = u64_max \<and>
    (\<forall>src. src \<noteq> expired_source (timers st) \<longrightarrow>
       wakeup_of src (timers st') = slot_after now (earliest (timers st)) (wakeup_of src (timers st))) \<and>
    net_wakes st' = (if expired_source (timers st) = Network then Suc (net_wakes st) else net_wakes st)"
proof -
  from assms(1) obtain a b where ts: "timers st = [\<lparr>slot_source = Network, slot_wakeup = a\<rparr>,
    \<lparr>slot_source = Scheduler, slot_wakeup = b\<rparr>]"
    by (auto simp: armed_def elim: timers_okE)
  show ?thesis
  proof (cases "a \<le> b")
    case True
    then have "a \<noteq> u64_max" and m: "slot_after now a b = u64_max \<longleftrightarrow> b = u64_max"
      using assms(2) slot_after_max by (auto simp: ts earliest_def wakeup_of_def min_def)
    with True show ?thesis
      by (auto simp: clear_active_and_set_next_def ts Let_def armed_def timers_ok_def adjust_by_def
          earliest_def wakeup_of_def min_def expired_source_def slot_after_def
          split: if_splits source.splits)
  next
    case False
    then have "b \<noteq> u64_max" and m: "slot_after now b a = u64_max \<longleftrightarrow> a = u64_max"
      using assms(2) slot_after_max [of b a now] by (auto simp: ts earliest_def wakeup_of_def min_def)
    with False show ?thesis
      by (auto simp: clear_active_and_set_next_def ts Let_def armed_def timers_ok_def adjust_by_def
          earliest_def wakeup_of_def min_def expired_source_def slot_after_def
          split: if_splits source.splits)
  qed
qed

section \<open>Reachable timer states\<close>

text \<open>The two ways in which the list changes: some code sets a timer, and the hardware timer fires. The
  interrupt handler assumes that a slot is set.\<close>

inductive timer_step :: "timer_state \<Rightarrow> timer_state \<Rightarrow> bool" where
  set_timer: "create_timer_abs src w st = Some st' \<Longrightarrow> timer_step st st'"
| timer_fires: "\<lbrakk>earliest (timers st) \<noteq> u64_max; clear_active_and_set_next now st = Some st'\<rbrakk> \<Longrightarrow> timer_step st st'"

inductive_cases timer_stepE: "timer_step st st'"

inductive timer_reachable :: "timer_state \<Rightarrow> bool" where
  start: "timer_reachable \<lparr>timers = timer_list_new, oneshot = None, net_wakes = 0\<rparr>"
| step: "timer_reachable st \<Longrightarrow> timer_step st st' \<Longrightarrow> timer_reachable st'"

lemma timer_step_armed: "timer_step st st' \<Longrightarrow> armed st \<Longrightarrow> armed st'"
proof (erule timer_stepE)
  fix src w
  assume "armed st" and "create_timer_abs src w st = Some st'"
  with create_timer_abs_ok [of st src w] show "armed st'" by auto
next
  fix now
  assume "armed st" and "earliest (timers st) \<noteq> u64_max" and "clear_active_and_set_next now st = Some st'"
  with clear_active_ok [of st now] show "armed st'" by auto
qed

lemma timer_reachable_armed: "timer_reachable st \<Longrightarrow> armed st"
  by (induction rule: timer_reachable.induct) (auto simp: armed_new intro: timer_step_armed)

section \<open>Properties\<close>

text \<open>C25: In every state that the timer code can reach, the hardware timer is programmed for the earliest slot
  that is set; setting a timer does not panic, keeps the other source's slot and never moves a slot
  to a later time.\<close>

theorem setting_timer_keeps_hardware_armed:
  assumes "timer_reachable st"
  shows "\<exists>st'. create_timer_abs src w st = Some st' \<and> timer_reachable st' \<and>
    (earliest (timers st') \<noteq> u64_max \<longrightarrow> oneshot st' = Some (earliest (timers st'))) \<and>
    wakeup_of src (timers st') = min (wakeup_of src (timers st)) w \<and>
    (\<forall>src'. src' \<noteq> src \<longrightarrow> wakeup_of src' (timers st') = wakeup_of src' (timers st))"
proof -
  obtain st' where st': "create_timer_abs src w st = Some st'" "armed st'"
    "wakeup_of src (timers st') = min (wakeup_of src (timers st)) w"
    "\<forall>src'. src' \<noteq> src \<longrightarrow> wakeup_of src' (timers st') = wakeup_of src' (timers st)"
    using create_timer_abs_ok [OF timer_reachable_armed [OF assms]] by blast
  moreover have "timer_reachable st'"
    using timer_reachable.step [OF assms timer_step.set_timer [OF st'(1)]] .
  ultimately show ?thesis
    by (auto simp: armed_def)
qed

theorem setting_timer_witness:
  "\<exists>st'. create_timer_abs Network 500 \<lparr>timers = timer_list_new, oneshot = None, net_wakes = 0\<rparr> = Some st' \<and>
    timer_reachable st' \<and> wakeup_of Network (timers st') = 500"
  using setting_timer_keeps_hardware_armed [OF timer_reachable.start, of Network 500]
  by (auto simp: timer_list_new_def wakeup_of_def)

text \<open>The timer interrupt. In every reachable state with a slot set, the handler does not panic: it clears the
  earliest slot and notifies the network waiters when that slot is theirs. The other slot keeps its
  distance to the cleared one when the interrupt came early, without wrapping around, and the
  hardware timer is programmed for it, or stopped when it is not set.\<close>

theorem timer_interrupt_correct:
  assumes "timer_reachable st" and "earliest (timers st) \<noteq> u64_max"
  defines "prev \<equiv> earliest (timers st)" and "src \<equiv> expired_source (timers st)"
  shows "\<exists>st'. clear_active_and_set_next now st = Some st' \<and> timer_reachable st' \<and>
    oneshot st' = (if earliest (timers st') = u64_max then None else Some (earliest (timers st'))) \<and>
    wakeup_of src (timers st) = prev \<and> wakeup_of src (timers st') = u64_max \<and>
    net_wakes st' = (if src = Network then Suc (net_wakes st) else net_wakes st) \<and>
    (\<forall>src'. src' \<noteq> src \<and> wakeup_of src' (timers st) \<noteq> u64_max \<longrightarrow>
       unat (wakeup_of src' (timers st')) =
         (if now < prev then unat now + (unat (wakeup_of src' (timers st)) - unat prev)
          else unat (wakeup_of src' (timers st))))"
proof -
  have arm: "armed st" using timer_reachable_armed [OF assms(1)] .
  obtain st' where st': "clear_active_and_set_next now st = Some st'" "armed st'"
    "earliest (timers st') = u64_max \<longrightarrow> oneshot st' = None" "wakeup_of src (timers st') = u64_max"
    "\<forall>src'. src' \<noteq> src \<longrightarrow> wakeup_of src' (timers st') = slot_after now prev (wakeup_of src' (timers st))"
    "net_wakes st' = (if src = Network then Suc (net_wakes st) else net_wakes st)"
    using clear_active_ok [OF arm assms(2)] unfolding prev_def src_def by blast
  have "timer_reachable st'"
    using timer_reachable.step [OF assms(1) timer_step.timer_fires [OF assms(2) st'(1)]] .
  moreover have "wakeup_of src (timers st) = prev"
    by (simp add: src_def prev_def expired_source_def earliest_def min_def)
  moreover have "prev \<le> wakeup_of src' (timers st)" for src'
    by (cases src') (simp_all add: prev_def earliest_def)
  then have "unat (slot_after now prev (wakeup_of src' (timers st))) =
      (if now < prev then unat now + (unat (wakeup_of src' (timers st)) - unat prev)
       else unat (wakeup_of src' (timers st)))" if "wakeup_of src' (timers st) \<noteq> u64_max" for src'
    using that adjusted_slot(1) [of now prev "wakeup_of src' (timers st)"] by (simp add: slot_after_def)
  ultimately show ?thesis
    using st' by (auto simp: armed_def)
qed

theorem timer_interrupt_witness:
  "\<exists>st st'. create_timer_abs Scheduler 500 \<lparr>timers = timer_list_new, oneshot = None, net_wakes = 0\<rparr> = Some st \<and>
    clear_active_and_set_next 490 st = Some st' \<and> timer_reachable st'"
proof -
  let ?s0 = "\<lparr>timers = timer_list_new, oneshot = None, net_wakes = 0\<rparr>"
  let ?st = "\<lparr>timers = [\<lparr>slot_source = Network, slot_wakeup = u64_max\<rparr>, \<lparr>slot_source = Scheduler, slot_wakeup = 500\<rparr>],
    oneshot = Some 500, net_wakes = 0\<rparr>"
  have st: "create_timer_abs Scheduler 500 ?s0 = Some ?st"
    by (simp add: create_timer_abs_def slot_by_source_def timer_list_new_def Let_def word_le_nat_alt
        unsigned_minus_1_eq_mask mask_eq_exp_minus_1)
  have r: "timer_reachable ?st"
    using timer_reachable.step [OF timer_reachable.start timer_step.set_timer [OF st]] .
  have "earliest (timers ?st) \<noteq> u64_max"
    by (simp add: earliest_def wakeup_of_def)
  from timer_interrupt_correct [OF r this, of 490] st show ?thesis by blast
qed

end
