(* ===== verification/Blocked_Queue.thy ===== *)
theory Blocked_Queue
  imports Ready_Queue Timers "HOL-Library.Product_Lexorder"
begin

text \<open>
  \<open>BlockedTaskQueue\<close> of \<^verbatim>\<open>src/scheduler/task/mod.rs\<close>: the blocked tasks of a core,
  sorted by wake-up time with the tasks that have none at the end. Blocking a task and waking one
  program the core's timer, and waking follows the protocol of the scratch slots: a task whose
  frame is being copied out of its slot is only marked, and becomes ready when the copy is done.
\<close>

record blocked_task =
  bt_task :: tref
  bt_wakeup :: "u64 option"

definition mark_ready :: "core_id \<Rightarrow> task_store \<Rightarrow> tref \<Rightarrow> (bool \<times> task_store) option" where
  "mark_ready core h r = do {
     let t = h r;
     guard (t_core_id t = core);
     guard (t_status t = Blocked \<or> t_status t = Ready);
     if t_status t = Ready then Some (False, h)
     else (case t_frame_location t of
             BeingEvicted \<Rightarrow> Some (False, h(r := t\<lparr>t_wake_pending := True\<rparr>))
           | Evicted \<Rightarrow> Some (True, h(r := t\<lparr>t_status := Ready\<rparr>))
           | InSlot \<Rightarrow> Some (True, h(r := t\<lparr>t_status := Ready\<rparr>)))
   }"

text \<open>The cursor loop of \<open>add\<close>: before the first node that has no wake-up time or a later one.\<close>

fun insert_blocked :: "blocked_task \<Rightarrow> u64 \<Rightarrow> blocked_task list \<Rightarrow> blocked_task list" where
  "insert_blocked new_node wt [] = [new_node]"
| "insert_blocked new_node wt (node # list) =
     (if (case bt_wakeup node of None \<Rightarrow> True | Some t \<Rightarrow> wt < t)
      then new_node # node # list
      else node # insert_blocked new_node wt list)"

definition bq_add ::
    "task_store \<Rightarrow> blocked_task list \<Rightarrow> timer_state \<Rightarrow> tref \<Rightarrow> u64 option \<Rightarrow>
     (task_store \<times> blocked_task list \<times> timer_state) option" where
  "bq_add h list ts r wakeup_time = do {
     guard (t_status (h r) = Running);
     let h1 = h(r := (h r)\<lparr>t_status := Blocked\<rparr>);
     let new_node = \<lparr>bt_task = r, bt_wakeup = wakeup_time\<rparr>;
     (case wakeup_time of
        Some wt \<Rightarrow> do {
          ts1 \<leftarrow> create_timer_abs Scheduler wt ts;
          Some (h1, insert_blocked new_node wt list, ts1)
        }
      | None \<Rightarrow> Some (h1, list @ [new_node], ts))
   }"

definition bq_iter :: "blocked_task list \<Rightarrow> tref list" where
  "bq_iter list = map bt_task list"

text \<open>Setting the timer for the first task of the list, if that has a wake-up time.\<close>

definition rearm_front :: "blocked_task list \<Rightarrow> timer_state \<Rightarrow> timer_state option" where
  "rearm_front list ts =
     (case list of
        [] \<Rightarrow> Some ts
      | node # _ \<Rightarrow> (case bt_wakeup node of
                      None \<Rightarrow> Some ts
                    | Some wakeup \<Rightarrow> create_timer_abs Scheduler wakeup ts))"

text \<open>\<open>custom_wakeup\<close>: the node is taken out; when it was the first one the timer is set for its
  successor; a task that is not in the list is \<^verbatim>\<open>unreachable!\<close>.\<close>

definition bq_custom_wakeup ::
    "core_id \<Rightarrow> task_store \<Rightarrow> blocked_task list \<Rightarrow> timer_state \<Rightarrow> task_handle \<Rightarrow>
     (tref \<times> bool \<times> task_store \<times> blocked_task list \<times> timer_state) option" where
  "bq_custom_wakeup core h list ts handle = do {
     i \<leftarrow> position (\<lambda>node. t_id (h (bt_task node)) = handle_id handle) list;
     let r = bt_task (list ! i);
     let list1 = take i list @ drop (Suc i) list;
     ts1 \<leftarrow> (if i = 0 then rearm_front list1 ts else Some ts);
     (completed, h1) \<leftarrow> mark_ready core h r;
     Some (r, completed, h1, list1, ts1)
   }"

definition elapsed :: "u64 \<Rightarrow> blocked_task \<Rightarrow> bool" where
  "elapsed now node = (case bt_wakeup node of None \<Rightarrow> False | Some t \<Rightarrow> t < now)"

text \<open>The loop over the extracted nodes.\<close>

fun wake_nodes ::
    "core_id \<Rightarrow> task_store \<Rightarrow> blocked_task list \<Rightarrow> ready_queue \<Rightarrow> (task_store \<times> ready_queue) option" where
  "wake_nodes core h [] q = Some (h, q)"
| "wake_nodes core h (node # nodes) q = do {
     (completed, h1) \<leftarrow> mark_ready core h (bt_task node);
     q1 \<leftarrow> (if completed then rq_push h1 q (bt_task node) else Some q);
     wake_nodes core h1 nodes q1
   }"

definition bq_handle_waiting_tasks ::
    "core_id \<Rightarrow> u64 \<Rightarrow> task_store \<Rightarrow> blocked_task list \<Rightarrow> timer_state \<Rightarrow> ready_queue \<Rightarrow>
     (task_store \<times> blocked_task list \<times> timer_state \<times> ready_queue) option" where
  "bq_handle_waiting_tasks core now h list ts q = do {
     let newly_ready = filter (elapsed now) list;
     let list1 = filter (\<lambda>node. \<not> elapsed now node) list;
     (h1, q1) \<leftarrow> wake_nodes core h newly_ready q;
     ts1 \<leftarrow> rearm_front list1 ts;
     Some (h1, list1, ts1, q1)
   }"

definition LAST_TOUCH_THRESHOLD :: duration where
  "LAST_TOUCH_THRESHOLD = from_millis 10"

definition wake_key :: "u64 option \<Rightarrow> u64" where
  "wake_key w = (case w of Some t \<Rightarrow> u64_max - t | None \<Rightarrow> 0)"

definition eviction_candidate :: "task_store \<Rightarrow> blocked_task \<Rightarrow> bool" where
  "eviction_candidate h node \<longleftrightarrow>
     t_frame_location (h (bt_task node)) = InSlot \<and> t_slot (h (bt_task node)) \<noteq> None \<and>
     t_status (h (bt_task node)) = Blocked"

definition select_eviction_victim ::
    "u64 \<Rightarrow> task_store \<Rightarrow> blocked_task list \<Rightarrow> task_id \<Rightarrow> tref option option" where
  "select_eviction_victim now h list exclude_id = do {
     guard (list_all (\<lambda>node. t_id (h (bt_task node)) \<noteq> exclude_id) list);
     let candidates = sort_key (\<lambda>node. (wake_key (bt_wakeup node), t_last_touch (h (bt_task node))))
                        (filter (eviction_candidate h) list);
     Some (map_option bt_task
       (List.find (\<lambda>node. LAST_TOUCH_THRESHOLD \<le> from_micros now - t_last_touch (h (bt_task node)))
          candidates))
   }"

section \<open>The order of the list\<close>

definition wakeup_le :: "u64 option \<Rightarrow> u64 option \<Rightarrow> bool" where
  "wakeup_le a b = (case b of None \<Rightarrow> True | Some tb \<Rightarrow> (case a of None \<Rightarrow> False | Some ta \<Rightarrow> ta \<le> tb))"

lemma wakeup_le_simps [simp]:
  "wakeup_le a None" "wakeup_le None (Some t) \<longleftrightarrow> False" "wakeup_le (Some s) (Some t) \<longleftrightarrow> s \<le> t"
  by (simp_all add: wakeup_le_def)

lemma wakeup_le_trans: "wakeup_le a b \<Longrightarrow> wakeup_le b c \<Longrightarrow> wakeup_le a c"
  by (auto simp: wakeup_le_def split: option.splits)

abbreviation by_wakeup :: "blocked_task list \<Rightarrow> bool" where
  "by_wakeup \<equiv> sorted_wrt (\<lambda>a b. wakeup_le (bt_wakeup a) (bt_wakeup b))"

lemma set_insert_blocked [simp]: "set (insert_blocked n wt list) = insert n (set list)"
  by (induction list) auto

lemma distinct_insert_blocked:
  "distinct (map bt_task (insert_blocked n wt list)) \<longleftrightarrow>
    bt_task n \<notin> bt_task ` set list \<and> distinct (map bt_task list)"
  by (induction list) auto

lemma by_wakeup_insert:
  assumes "by_wakeup list" and "bt_wakeup n = Some wt"
  shows "by_wakeup (insert_blocked n wt list)"
  using assms(1)
proof (induction list)
  case Nil
  then show ?case by simp
next
  case (Cons m list)
  show ?case
  proof (cases "case bt_wakeup m of None \<Rightarrow> True | Some t \<Rightarrow> wt < t")
    case True
    then have "wakeup_le (bt_wakeup n) (bt_wakeup m)"
      using assms(2) by (auto split: option.splits)
    with True Cons.prems show ?thesis
      by (auto intro: wakeup_le_trans)
  next
    case False
    with Cons assms(2) show ?thesis
      by (auto split: option.splits)
  qed
qed

lemma by_wakeup_snoc: "by_wakeup list \<Longrightarrow> bt_wakeup n = None \<Longrightarrow> by_wakeup (list @ [n])"
  by (simp add: sorted_wrt_append)

text \<open>The scheduler's timer slot is not later than any deadline in the list.\<close>

definition timer_covers :: "blocked_task list \<Rightarrow> timer_state \<Rightarrow> bool" where
  "timer_covers list ts \<longleftrightarrow> armed ts \<and>
     (\<forall>node \<in> set list. \<forall>t. bt_wakeup node = Some t \<longrightarrow> wakeup_of Scheduler (timers ts) \<le> t)"

lemma timer_covers_create:
  assumes "timer_covers list ts"
  shows "\<exists>ts'. create_timer_abs Scheduler w ts = Some ts' \<and> timer_covers list ts' \<and>
    wakeup_of Scheduler (timers ts') \<le> w"
  using create_timer_abs_ok [of ts Scheduler w] assms
  by (fastforce simp: timer_covers_def min_le_iff_disj)

text \<open>In a sorted list the first deadline is the earliest one, so setting the timer for it covers
  the whole list.\<close>

lemma rearm_front_covers:
  assumes "armed ts" and "by_wakeup list"
  shows "\<exists>ts'. rearm_front list ts = Some ts' \<and> timer_covers list ts'"
proof (cases list)
  case Nil
  with assms(1) show ?thesis by (simp add: rearm_front_def timer_covers_def)
next
  case (Cons n ns)
  show ?thesis
  proof (cases "bt_wakeup n")
    case None
    then have "\<forall>m \<in> set list. bt_wakeup m = None"
      using assms(2) Cons by (auto simp: wakeup_le_def split: option.splits)
    with None Cons assms(1) show ?thesis
      by (simp add: rearm_front_def timer_covers_def)
  next
    case (Some w)
    obtain ts' where ts': "create_timer_abs Scheduler w ts = Some ts'" "armed ts'"
      "wakeup_of Scheduler (timers ts') = min (wakeup_of Scheduler (timers ts)) w"
      using create_timer_abs_ok [OF assms(1), of Scheduler w] by blast
    have "w \<le> t" if "m \<in> set list" "bt_wakeup m = Some t" for m t
      using assms(2) Cons Some that by auto
    with ts' Cons Some show ?thesis
      by (fastforce simp: rearm_front_def timer_covers_def min_le_iff_disj)
  qed
qed

section \<open>Invariant\<close>

text \<open>
  The list is sorted, holds every task once, and its tasks are blocked tasks of this core whose
  wake-up has not been asked for yet. Identifiers name the tasks of the list.
\<close>

definition bq_ok :: "core_id \<Rightarrow> task_store \<Rightarrow> blocked_task list \<Rightarrow> bool" where
  "bq_ok core h list \<longleftrightarrow> by_wakeup list \<and> distinct (map bt_task list) \<and>
     (\<forall>r \<in> bt_task ` set list. t_status (h r) = Blocked \<and> t_core_id (h r) = core \<and>
        \<not> t_wake_pending (h r) \<and> task_level h r < NO_PRIORITIES)"

definition ids_distinct :: "task_store \<Rightarrow> blocked_task list \<Rightarrow> bool" where
  "ids_distinct h list \<longleftrightarrow> inj_on (\<lambda>r. t_id (h r)) (bt_task ` set list)"

lemma bq_ok_Nil: "bq_ok core h []"
  by (simp add: bq_ok_def)

lemma bq_ok_filter: "bq_ok core h list \<Longrightarrow> bq_ok core h (filter P list)"
  by (auto simp: bq_ok_def sorted_wrt_filter distinct_map_filter)

text \<open>The invariant only reads the control blocks of the listed tasks.\<close>

lemma bq_ok_cong:
  assumes "bq_ok core h list" and "\<forall>r \<in> bt_task ` set list. h' r = h r"
  shows "bq_ok core h' list"
  using assms by (auto simp: bq_ok_def)

lemma mark_ready_blocked:
  assumes "t_core_id (h r) = core" and "t_status (h r) = Blocked"
    and "t_frame_location (h r) \<noteq> BeingEvicted"
  shows "mark_ready core h r = Some (True, h(r := (h r)\<lparr>t_status := Ready\<rparr>))"
  using assms by (cases "t_frame_location (h r)") (simp_all add: mark_ready_def Let_def)

lemma bq_add_ok:
  assumes ok: "bq_ok core h list" and cov: "timer_covers list ts"
    and r: "t_status (h r) = Running" "t_core_id (h r) = core" "\<not> t_wake_pending (h r)"
      "task_level h r < NO_PRIORITIES"
  shows "\<exists>list' ts'. bq_add h list ts r w = Some (h(r := (h r)\<lparr>t_status := Blocked\<rparr>), list', ts') \<and>
    bq_ok core (h(r := (h r)\<lparr>t_status := Blocked\<rparr>)) list' \<and> timer_covers list' ts' \<and>
    set list' = insert \<lparr>bt_task = r, bt_wakeup = w\<rparr> (set list)"
proof -
  let ?h = "h(r := (h r)\<lparr>t_status := Blocked\<rparr>)"
  let ?n = "\<lparr>bt_task = r, bt_wakeup = w\<rparr>"
  have new: "r \<notin> bt_task ` set list"
    using ok r(1) by (auto simp: bq_ok_def)
  show ?thesis
  proof (cases w)
    case None
    have "bq_ok core ?h (list @ [?n])"
      using ok new r None by_wakeup_snoc [of list ?n]
      by (auto simp: bq_ok_def)
    moreover have "timer_covers (list @ [?n]) ts"
      using cov None by (auto simp: timer_covers_def)
    ultimately show ?thesis
      using None r(1) by (auto simp: bq_add_def Let_def)
  next
    case (Some wt)
    obtain ts' where ts': "create_timer_abs Scheduler wt ts = Some ts'" "timer_covers list ts'"
      "wakeup_of Scheduler (timers ts') \<le> wt"
      using timer_covers_create [OF cov, of wt] by blast
    have "bq_ok core ?h (insert_blocked ?n wt list)"
      using ok new r Some by_wakeup_insert [of list ?n wt]
      by (auto simp: bq_ok_def distinct_insert_blocked)
    moreover have "timer_covers (insert_blocked ?n wt list) ts'"
      using ts' Some by (auto simp: timer_covers_def)
    ultimately show ?thesis
      using Some r(1) ts'(1) by (auto simp: bq_add_def Let_def)
  qed
qed

lemma timer_covers_subset: "timer_covers list ts \<Longrightarrow> set list' \<subseteq> set list \<Longrightarrow> timer_covers list' ts"
  by (auto simp: timer_covers_def)

text \<open>Waking a task by its handle: it leaves the list and becomes ready.\<close>

lemma bq_custom_wakeup_ok:
  assumes ok: "bq_ok core h list" and ids: "ids_distinct h list" and cov: "timer_covers list ts"
    and node: "node \<in> set list" and hd: "handle_id handle = t_id (h (bt_task node))"
    and loc: "t_frame_location (h (bt_task node)) \<noteq> BeingEvicted"
  defines "r \<equiv> bt_task node"
  shows "\<exists>list' ts'. bq_custom_wakeup core h list ts handle =
      Some (r, True, h(r := (h r)\<lparr>t_status := Ready\<rparr>), list', ts') \<and>
    set list' = set list - {node} \<and> distinct (map bt_task list') \<and>
    bq_ok core (h(r := (h r)\<lparr>t_status := Ready\<rparr>)) list' \<and> timer_covers list' ts'"
proof -
  let ?P = "\<lambda>n. t_id (h (bt_task n)) = handle_id handle"
  obtain i where i: "position ?P list = Some i"
    using node hd position_None [of ?P list] by (cases "position ?P list") auto
  note pos = position_Some [OF i]
  have "bt_task (list ! i) = r"
    using pos ids node hd by (auto simp: ids_distinct_def inj_on_def r_def)
  moreover have dist: "distinct (map bt_task list)"
    using ok by (simp add: bq_ok_def)
  ultimately have at: "list ! i = node"
    using pos node by (auto simp: r_def distinct_map dest: inj_onD)
  obtain xs ys where xs: "take i list = xs" and ys: "drop (Suc i) list = ys" by blast
  have dec: "list = xs @ node # ys"
    using pos at id_take_nth_drop [of i list] xs ys by simp
  let ?l = "xs @ ys"
  have set': "set ?l = set list - {node}" and notin: "r \<notin> bt_task ` set ?l"
    using dist by (auto simp: dec r_def)
  have "by_wakeup (xs @ node # ys)"
    using ok by (simp add: bq_ok_def dec)
  then have sorted: "by_wakeup ?l"
    by (auto simp: sorted_wrt_append)
  have "bq_ok core h ?l"
    using ok sorted by (auto simp: bq_ok_def dec)
  then have ok': "bq_ok core (h(r := (h r)\<lparr>t_status := Ready\<rparr>)) ?l"
    by (rule bq_ok_cong) (use notin in auto)
  have sub: "timer_covers ?l ts"
    using cov by (rule timer_covers_subset) (auto simp: dec)
  obtain ts' where ts': "(if i = 0 then rearm_front ?l ts else Some ts) = Some ts'" "timer_covers ?l ts'"
    using sub rearm_front_covers [of ts ?l] sorted by (cases "i = 0") (auto simp: timer_covers_def)
  have "mark_ready core h r = Some (True, h(r := (h r)\<lparr>t_status := Ready\<rparr>))"
    using ok node loc by (intro mark_ready_blocked) (auto simp: bq_ok_def r_def)
  then have "bq_custom_wakeup core h list ts handle =
      Some (r, True, h(r := (h r)\<lparr>t_status := Ready\<rparr>), ?l, ts')"
    using i at ts'(1) xs ys by (cases "i = 0") (auto simp: bq_custom_wakeup_def r_def Let_def)
  moreover have "distinct (map bt_task ?l)"
    using dist by (simp add: dec)
  ultimately show ?thesis
    using ok' set' ts'(2) by blast
qed

lemma bq_custom_wakeup_missing:
  "\<forall>node \<in> set list. t_id (h (bt_task node)) \<noteq> handle_id handle \<Longrightarrow>
    bq_custom_wakeup core h list ts handle = None"
  using position_None [of "\<lambda>node. t_id (h (bt_task node)) = handle_id handle" list]
  by (simp add: bq_custom_wakeup_def)

text \<open>The store after a set of tasks became ready.\<close>

definition ready_all :: "task_store \<Rightarrow> tref set \<Rightarrow> task_store" where
  "ready_all h R = (\<lambda>r. if r \<in> R then (h r)\<lparr>t_status := Ready\<rparr> else h r)"

lemma ready_all_prio [simp]: "t_prio (ready_all h R r) = t_prio (h r)"
  by (simp add: ready_all_def)

lemma wake_nodes_ok:
  assumes "rq_ok h q" and "distinct (map bt_task nodes)"
    and "\<forall>r \<in> bt_task ` set nodes. t_status (h r) = Blocked \<and> t_core_id (h r) = core \<and>
      t_frame_location (h r) \<noteq> BeingEvicted \<and> task_level h r < NO_PRIORITIES"
  shows "\<exists>q'. wake_nodes core h nodes q = Some (ready_all h (bt_task ` set nodes), q') \<and>
    rq_ok (ready_all h (bt_task ` set nodes)) q' \<and>
    rq_order q' = fold (insert_prio (task_level h)) (map bt_task nodes) (rq_order q)"
  using assms
proof (induction nodes arbitrary: h q)
  case Nil
  then show ?case by (simp add: ready_all_def)
next
  case (Cons n ns)
  let ?r = "bt_task n"
  let ?h = "h(?r := (h ?r)\<lparr>t_status := Ready\<rparr>)"
  have m: "mark_ready core h ?r = Some (True, ?h)"
    using Cons.prems(3) by (intro mark_ready_blocked) auto
  have "rq_ok ?h q"
    using Cons.prems(1) by (rule rq_ok_cong) simp
  then obtain q1 where q1: "rq_push ?h q ?r = Some q1" "rq_ok ?h q1"
    "rq_order q1 = insert_prio (task_level ?h) ?r (rq_order q)"
    using rq_push_ok [of ?h q ?r] Cons.prems(3) by auto
  have lvl: "task_level ?h = task_level h"
    by auto
  have notin: "?r \<notin> bt_task ` set ns" and d: "distinct (map bt_task ns)"
    using Cons.prems(2) by simp_all
  have "\<forall>r \<in> bt_task ` set ns. t_status (?h r) = Blocked \<and> t_core_id (?h r) = core \<and>
      t_frame_location (?h r) \<noteq> BeingEvicted \<and> task_level ?h r < NO_PRIORITIES"
  proof
    fix r assume r: "r \<in> bt_task ` set ns"
    with notin have "r \<noteq> ?r" by blast
    then have "?h r = h r" by simp
    with Cons.prems(3) r show "t_status (?h r) = Blocked \<and> t_core_id (?h r) = core \<and>
      t_frame_location (?h r) \<noteq> BeingEvicted \<and> task_level ?h r < NO_PRIORITIES"
      by auto
  qed
  then obtain q' where q': "wake_nodes core ?h ns q1 = Some (ready_all ?h (bt_task ` set ns), q')"
    "rq_ok (ready_all ?h (bt_task ` set ns)) q'"
    "rq_order q' = fold (insert_prio (task_level ?h)) (map bt_task ns) (rq_order q1)"
    using Cons.IH [OF q1(2) d] by blast
  have "ready_all ?h (bt_task ` set ns) = ready_all h (bt_task ` set (n # ns))"
    using notin by (auto simp: ready_all_def)
  with m q1 q' lvl show ?case by simp
qed

text \<open>
  The timer handler of the scheduler wakes exactly the tasks whose time has passed, in the order
  of their deadlines, keeps the others, and leaves the timer covering them.
\<close>

lemma bq_handle_waiting_tasks_ok:
  fixes now :: u64
  assumes ok: "bq_ok core h list" and arm: "armed ts" and rq: "rq_ok h q"
    and loc: "\<forall>r \<in> bt_task ` set list. t_frame_location (h r) \<noteq> BeingEvicted"
  defines "woken \<equiv> filter (elapsed now) list"
  defines "h' \<equiv> ready_all h (bt_task ` set woken)"
  shows "\<exists>list' ts' q'. bq_handle_waiting_tasks core now h list ts q = Some (h', list', ts', q') \<and>
    list' = filter (\<lambda>n. \<not> elapsed now n) list \<and> bq_ok core h' list' \<and> timer_covers list' ts' \<and>
    rq_ok h' q' \<and> rq_order q' = fold (insert_prio (task_level h)) (map bt_task woken) (rq_order q)"
proof -
  let ?l = "filter (\<lambda>n. \<not> elapsed now n) list"
  have dist: "distinct (map bt_task list)"
    using ok by (simp add: bq_ok_def)
  have "distinct (map bt_task woken)"
    using dist by (simp add: woken_def distinct_map_filter)
  moreover have "\<forall>r \<in> bt_task ` set woken. t_status (h r) = Blocked \<and> t_core_id (h r) = core \<and>
      t_frame_location (h r) \<noteq> BeingEvicted \<and> task_level h r < NO_PRIORITIES"
    using ok loc by (auto simp: bq_ok_def woken_def)
  ultimately obtain q' where q': "wake_nodes core h woken q = Some (h', q')" "rq_ok h' q'"
    "rq_order q' = fold (insert_prio (task_level h)) (map bt_task woken) (rq_order q)"
    using wake_nodes_ok [OF rq] unfolding h'_def by blast
  have "bt_task ` set ?l \<inter> bt_task ` set woken = {}"
    using dist by (auto simp: woken_def distinct_map dest: inj_onD)
  then have "bq_ok core h' ?l"
    by (intro bq_ok_cong [OF bq_ok_filter [OF ok]]) (auto simp: h'_def ready_all_def)
  moreover obtain ts' where "rearm_front ?l ts = Some ts'" "timer_covers ?l ts'"
    using rearm_front_covers [OF arm, of ?l] ok by (auto simp: bq_ok_def sorted_wrt_filter)
  ultimately show ?thesis
    using q' by (simp add: bq_handle_waiting_tasks_def woken_def Let_def)
qed

section \<open>Choosing a task to evict\<close>

text \<open>A chosen victim is a blocked task of the list with a slot, not the excluded task, and was
  not dispatched within the last ten milliseconds; and no other such task has a later deadline.\<close>

lemma select_eviction_victim_Some:
  assumes "select_eviction_victim now h list exclude_id = Some (Some r)"
  shows "\<exists>node \<in> set list. bt_task node = r \<and> eviction_candidate h node \<and> t_id (h r) \<noteq> exclude_id \<and>
    LAST_TOUCH_THRESHOLD \<le> from_micros now - t_last_touch (h r) \<and>
    (\<forall>m \<in> set list. eviction_candidate h m \<and>
        LAST_TOUCH_THRESHOLD \<le> from_micros now - t_last_touch (h (bt_task m)) \<longrightarrow>
        (wake_key (bt_wakeup node), t_last_touch (h r)) \<le>
        (wake_key (bt_wakeup m), t_last_touch (h (bt_task m))))"
proof -
  let ?key = "\<lambda>node. (wake_key (bt_wakeup node), t_last_touch (h (bt_task node)))"
  let ?old = "\<lambda>node. LAST_TOUCH_THRESHOLD \<le> from_micros now - t_last_touch (h (bt_task node))"
  let ?cs = "sort_key ?key (filter (eviction_candidate h) list)"
  from assms have ex: "\<forall>node \<in> set list. t_id (h (bt_task node)) \<noteq> exclude_id"
    by (auto simp: select_eviction_victim_def list_all_iff)
  from assms obtain node where find: "List.find ?old ?cs = Some node" and r: "bt_task node = r"
    by (auto simp: select_eviction_victim_def Let_def)
  then obtain i where i: "i < length ?cs" "?old (?cs ! i)" "?cs ! i = node" "\<forall>j < i. \<not> ?old (?cs ! j)"
    by (auto simp: find_Some_iff)
  have "?key node \<le> ?key m" if m: "m \<in> set list" "eviction_candidate h m" "?old m" for m
  proof -
    have "m \<in> set ?cs" using m by simp
    then obtain j where j: "j < length ?cs" "?cs ! j = m"
      unfolding in_set_conv_nth by blast
    with i m have "i \<le> j" by (meson not_le)
    moreover have "sorted (map ?key ?cs)" by simp
    ultimately have "map ?key ?cs ! i \<le> map ?key ?cs ! j"
      using j(1) by (intro sorted_nth_mono) auto
    with i j show ?thesis by simp
  qed
  moreover have "node \<in> set ?cs"
    using i(1,3) nth_mem by blast
  ultimately show ?thesis
    using r i ex by auto
qed

lemma select_eviction_victim_None:
  assumes "select_eviction_victim now h list exclude_id = Some None"
  shows "\<forall>m \<in> set list. eviction_candidate h m \<longrightarrow>
    from_micros now - t_last_touch (h (bt_task m)) < LAST_TOUCH_THRESHOLD"
  using assms by (auto simp: select_eviction_victim_def find_None_iff)

section \<open>Properties\<close>

text \<open>One blocked task with a deadline, and the timer set for it.\<close>

definition demo_blocked_task :: "nat \<Rightarrow> task" where
  "demo_blocked_task r = (plain_task NORMAL_PRIO r)\<lparr>t_status := Blocked, t_slot := Some r\<rparr>"

definition demo_blocked :: "blocked_task list" where
  "demo_blocked = [\<lparr>bt_task = 1, bt_wakeup = Some 500\<rparr>]"

definition demo_timer :: timer_state where
  "demo_timer = \<lparr>timers = [\<lparr>slot_source = Network, slot_wakeup = u64_max\<rparr>, \<lparr>slot_source = Scheduler, slot_wakeup = 500\<rparr>],
     oneshot = Some 500, net_wakes = 0\<rparr>"

lemma demo_blocked_ok: "bq_ok 0 demo_blocked_task demo_blocked"
  by (simp add: bq_ok_def demo_blocked_def demo_blocked_task_def)

lemma demo_timer_covers: "timer_covers demo_blocked demo_timer"
  by (simp add: timer_covers_def demo_blocked_def demo_timer_def armed_def timers_ok_def earliest_def wakeup_of_def)

text \<open>Blocking. A running task that blocks, with a deadline or without one, is put into the list at the
  place of its deadline: the list stays sorted, every task is in it once, and the hardware timer is
  programmed so that no deadline of the list is missed.\<close>

theorem block_task_correct:
  assumes "bq_ok core h list" and "timer_covers list ts" and "t_status (h r) = Running"
    and "t_core_id (h r) = core" and "\<not> t_wake_pending (h r)" and "task_level h r < NO_PRIORITIES"
  shows "\<exists>list' ts'. bq_add h list ts r w = Some (h(r := (h r)\<lparr>t_status := Blocked\<rparr>), list', ts') \<and>
    bq_ok core (h(r := (h r)\<lparr>t_status := Blocked\<rparr>)) list' \<and> timer_covers list' ts' \<and>
    set list' = insert \<lparr>bt_task = r, bt_wakeup = w\<rparr> (set list)"
  using bq_add_ok [OF assms] .

theorem block_task_witness:
  "\<exists>h' list' ts'. bq_add (demo_blocked_task(2 := (demo_blocked_task 2)\<lparr>t_status := Running\<rparr>)) demo_blocked demo_timer 2
      (Some 300) = Some (h', list', ts') \<and> timer_covers list' ts'"
proof -
  let ?h = "demo_blocked_task(2 := (demo_blocked_task 2)\<lparr>t_status := Running\<rparr>)"
  have "bq_ok 0 ?h demo_blocked"
    by (rule bq_ok_cong [OF demo_blocked_ok]) (simp add: demo_blocked_def)
  from block_task_correct [OF this demo_timer_covers, of 2 "Some 300"] show ?thesis
    by (auto simp: demo_blocked_task_def)
qed

text \<open>Deadlines. When the scheduler runs at time \<open>now\<close>, exactly the tasks whose deadline has passed leave the
  list; they become ready and enter the ready queue in the order of their deadlines, behind the tasks
  of the same priority. The others stay, and the timer again covers every deadline that is left.\<close>

theorem expired_tasks_become_ready:
  fixes now :: u64
  assumes "bq_ok core h list" and "armed ts" and "rq_ok h q"
    and "\<forall>r \<in> bt_task ` set list. t_frame_location (h r) \<noteq> BeingEvicted"
  shows "\<exists>h' list' ts' q'. bq_handle_waiting_tasks core now h list ts q = Some (h', list', ts', q') \<and>
    list' = filter (\<lambda>n. \<not> elapsed now n) list \<and> bq_ok core h' list' \<and> timer_covers list' ts' \<and> rq_ok h' q' \<and>
    (\<forall>r. t_status (h' r) = (if r \<in> bt_task ` set (filter (elapsed now) list) then Ready else t_status (h r))) \<and>
    rq_order q' = fold (insert_prio (task_level h)) (map bt_task (filter (elapsed now) list)) (rq_order q)"
proof -
  let ?h = "ready_all h (bt_task ` set (filter (elapsed now) list))"
  have "t_status (?h r) = (if r \<in> bt_task ` set (filter (elapsed now) list) then Ready else t_status (h r))" for r
    by (simp add: ready_all_def)
  with bq_handle_waiting_tasks_ok [OF assms, of now] show ?thesis by blast
qed

theorem expired_tasks_become_ready_witness:
  "\<exists>h' list' ts' q'. bq_handle_waiting_tasks 0 501 demo_blocked_task demo_blocked demo_timer rq_new =
     Some (h', list', ts', q') \<and> list' = [] \<and> rq_order q' = [1]"
  using expired_tasks_become_ready [OF demo_blocked_ok _ rq_ok_new, of demo_timer 501] demo_timer_covers
  by (auto simp: demo_blocked_def demo_blocked_task_def timer_covers_def elapsed_def insert_prio_Nil)

text \<open>Waking a blocked task by its handle takes exactly this task out of the list and makes it ready, and the
  timer covers the deadlines that are left. A handle of a task that is not in the list panics.\<close>

theorem wakeup_by_handle:
  assumes "bq_ok core h list" and "ids_distinct h list" and "timer_covers list ts"
    and "\<forall>r \<in> bt_task ` set list. t_frame_location (h r) \<noteq> BeingEvicted"
  shows "case List.find (\<lambda>n. t_id (h (bt_task n)) = handle_id handle) list of
      None \<Rightarrow> bq_custom_wakeup core h list ts handle = None
    | Some node \<Rightarrow> \<exists>h' list' ts'. bq_custom_wakeup core h list ts handle = Some (bt_task node, True, h', list', ts') \<and>
        h' = h(bt_task node := (h (bt_task node))\<lparr>t_status := Ready\<rparr>) \<and>
        set list' = set list - {node} \<and> bq_ok core h' list' \<and> timer_covers list' ts'"
proof (cases "List.find (\<lambda>n. t_id (h (bt_task n)) = handle_id handle) list")
  case None
  then have "\<forall>node \<in> set list. t_id (h (bt_task node)) \<noteq> handle_id handle"
    by (auto simp: find_None_iff)
  with None show ?thesis
    by (simp add: bq_custom_wakeup_missing)
next
  case (Some node)
  then have "node \<in> set list" and "handle_id handle = t_id (h (bt_task node))"
    by (auto simp: find_Some_iff)
  with Some bq_custom_wakeup_ok [OF assms(1-3), of node handle] assms(4) show ?thesis
    by auto
qed

theorem wakeup_by_handle_witness:
  "\<exists>h' list' ts'. bq_custom_wakeup 0 demo_blocked_task demo_blocked demo_timer (task_handle_of (demo_blocked_task 1)) =
     Some (1, True, h', list', ts') \<and> t_status (h' 1) = Ready \<and> set list' = {}"
  using wakeup_by_handle [OF demo_blocked_ok _ demo_timer_covers, of "task_handle_of (demo_blocked_task 1)"]
  by (auto simp: demo_blocked_def demo_blocked_task_def ids_distinct_def task_handle_of_def)

text \<open>The choice of the task to evict. The victim is a blocked task of the list with its frame in a slot, it was
  not touched for 10 ms, and among such tasks it comes first in the order by latest deadline (tasks
  without a deadline first) and then by the longest time since the last touch. There is no victim
  only when no such task is in the list.\<close>

theorem eviction_victim_is_best:
  assumes "\<forall>node \<in> set list. t_id (h (bt_task node)) \<noteq> exclude_id"
  shows "case select_eviction_victim now h list exclude_id of
      None \<Rightarrow> False
    | Some None \<Rightarrow> \<forall>m \<in> set list. eviction_candidate h m \<longrightarrow>
        from_micros now - t_last_touch (h (bt_task m)) < LAST_TOUCH_THRESHOLD
    | Some (Some r) \<Rightarrow> \<exists>node \<in> set list. bt_task node = r \<and> eviction_candidate h node \<and>
        LAST_TOUCH_THRESHOLD \<le> from_micros now - t_last_touch (h r) \<and>
        (\<forall>m \<in> set list. eviction_candidate h m \<and>
           LAST_TOUCH_THRESHOLD \<le> from_micros now - t_last_touch (h (bt_task m)) \<longrightarrow>
           (wake_key (bt_wakeup node), t_last_touch (h r)) \<le>
           (wake_key (bt_wakeup m), t_last_touch (h (bt_task m))))"
proof -
  have g: "list_all (\<lambda>node. t_id (h (bt_task node)) \<noteq> exclude_id) list"
    using assms by (simp add: list_all_iff)
  show ?thesis
  proof (cases "select_eviction_victim now h list exclude_id")
    case None
    with g show ?thesis by (simp add: select_eviction_victim_def)
  next
    case (Some v)
    show ?thesis
    proof (cases v)
      case None
      with \<open>select_eviction_victim now h list exclude_id = Some v\<close> select_eviction_victim_None
      show ?thesis by simp
    next
      case (Some r)
      with \<open>select_eviction_victim now h list exclude_id = Some v\<close>
      have run: "select_eviction_victim now h list exclude_id = Some (Some r)" by simp
      show ?thesis
        unfolding run option.case using select_eviction_victim_Some [OF run] by blast
    qed
  qed
qed

theorem eviction_victim_witness:
  "select_eviction_victim 20000 demo_blocked_task demo_blocked (TaskId 9) = Some (Some 1)"
  using eviction_victim_is_best [of demo_blocked demo_blocked_task "TaskId 9" 20000]
  by (auto simp: demo_blocked_def demo_blocked_task_def eviction_candidate_def LAST_TOUCH_THRESHOLD_def
      from_millis_def from_micros_def split: option.splits)

end
