(* ===== verification/Slot_Pool.thy ===== *)
theory Slot_Pool
  imports Blocked_Queue
begin

text \<open>
  The pool of exception scratch slots of \<^verbatim>\<open>src/arch/aarch64/kernel/slot_pool.rs\<close>: three
  slots per core, each with the identifier of the task that owns it (\<open>-1\<close> when free). A slot holds
  the saved register frame of its task, 36 words below the top of the slot. Dispatching a task
  takes a free slot and copies the task's frame into it; evicting a blocked task gives its slot back.

  Memory is a map from addresses to 64-bit words. The address of the first slot is a symbol of the
  linker script; it is the argument \<open>base\<close>.
\<close>

type_synonym memory = "u64 \<Rightarrow> u64"

section \<open>Constants\<close>

definition STATE_SIZE :: u64 where
  "STATE_SIZE = 288"

definition EXCEPTION_SLOT_SIZE :: u64 where
  "EXCEPTION_SLOT_SIZE = 0x10000"

definition EXCEPTION_SLOT_GUARD :: u64 where
  "EXCEPTION_SLOT_GUARD = 4096"

definition SLOT_STRIDE :: u64 where
  "SLOT_STRIDE = EXCEPTION_SLOT_SIZE + EXCEPTION_SLOT_GUARD"

definition SLOTS_PER_CORE :: nat where
  "SLOTS_PER_CORE = 3"

definition CORE_SLOTS_LEN :: nat where
  "CORE_SLOTS_LEN = 4"

lemma slot_constants [simp]:
  "STATE_SIZE = 288" "EXCEPTION_SLOT_SIZE = 0x10000" "SLOT_STRIDE = 0x11000"
  "SLOTS_PER_CORE = 3" "CORE_SLOTS_LEN = 4"
  by (simp_all add: STATE_SIZE_def EXCEPTION_SLOT_SIZE_def SLOT_STRIDE_def EXCEPTION_SLOT_GUARD_def
      SLOTS_PER_CORE_def CORE_SLOTS_LEN_def)

section \<open>Operations\<close>

definition slot_top :: "u64 \<Rightarrow> core_id \<Rightarrow> nat \<Rightarrow> u64" where
  "slot_top base core i =
     base + ucast core * of_nat SLOTS_PER_CORE * SLOT_STRIDE + of_nat i * SLOT_STRIDE + EXCEPTION_SLOT_SIZE"

text \<open>The owners of the slots of all cores.\<close>

type_synonym slot_owners = "int list"
type_synonym slot_pool = "slot_owners list"

definition core_slots_init :: slot_pool where
  "core_slots_init = replicate CORE_SLOTS_LEN (replicate SLOTS_PER_CORE (- 1))"

definition owners_for_core :: "slot_pool \<Rightarrow> core_id \<Rightarrow> slot_owners option" where
  "owners_for_core pool core =
     (if unat core < CORE_SLOTS_LEN then Some (pool ! unat core) else None)"

text \<open>\<open>acquire\<close>: the compare-and-exchange of the first free slot from \<open>-1\<close> to the sentinel
  \<^verbatim>\<open>i32::MAX\<close>; no slot is the source's \<open>-1\<close>.\<close>

definition slot_acquire :: "slot_owners \<Rightarrow> (nat \<times> slot_owners) option" where
  "slot_acquire ow =
     (case position (\<lambda>x. x = - 1) ow of
        None \<Rightarrow> None
      | Some i \<Rightarrow> Some (i, ow[i := i32_max]))"

definition slot_release :: "nat \<Rightarrow> slot_owners \<Rightarrow> slot_owners option" where
  "slot_release i ow = (if i < length ow then Some (ow[i := - 1]) else None)"

definition slot_set_owner :: "nat \<Rightarrow> int \<Rightarrow> slot_owners \<Rightarrow> slot_owners" where
  "slot_set_owner i owner ow = ow[i := owner]"

text \<open>The word-by-word copy of a frame.\<close>

fun copy_words :: "nat \<Rightarrow> u64 \<Rightarrow> u64 \<Rightarrow> memory \<Rightarrow> memory" where
  "copy_words 0 src dst m = m"
| "copy_words (Suc n) src dst m =
     (let m1 = copy_words n src dst m
      in m1(dst + 8 * of_nat n := m1 (src + 8 * of_nat n)))"

definition STATE_WORDS :: nat where
  "STATE_WORDS = 36"

lemma STATE_WORDS_eq [simp]: "STATE_WORDS = 36"
  by (simp add: STATE_WORDS_def)

definition dispatch_acquire_slot ::
    "u64 \<Rightarrow> core_id \<Rightarrow> slot_pool \<Rightarrow> memory \<Rightarrow> task \<Rightarrow> (bool \<times> slot_pool \<times> memory \<times> task) option" where
  "dispatch_acquire_slot base core pool m t = do {
     ow \<leftarrow> owners_for_core pool core;
     (case slot_acquire ow of
        None \<Rightarrow> Some (False, pool, m, t)
      | Some (idx, ow1) \<Rightarrow> do {
          let top = slot_top base core idx;
          let frame_base = top - STATE_SIZE;
          let m1 = copy_words STATE_WORDS (t_last_stack_pointer t) frame_base m;
          let t1 = t\<lparr>t_last_stack_pointer := frame_base, t_slot := Some idx,
                     t_frame_location := InSlot, t_wake_pending := False\<rparr>;
          Some (True, pool[unat core := slot_set_owner idx (tid_into (t_id t)) ow1], m1, t1)
        })
   }"

definition release_slot :: "core_id \<Rightarrow> slot_pool \<Rightarrow> task \<Rightarrow> slot_pool option" where
  "release_slot core pool t =
     (case t_slot t of
        None \<Rightarrow> Some pool
      | Some slot \<Rightarrow> do {
          guard (slot < SLOTS_PER_CORE);
          guard (t_frame_location t = InSlot);
          ow \<leftarrow> owners_for_core pool core;
          ow1 \<leftarrow> slot_release slot ow;
          Some (pool[unat core := ow1])
        })"

text \<open>
  \<open>evict_victim\<close> in its two phases: the claim, after which a concurrent wake-up is deferred, and the
  copy with the release of the slot. The result is whether a wake-up was deferred in between.
\<close>

definition evict_claim :: "task \<Rightarrow> task option" where
  "evict_claim victim = do {
     guard (t_frame_location victim = InSlot);
     guard (t_slot victim \<noteq> None);
     Some (victim\<lparr>t_frame_location := BeingEvicted\<rparr>)
   }"

definition evict_finish ::
    "u64 \<Rightarrow> core_id \<Rightarrow> slot_pool \<Rightarrow> memory \<Rightarrow> task \<Rightarrow> nat \<Rightarrow> (bool \<times> slot_pool \<times> memory \<times> task) option" where
  "evict_finish base core pool m victim slot_idx = do {
     let top = slot_top base core slot_idx;
     let frame_base = top - STATE_SIZE;
     let m1 = copy_words STATE_WORDS frame_base (t_last_stack_pointer victim) m;
     let v1 = victim\<lparr>t_frame_location := Evicted, t_slot := None\<rparr>;
     ow \<leftarrow> owners_for_core pool core;
     ow1 \<leftarrow> slot_release slot_idx ow;
     Some (t_wake_pending v1, pool[unat core := ow1], m1, v1\<lparr>t_wake_pending := False\<rparr>)
   }"

definition evict_victim ::
    "u64 \<Rightarrow> core_id \<Rightarrow> slot_pool \<Rightarrow> memory \<Rightarrow> task \<Rightarrow> nat \<Rightarrow> (bool \<times> slot_pool \<times> memory \<times> task) option" where
  "evict_victim base core pool m victim slot_idx = do {
     v1 \<leftarrow> evict_claim victim;
     evict_finish base core pool m v1 slot_idx
   }"

definition resume_from_evicted ::
    "u64 \<Rightarrow> core_id \<Rightarrow> slot_pool \<Rightarrow> memory \<Rightarrow> task \<Rightarrow> (bool \<times> slot_pool \<times> memory \<times> task) option" where
  "resume_from_evicted base core pool m t = do {
     guard (t_frame_location t = Evicted);
     ow \<leftarrow> owners_for_core pool core;
     (case slot_acquire ow of
        None \<Rightarrow> Some (False, pool, m, t)
      | Some (idx, ow1) \<Rightarrow> do {
          let top = slot_top base core idx;
          let frame_base = top - STATE_SIZE;
          let m1 = copy_words STATE_WORDS (t_last_stack_pointer t) frame_base m;
          let t1 = t\<lparr>t_last_stack_pointer := frame_base, t_slot := Some idx,
                     t_frame_location := InSlot, t_wake_pending := False\<rparr>;
          Some (True, pool[unat core := slot_set_owner idx (tid_into (t_id t)) ow1], m1, t1)
        })
   }"

section \<open>Frames in memory\<close>

definition frame_at :: "memory \<Rightarrow> u64 \<Rightarrow> u64 list" where
  "frame_at m a = map (\<lambda>w. m (a + 8 * of_nat w)) [0..<STATE_WORDS]"

definition frames_disjoint :: "u64 \<Rightarrow> u64 \<Rightarrow> bool" where
  "frames_disjoint a b \<longleftrightarrow>
     (\<forall>i < STATE_WORDS. \<forall>j < STATE_WORDS. a + 8 * of_nat i \<noteq> b + 8 * of_nat j)"

lemma copy_words_self: "copy_words n a a m = m"
  by (induction n) (simp_all add: Let_def)

lemma copy_words_other:
  "\<forall>j < n. x \<noteq> dst + 8 * of_nat j \<Longrightarrow> copy_words n src dst m x = m x"
  by (induction n) (simp_all add: Let_def)

lemma word_offset_inj:
  assumes "i < STATE_WORDS" and "j < STATE_WORDS"
  shows "(a :: u64) + 8 * of_nat i = a + 8 * of_nat j \<longleftrightarrow> i = j"
proof -
  have "unat (8 * of_nat k :: u64) = 8 * k" if "k < STATE_WORDS" for k
    using that by (simp add: unat_word_ariths unat_of_nat)
  with assms show ?thesis
    by (metis add_left_cancel mult_cancel1 zero_neq_numeral)
qed

lemma copy_words_dst:
  assumes "\<forall>i < n. \<forall>j < n. src + 8 * of_nat i \<noteq> dst + 8 * of_nat j" and "n \<le> STATE_WORDS" and "k < n"
  shows "copy_words n src dst m (dst + 8 * of_nat k) = m (src + 8 * of_nat k)"
  using assms
proof (induction n)
  case 0
  then show ?case by simp
next
  case (Suc n)
  have src: "copy_words n src dst m (src + 8 * of_nat n) = m (src + 8 * of_nat n)"
    using Suc.prems(1) by (intro copy_words_other) auto
  show ?case
  proof (cases "k = n")
    case True
    with src show ?thesis by (simp add: Let_def)
  next
    case False
    with Suc.prems have "k < n" by simp
    then have "dst + 8 * of_nat k \<noteq> dst + 8 * of_nat n"
      using word_offset_inj [of k n dst] Suc.prems(2) by auto
    with Suc \<open>k < n\<close> show ?thesis by (simp add: Let_def)
  qed
qed

lemma frame_at_copy:
  assumes "frames_disjoint src dst"
  shows "frame_at (copy_words STATE_WORDS src dst m) dst = frame_at m src"
  using assms by (auto simp: frame_at_def frames_disjoint_def intro!: copy_words_dst)

lemma frame_at_copy_other:
  assumes "frames_disjoint a dst"
  shows "frame_at (copy_words STATE_WORDS src dst m) a = frame_at m a"
  using assms by (auto simp: frame_at_def frames_disjoint_def intro!: copy_words_other)

lemma unat_of_nat_u64: "n < 2 ^ 64 \<Longrightarrow> unat (of_nat n :: u64) = n"
  by (simp add: unat_of_nat)

lemma frames_disjointI:
  assumes "unat a + 288 \<le> unat b" and "unat b + 288 < 2 ^ 64"
  shows "frames_disjoint a b"
  unfolding frames_disjoint_def
proof (intro allI impI)
  fix i j
  assume ij: "i < STATE_WORDS" "j < STATE_WORDS"
  have addr: "unat (c + 8 * of_nat k :: u64) = unat c + 8 * k"
    if "unat c + 288 < 2 ^ 64" "k < STATE_WORDS" for c k
    using that unat_of_nat_u64 [of "unat c + 8 * k"] by simp
  have "unat (a + 8 * of_nat i) \<noteq> unat (b + 8 * of_nat j)"
    using addr [of a i] addr [of b j] ij assms by simp
  then show "a + 8 * of_nat i \<noteq> b + 8 * of_nat j" by metis
qed

lemma frames_disjoint_sym: "frames_disjoint a b \<longleftrightarrow> frames_disjoint b a"
  unfolding frames_disjoint_def by metis

text \<open>The frames of the slots, as offsets from \<open>base\<close>: no wrap-around, and 64 KiB apart at least.\<close>

definition slot_offset :: "core_id \<Rightarrow> nat \<Rightarrow> nat" where
  "slot_offset core i = (unat core * 3 + i) * 0x11000 + 0x10000 - 288"

definition slots_mapped :: "u64 \<Rightarrow> bool" where
  "slots_mapped base \<longleftrightarrow> unat base + 12 * 0x11000 < 2 ^ 64"

lemma slot_frame_of_nat: "slot_top base core i - STATE_SIZE = base + of_nat (slot_offset core i)"
proof -
  have "(ucast core :: u64) = of_nat (unat core)"
    by (simp add: unsigned_ucast_eq word_unat_eq_iff)
  then have "slot_top base core i = base + of_nat (slot_offset core i + 288)"
    by (simp add: slot_top_def slot_offset_def algebra_simps)
  then show ?thesis by simp
qed

lemma slot_offset_less:
  "unat core < 4 \<Longrightarrow> i < 3 \<Longrightarrow> slot_offset core i + 288 \<le> 12 * 0x11000"
  by (simp add: slot_offset_def)

lemma slot_word_addr:
  assumes "slots_mapped base" and "unat core < 4" and "i < 3" and "w < STATE_WORDS"
  shows "unat (slot_top base core i - STATE_SIZE + 8 * of_nat w) = unat base + slot_offset core i + 8 * w"
proof -
  have "slot_top base core i - STATE_SIZE + 8 * of_nat w =
        of_nat (unat base + slot_offset core i + 8 * w)"
    unfolding slot_frame_of_nat by simp
  moreover have "unat base + slot_offset core i + 8 * w < 2 ^ 64"
    using slot_offset_less [OF assms(2,3)] assms(1,4) by (simp add: slots_mapped_def)
  ultimately show ?thesis by (metis unat_of_nat_u64)
qed

lemma slot_offset_apart:
  assumes "i < 3" and "j < 3" and "(c, i) \<noteq> (d, j)"
  shows "slot_offset c i + 288 \<le> slot_offset d j \<or> slot_offset d j + 288 \<le> slot_offset c i"
proof -
  have "unat c * 3 + i \<noteq> unat d * 3 + j"
    using assms by (metis add_cancel_left_right div_less div_mult_self3 mod_less mod_mult_self3
        plus_nat.add_0 unsigned_word_eqI zero_neq_numeral)
  then show ?thesis by (auto simp: slot_offset_def)
qed

lemma slot_frames_disjoint:
  assumes "slots_mapped base" and "unat c < 4" and "unat d < 4" and "i < 3" and "j < 3"
    and "(c, i) \<noteq> (d, j)"
  shows "frames_disjoint (slot_top base c i - STATE_SIZE) (slot_top base d j - STATE_SIZE)"
  unfolding frames_disjoint_def
proof (intro allI impI)
  fix v w
  assume vw: "v < STATE_WORDS" "w < STATE_WORDS"
  have "unat base + slot_offset c i + 8 * v \<noteq> unat base + slot_offset d j + 8 * w"
    using slot_offset_apart [OF assms(4-6)] vw by auto
  then show "slot_top base c i - STATE_SIZE + 8 * of_nat v \<noteq> slot_top base d j - STATE_SIZE + 8 * of_nat w"
    using slot_word_addr [OF assms(1,2,4) vw(1)] slot_word_addr [OF assms(1,3,5) vw(2)] by metis
qed

section \<open>The ownership invariant\<close>

text \<open>
  \<open>slots_ok\<close>: the owner table of a core and the tasks of that core describe each other. A task that
  has a slot is the recorded owner of it and its frame ends at the top of the slot; a slot that is
  not free has its owner among the tasks.
\<close>

definition slots_ok :: "u64 \<Rightarrow> core_id \<Rightarrow> task_store \<Rightarrow> tref set \<Rightarrow> slot_pool \<Rightarrow> bool" where
  "slots_ok base core h R pool \<longleftrightarrow>
     length pool = CORE_SLOTS_LEN \<and> unat core < CORE_SLOTS_LEN \<and> length (pool ! unat core) = SLOTS_PER_CORE \<and>
     inj_on (\<lambda>r. t_id (h r)) R \<and>
     (\<forall>r \<in> R. 0 \<le> tid_into (t_id (h r))) \<and>
     (\<forall>r \<in> R. \<forall>i. t_slot (h r) = Some i \<longrightarrow>
        i < SLOTS_PER_CORE \<and> t_frame_location (h r) = InSlot \<and>
        t_last_stack_pointer (h r) + STATE_SIZE = slot_top base core i \<and>
        pool ! unat core ! i = tid_into (t_id (h r))) \<and>
     (\<forall>i < SLOTS_PER_CORE. pool ! unat core ! i \<noteq> - 1 \<longrightarrow> (\<exists>r \<in> R. t_slot (h r) = Some i))"

definition slot_free :: "core_id \<Rightarrow> slot_pool \<Rightarrow> nat \<Rightarrow> bool" where
  "slot_free core pool i \<longleftrightarrow> i < SLOTS_PER_CORE \<and> pool ! unat core ! i = - 1"

lemma slots_okD:
  assumes "slots_ok base core h R pool"
  shows "length pool = 4" "unat core < 4" "length (pool ! unat core) = 3"
    "inj_on (\<lambda>r. t_id (h r)) R" "\<And>r. r \<in> R \<Longrightarrow> 0 \<le> tid_into (t_id (h r))"
    "\<And>r i. r \<in> R \<Longrightarrow> t_slot (h r) = Some i \<Longrightarrow>
       i < 3 \<and> t_frame_location (h r) = InSlot \<and> pool ! unat core ! i = tid_into (t_id (h r))"
    "\<And>r i. r \<in> R \<Longrightarrow> t_slot (h r) = Some i \<Longrightarrow>
       t_last_stack_pointer (h r) = slot_top base core i - STATE_SIZE"
    "\<And>i. i < 3 \<Longrightarrow> pool ! unat core ! i \<noteq> - 1 \<Longrightarrow> \<exists>r \<in> R. t_slot (h r) = Some i"
  using assms unfolding slots_ok_def by (auto simp: algebra_simps dest!: bspec)

text \<open>The invariant reads only the identifiers and the places of the frames.\<close>

lemma slots_ok_cong:
  assumes ok: "slots_ok base core h R pool"
    and eq: "\<And>r. r \<in> R \<Longrightarrow> t_id (h' r) = t_id (h r) \<and> t_slot (h' r) = t_slot (h r) \<and>
      t_frame_location (h' r) = t_frame_location (h r) \<and> t_last_stack_pointer (h' r) = t_last_stack_pointer (h r)"
  shows "slots_ok base core h' R pool"
proof -
  have "inj_on (\<lambda>r. t_id (h' r)) R \<longleftrightarrow> inj_on (\<lambda>r. t_id (h r)) R"
    using eq by (intro inj_on_cong) simp
  moreover have "(\<exists>r \<in> R. t_slot (h' r) = Some i) \<longleftrightarrow> (\<exists>r \<in> R. t_slot (h r) = Some i)" for i
    using eq by (intro bex_cong) simp_all
  ultimately show ?thesis
    using ok eq unfolding slots_ok_def by simp
qed

lemma slots_ok_slot_inj:
  assumes ok: "slots_ok base core h R pool" and "r \<in> R" and "s \<in> R"
    and "t_slot (h r) = Some i" and "t_slot (h s) = Some i"
  shows "r = s"
proof -
  have "tid_into (t_id (h r)) = tid_into (t_id (h s))"
    using slots_okD(6) [OF ok] assms(2-5) by metis
  then show ?thesis
    using slots_okD(4) [OF ok] assms(2,3) by (auto simp: inj_on_def task_id.expand)
qed

lemma slot_acquire_None: "slot_acquire ow = None \<longleftrightarrow> - 1 \<notin> set ow"
proof (cases "position (\<lambda>x. x = - 1) ow")
  case None
  then show ?thesis
    using position_None [of "\<lambda>x. x = - 1" ow] by (auto simp: slot_acquire_def simp del: position_None)
next
  case (Some i)
  then show ?thesis
    using position_Some [OF Some] nth_mem [of i ow] by (auto simp: slot_acquire_def)
qed

lemma slot_acquire_Some:
  assumes "slot_acquire ow = Some (i, ow')"
  shows "i < length ow" "ow ! i = - 1" "\<forall>j < i. ow ! j \<noteq> - 1" "ow' = ow[i := i32_max]"
  using assms by (auto simp: slot_acquire_def dest: position_Some split: option.splits)

lemma dispatch_acquire_slot_cases:
  assumes "unat core < 4" and "length pool = 4"
  obtains (exhausted) "- 1 \<notin> set (pool ! unat core)"
      "dispatch_acquire_slot base core pool m t = Some (False, pool, m, t)"
  | (acquired) i where "i < length (pool ! unat core)" "pool ! unat core ! i = - 1"
      "\<forall>j < i. pool ! unat core ! j \<noteq> - 1"
      "dispatch_acquire_slot base core pool m t =
         Some (True, pool[unat core := (pool ! unat core)[i := tid_into (t_id t)]],
           copy_words STATE_WORDS (t_last_stack_pointer t) (slot_top base core i - STATE_SIZE) m,
           t\<lparr>t_last_stack_pointer := slot_top base core i - STATE_SIZE, t_slot := Some i,
             t_frame_location := InSlot, t_wake_pending := False\<rparr>)"
proof (cases "slot_acquire (pool ! unat core)")
  case None
  with assms exhausted show thesis
    by (simp add: dispatch_acquire_slot_def owners_for_core_def slot_acquire_None)
next
  case (Some p)
  then obtain i ow' where *: "slot_acquire (pool ! unat core) = Some (i, ow')"
    by (cases p) auto
  with assms acquired [of i] slot_acquire_Some [OF *] show thesis
    by (simp add: dispatch_acquire_slot_def owners_for_core_def slot_set_owner_def Let_def)
qed

lemma resume_from_evicted_eq:
  "resume_from_evicted base core pool m t =
     (if t_frame_location t = Evicted then dispatch_acquire_slot base core pool m t else None)"
  by (simp add: resume_from_evicted_def dispatch_acquire_slot_def guard_def)

lemma slots_ok_acquire:
  assumes ok: "slots_ok base core h R pool" and r: "r \<in> R" "t_slot (h r) = None"
    and i: "i < 3" "pool ! unat core ! i = - 1"
    and t: "t_id t = t_id (h r)" "t_slot t = Some i" "t_frame_location t = InSlot"
      "t_last_stack_pointer t = slot_top base core i - STATE_SIZE"
  shows "slots_ok base core (h(r := t)) R
           (pool[unat core := (pool ! unat core)[i := tid_into (t_id (h r))]])"
proof -
  note D = slots_okD [OF ok]
  have other: "j \<noteq> i" if "s \<in> R" "t_slot (h s) = Some j" for s j
    using D(5,6) [OF that(1)] that(2) i(2) by fastforce
  have "(\<lambda>s. t_id ((h(r := t)) s)) = (\<lambda>s. t_id (h s))"
    using t(1) by (simp add: fun_eq_iff)
  then have inj: "inj_on (\<lambda>s. t_id ((h(r := t)) s)) R"
    using D(4) by simp
  have fwd: "j < 3 \<and> t_frame_location ((h(r := t)) s) = InSlot \<and>
      t_last_stack_pointer ((h(r := t)) s) + STATE_SIZE = slot_top base core j \<and>
      (pool ! unat core)[i := tid_into (t_id (h r))] ! j = tid_into (t_id ((h(r := t)) s))"
    if "s \<in> R" "t_slot ((h(r := t)) s) = Some j" for s j
  proof (cases "s = r")
    case True
    with that t i D(3) show ?thesis by simp
  next
    case False
    then have "t_slot (h s) = Some j" using that by simp
    with False D(6,7) [OF that(1)] other [OF that(1)] show ?thesis by simp
  qed
  have bwd: "\<exists>s \<in> R. t_slot ((h(r := t)) s) = Some j"
    if "j < 3" "(pool ! unat core)[i := tid_into (t_id (h r))] ! j \<noteq> - 1" for j
  proof (cases "j = i")
    case True
    with r t show ?thesis by auto
  next
    case False
    with D(8) [of j] that r show ?thesis by force
  qed
  from D(1-5) inj fwd bwd t(1) show ?thesis
    unfolding slots_ok_def by (simp add: nth_list_update)
qed

lemma evict_victim_eq:
  assumes "t_slot v = Some i" and "t_frame_location v = InSlot" and "unat core < 4"
    and "j < length (pool ! unat core)"
  shows "evict_victim base core pool m v j =
    Some (t_wake_pending v, pool[unat core := (pool ! unat core)[j := - 1]],
      copy_words STATE_WORDS (slot_top base core j - STATE_SIZE) (t_last_stack_pointer v) m,
      v\<lparr>t_frame_location := Evicted, t_slot := None, t_wake_pending := False\<rparr>)"
  using assms
  by (simp add: evict_victim_def evict_claim_def evict_finish_def guard_def owners_for_core_def
      slot_release_def Let_def)

lemma slots_ok_vacate:
  assumes ok: "slots_ok base core h R pool" and r: "r \<in> R" "t_slot (h r) = Some i"
    and S: "S = R \<or> S = R - {r}" "r \<in> S \<Longrightarrow> t_slot t = None" and t: "t_id t = t_id (h r)"
  shows "slots_ok base core (h(r := t)) S (pool[unat core := (pool ! unat core)[i := - 1]])"
proof -
  note D = slots_okD [OF ok]
  have sub: "S \<subseteq> R" using S(1) by auto
  have "(\<lambda>s. t_id ((h(r := t)) s)) = (\<lambda>s. t_id (h s))"
    using t by (simp add: fun_eq_iff)
  then have inj: "inj_on (\<lambda>s. t_id ((h(r := t)) s)) S"
    using D(4) sub by (simp add: inj_on_subset)
  have fwd: "j < 3 \<and> t_frame_location ((h(r := t)) s) = InSlot \<and>
      t_last_stack_pointer ((h(r := t)) s) + STATE_SIZE = slot_top base core j \<and>
      (pool ! unat core)[i := - 1] ! j = tid_into (t_id ((h(r := t)) s))"
    if s: "s \<in> S" "t_slot ((h(r := t)) s) = Some j" for s j
  proof -
    have "s \<noteq> r" using s S(2) by auto
    then have j: "t_slot (h s) = Some j" "s \<in> R" using s sub by auto
    then have "j \<noteq> i" using slots_ok_slot_inj [OF ok j(2) r(1) j(1)] r(2) \<open>s \<noteq> r\<close> by auto
    with j \<open>s \<noteq> r\<close> D(6,7) [OF j(2,1)] show ?thesis by simp
  qed
  have bwd: "\<exists>s \<in> S. t_slot ((h(r := t)) s) = Some j"
    if j: "j < 3" "(pool ! unat core)[i := - 1] ! j \<noteq> - 1" for j
  proof -
    have "j \<noteq> i" using j D(3) by auto
    then obtain s where s: "s \<in> R" "t_slot (h s) = Some j" using D(8) [of j] j by auto
    with r \<open>j \<noteq> i\<close> have "s \<noteq> r" by auto
    with s S(1) show ?thesis by auto
  qed
  from D(1-5) inj fwd bwd sub t show ?thesis
    unfolding slots_ok_def by (auto simp: nth_list_update)
qed

section \<open>An example core\<close>

text \<open>Core 0 with its slots at \<open>0x100000\<close>: a task in each of the first \<open>n\<close> slots and one more task,
  number \<open>n\<close>, whose frame is still on its kernel stack at \<open>0x1000\<close>.\<close>

definition demo_base :: u64 where
  "demo_base = 0x100000"

definition demo_task :: "nat \<Rightarrow> nat \<Rightarrow> task" where
  "demo_task n r =
     (task_new (TaskId (int r)) 0 Blocked NORMAL_PRIO (BootStacks 0) 0 0)\<lparr>
       t_last_stack_pointer := (if r < n then slot_top demo_base 0 r - STATE_SIZE else 0x1000),
       t_slot := (if r < n then Some r else None)\<rparr>"

definition demo_pool :: "nat \<Rightarrow> slot_pool" where
  "demo_pool n = core_slots_init[0 := map (\<lambda>i. if i < n then int i else - 1) [0..<SLOTS_PER_CORE]]"

lemma demo_task_simps [simp]:
  "t_id (demo_task n r) = TaskId (int r)" "t_status (demo_task n r) = Blocked"
  "t_core_id (demo_task n r) = 0" "t_frame_location (demo_task n r) = InSlot"
  "t_slot (demo_task n r) = (if r < n then Some r else None)"
  "t_last_stack_pointer (demo_task n r) = (if r < n then slot_top demo_base 0 r - STATE_SIZE else 0x1000)"
  by (simp_all add: demo_task_def task_new_def)

lemma demo_slots_mapped: "slots_mapped demo_base"
  by (simp add: slots_mapped_def demo_base_def)

lemma demo_pool_nth: "demo_pool n ! 0 = map (\<lambda>i. if i < n then int i else - 1) [0..<3]"
  by (simp add: demo_pool_def core_slots_init_def)

lemma demo_slots_ok:
  assumes "n \<le> 3"
  shows "slots_ok demo_base 0 (demo_task n) {..n} (demo_pool n)"
  using assms demo_pool_nth [of n] unfolding slots_ok_def
  by (auto simp: demo_pool_def core_slots_init_def inj_on_def split: if_splits)

lemma demo_slot_free: "slot_free 0 (demo_pool n) i \<longleftrightarrow> n \<le> i \<and> i < 3"
  by (auto simp: slot_free_def demo_pool_nth split: if_splits)

lemma demo_frames_disjoint: "i < 3 \<Longrightarrow> frames_disjoint 0x1000 (slot_top demo_base 0 i - STATE_SIZE)"
  using slot_word_addr [OF demo_slots_mapped, of 0 i 0]
  by (intro frames_disjointI) (simp_all add: demo_base_def slot_offset_def)

section \<open>Properties\<close>

text \<open>C21: Dispatching a task that has no slot fails exactly when no slot of the core is free, and then
  changes nothing. Otherwise the task gets the first free slot, the ownership table stays exact, the
  frame in the slot is the task's saved frame, and the frames of the tasks that already have a slot
  on the core are untouched.\<close>

theorem dispatch_acquire_slot_correct:
  assumes "slots_ok base core h R pool" and "slots_mapped base" and "r \<in> R" and "t_slot (h r) = None"
    and "\<forall>i < SLOTS_PER_CORE. frames_disjoint (t_last_stack_pointer (h r)) (slot_top base core i - STATE_SIZE)"
  shows "\<exists>ok pool' m' t'. dispatch_acquire_slot base core pool m (h r) = Some (ok, pool', m', t') \<and>
    ok = (\<exists>i. slot_free core pool i) \<and>
    slots_ok base core (h(r := t')) R pool' \<and>
    (\<not> ok \<longrightarrow> pool' = pool \<and> m' = m \<and> t' = h r) \<and>
    (ok \<longrightarrow> t_slot t' = Some (LEAST i. slot_free core pool i) \<and>
       frame_at m' (t_last_stack_pointer t') = frame_at m (t_last_stack_pointer (h r)) \<and>
       (\<forall>s \<in> R. t_slot (h s) \<noteq> None \<longrightarrow>
          frame_at m' (t_last_stack_pointer (h s)) = frame_at m (t_last_stack_pointer (h s))))"
proof -
  note D = slots_okD [OF assms(1)]
  show ?thesis
  proof (cases rule: dispatch_acquire_slot_cases [OF D(2,1), of base m "h r", case_names exhausted acquired])
    case exhausted
    then have "\<not> slot_free core pool i" for i
      using D(3) by (metis nth_mem slot_constants(4) slot_free_def)
    with exhausted assms(1) show ?thesis by auto
  next
    case (acquired i)
    let ?fb = "slot_top base core i - STATE_SIZE"
    have i: "i < 3" "slot_free core pool i" using acquired(1,2) D(3) by (simp_all add: slot_free_def)
    have least: "(LEAST i. slot_free core pool i) = i"
    proof (rule Least_equality)
      show "slot_free core pool i" by (rule i(2))
    next
      fix j
      assume "slot_free core pool j"
      then show "i \<le> j" using acquired(3) leI unfolding slot_free_def by metis
    qed
    have others: "frame_at (copy_words STATE_WORDS (t_last_stack_pointer (h r)) ?fb m) (t_last_stack_pointer (h s))
        = frame_at m (t_last_stack_pointer (h s))" if "s \<in> R" "t_slot (h s) = Some j" for s j
    proof -
      have "j < 3" "j \<noteq> i" using D(5,6) [OF that(1)] that(2) acquired(2) by fastforce+
      then show ?thesis
        unfolding D(7) [OF that]
        by (intro frame_at_copy_other slot_frames_disjoint [OF assms(2) D(2) D(2)]) (use i in auto)
    qed
    have "frame_at (copy_words STATE_WORDS (t_last_stack_pointer (h r)) ?fb m) ?fb =
        frame_at m (t_last_stack_pointer (h r))"
      using assms(5) i by (intro frame_at_copy) simp
    with acquired i least others show ?thesis
      using slots_ok_acquire [OF assms(1,3,4) i(1) acquired(2)] by auto
  qed
qed

theorem dispatch_acquire_slot_witness:
  "\<exists>pool' m' t'. dispatch_acquire_slot demo_base 0 (demo_pool 2) (\<lambda>a. a) (demo_task 2 2) =
     Some (True, pool', m', t') \<and> t_slot t' = Some (LEAST i. slot_free 0 (demo_pool 2) i) \<and>
     frame_at m' (t_last_stack_pointer t') = frame_at (\<lambda>a. a) 0x1000"
  using dispatch_acquire_slot_correct [OF demo_slots_ok [of 2] demo_slots_mapped, of 2 "\<lambda>a. a"]
    demo_frames_disjoint
  by (auto simp: demo_slot_free intro: exI [of _ 2])

text \<open>Evicting a task that holds a slot succeeds, frees exactly that slot, keeps the ownership table
  exact and hands the deferred wake-up to the caller: the result is whether one was pending, and the
  flag is cleared.\<close>

theorem evict_victim_correct:
  assumes "slots_ok base core h R pool" and "r \<in> R" and "t_slot (h r) = Some i"
  shows "\<exists>pool' m' v'. evict_victim base core pool m (h r) i = Some (t_wake_pending (h r), pool', m', v') \<and>
    slots_ok base core (h(r := v')) R pool' \<and>
    t_frame_location v' = Evicted \<and> t_slot v' = None \<and> \<not> t_wake_pending v' \<and>
    (\<forall>j. slot_free core pool' j \<longleftrightarrow> j = i \<or> slot_free core pool j)"
proof -
  note D = slots_okD [OF assms(1)]
  have i: "i < 3" "t_frame_location (h r) = InSlot" using D(6) [OF assms(2,3)] by auto
  have "slot_free core (pool[unat core := (pool ! unat core)[i := - 1]]) j \<longleftrightarrow>
      j = i \<or> slot_free core pool j" for j
    using D(1-3) i(1) by (auto simp: slot_free_def nth_list_update)
  then show ?thesis
    using evict_victim_eq [OF assms(3) i(2) D(2), of i pool base m] D(3) i(1)
      slots_ok_vacate [OF assms] by auto
qed

theorem evict_victim_witness:
  "\<exists>pool' m' v'. evict_victim demo_base 0 (demo_pool 3) (\<lambda>a. a) (demo_task 3 1) 1 =
     Some (False, pool', m', v') \<and> t_slot v' = None \<and> slot_free 0 pool' 1"
  using evict_victim_correct [OF demo_slots_ok [of 3], of 1 1 "\<lambda>a. a"]
  by (auto simp: demo_task_def task_new_def)

text \<open>No wake-up is lost to an eviction. When a blocked task is claimed for eviction and woken before
  the eviction finishes, the wake-up is only recorded; the eviction then reports it, the task is still
  blocked, and the wake-up that the caller performs makes the task ready.\<close>

theorem eviction_keeps_wakeup:
  assumes "slots_ok base core h R pool" and "r \<in> R" and "t_slot (h r) = Some i"
    and "t_status (h r) = Blocked" and "t_core_id (h r) = core"
  shows "\<exists>v pool' m' v'. evict_claim (h r) = Some v \<and>
    mark_ready core (h(r := v)) r = Some (False, h(r := v\<lparr>t_wake_pending := True\<rparr>)) \<and>
    evict_finish base core pool m (v\<lparr>t_wake_pending := True\<rparr>) i = Some (True, pool', m', v') \<and>
    t_status v' = Blocked \<and>
    mark_ready core (h(r := v')) r = Some (True, h(r := v'\<lparr>t_status := Ready\<rparr>))"
  using slots_okD(2,3) [OF assms(1)] slots_okD(6) [OF assms(1-3)] assms(3-5)
  by (auto simp: evict_claim_def evict_finish_def mark_ready_def guard_def owners_for_core_def
      slot_release_def Let_def)

theorem eviction_keeps_wakeup_witness:
  "\<exists>v pool' m' v'. evict_claim (demo_task 3 1) = Some v \<and>
     evict_finish demo_base 0 (demo_pool 3) (\<lambda>a. a) (v\<lparr>t_wake_pending := True\<rparr>) 1 = Some (True, pool', m', v') \<and>
     mark_ready 0 ((demo_task 3)(1 := v')) 1 = Some (True, (demo_task 3)(1 := v'\<lparr>t_status := Ready\<rparr>))"
  using eviction_keeps_wakeup [OF demo_slots_ok [of 3], of 1 1 "\<lambda>a. a"] by auto

text \<open>C22: An evicted frame is not saved. The victim's stack pointer is the address of its frame in the slot,
  so the copy of the eviction is from the slot to itself and memory is unchanged. When the task that
  needed the slot is dispatched into it, its frame overwrites the victim's: the frame that the
  victim will be resumed from is the frame of the other task.\<close>

theorem evicted_frame_is_overwritten:
  assumes "slots_ok base core h R pool" and "r \<in> R" and "s \<in> R" and "t_slot (h r) = Some i"
    and "t_slot (h s) = None" and "\<forall>j. \<not> slot_free core pool j"
    and "frames_disjoint (t_last_stack_pointer (h s)) (slot_top base core i - STATE_SIZE)"
  shows "\<exists>w pool1 v pool2 m2 t. evict_victim base core pool m (h r) i = Some (w, pool1, m, v) \<and>
    dispatch_acquire_slot base core pool1 m (h s) = Some (True, pool2, m2, t) \<and>
    t_slot t = Some i \<and>
    t_last_stack_pointer v = t_last_stack_pointer t \<and>
    frame_at m2 (t_last_stack_pointer v) = frame_at m (t_last_stack_pointer (h s))"
proof -
  note D = slots_okD [OF assms(1)]
  let ?fb = "slot_top base core i - STATE_SIZE"
  let ?pool1 = "pool[unat core := (pool ! unat core)[i := - 1]]"
  have i: "i < 3" "t_frame_location (h r) = InSlot" using D(6) [OF assms(2,4)] by auto
  have lsp: "t_last_stack_pointer (h r) = ?fb" using D(7) [OF assms(2,4)] .
  have ev: "evict_victim base core pool m (h r) i = Some (t_wake_pending (h r), ?pool1, m,
      (h r)\<lparr>t_frame_location := Evicted, t_slot := None, t_wake_pending := False\<rparr>)"
    using evict_victim_eq [OF assms(4) i(2) D(2), of i pool base m] i(1) D(3)
    by (simp add: lsp copy_words_self)
  have len: "length ?pool1 = 4" using D(1) by simp
  show ?thesis
  proof (cases rule: dispatch_acquire_slot_cases [OF D(2) len, of base m "h s", case_names exhausted acquired])
    case exhausted
    then show ?thesis using D(1-3) i(1) set_update_memI [of i "pool ! unat core"] by simp
  next
    case (acquired j)
    have "j = i"
    proof (rule ccontr)
      assume "j \<noteq> i"
      with acquired(1,2) assms(6) D(1-3) show False by (simp add: slot_free_def)
    qed
    with acquired(4) ev lsp frame_at_copy [OF assms(7)] show ?thesis by simp
  qed
qed

theorem evicted_frame_is_overwritten_witness:
  "\<exists>w pool1 v pool2 m2 t. evict_victim demo_base 0 (demo_pool 3) (\<lambda>a. a) (demo_task 3 1) 1 =
       Some (w, pool1, \<lambda>a. a, v) \<and>
     dispatch_acquire_slot demo_base 0 pool1 (\<lambda>a. a) (demo_task 3 3) = Some (True, pool2, m2, t) \<and>
     frame_at m2 (t_last_stack_pointer v) = frame_at (\<lambda>a. a) 0x1000"
  using evicted_frame_is_overwritten [OF demo_slots_ok [of 3], of 1 3 1 "\<lambda>a. a"]
    demo_frames_disjoint [of 1]
  by (auto simp: demo_slot_free)

end
