(* ===== verification/Task_Frame.thy ===== *)
theory Task_Frame
  imports Slot_Pool
begin

text \<open>
  The stacks of a task and its first register frame (\<^verbatim>\<open>src/arch/aarch64/kernel/scheduler.rs\<close>).
  \<open>stacks_new\<close> lays out the kernel and the user stack with three guard pages; \<open>create_stack_frame\<close>
  writes the frame from which the exception return starts the task.

  The page and frame allocators and \<open>align_up\<close> are third-party code: their results are arguments.
\<close>

section \<open>Constants\<close>

definition KERNEL_STACK_SIZE :: u64 where
  "KERNEL_STACK_SIZE = 0x8000"

definition DEFAULT_STACK_SIZE :: u64 where
  "DEFAULT_STACK_SIZE = 0x20000"

definition MARKER_SIZE :: u64 where
  "MARKER_SIZE = 0x10"

definition PAGE_SIZE :: u64 where
  "PAGE_SIZE = 0x1000"

lemma stack_constants [simp]:
  "KERNEL_STACK_SIZE = 0x8000" "DEFAULT_STACK_SIZE = 0x20000" "MARKER_SIZE = 0x10" "PAGE_SIZE = 0x1000"
  by (simp_all add: KERNEL_STACK_SIZE_def DEFAULT_STACK_SIZE_def MARKER_SIZE_def PAGE_SIZE_def)

section \<open>Stacks\<close>

text \<open>A call of \<open>paging::map\<close>: the first virtual address, the first physical address, and the number of
  pages.\<close>

type_synonym page_mapping = "u64 \<times> u64 \<times> nat"

fun zero_words :: "nat \<Rightarrow> u64 \<Rightarrow> memory \<Rightarrow> memory" where
  "zero_words 0 a m = m"
| "zero_words (Suc n) a m = zero_words n (a + 8) (m(a := 0))"

definition user_stack_size_for :: "(u64 \<Rightarrow> u64 \<Rightarrow> u64) \<Rightarrow> u64 \<Rightarrow> u64" where
  "user_stack_size_for align_up sz =
     (if sz < KERNEL_STACK_SIZE then KERNEL_STACK_SIZE else align_up sz PAGE_SIZE)"

definition stacks_new ::
    "(u64 \<Rightarrow> u64 \<Rightarrow> u64) \<Rightarrow> (u64 \<Rightarrow> u64 option) \<Rightarrow> (u64 \<Rightarrow> u64 option) \<Rightarrow> u64 \<Rightarrow> memory \<Rightarrow>
     (task_stacks \<times> page_mapping list \<times> memory) option" where
  "stacks_new align_up page_alloc frame_alloc sz m = do {
     let user_stack_size = user_stack_size_for align_up sz;
     let total_size = user_stack_size + DEFAULT_STACK_SIZE;
     virt_addr \<leftarrow> page_alloc (total_size + 3 * PAGE_SIZE);
     phys_addr \<leftarrow> frame_alloc total_size;
     let kernel_map = (virt_addr + PAGE_SIZE, phys_addr, unat (DEFAULT_STACK_SIZE div PAGE_SIZE));
     let user_stack_va = virt_addr + DEFAULT_STACK_SIZE + 2 * PAGE_SIZE;
     let user_map = (user_stack_va, phys_addr + DEFAULT_STACK_SIZE, unat (user_stack_size div PAGE_SIZE));
     let m1 = zero_words (unat (user_stack_size div 8)) user_stack_va m;
     Some (CommonStacks virt_addr phys_addr total_size, [kernel_map, user_map], m1)
   }"

definition from_boot_stacks :: "u64 \<Rightarrow> task_stacks" where
  "from_boot_stacks current_stack_address = BootStacks current_stack_address"

primrec get_user_stack_size :: "task_stacks \<Rightarrow> u64" where
  "get_user_stack_size (BootStacks a) = 0"
| "get_user_stack_size (CommonStacks va pa sz) = sz - DEFAULT_STACK_SIZE"

primrec get_user_stack :: "task_stacks \<Rightarrow> u64" where
  "get_user_stack (BootStacks a) = 0"
| "get_user_stack (CommonStacks va pa sz) = va + DEFAULT_STACK_SIZE + 2 * PAGE_SIZE"

primrec get_kernel_stack :: "task_stacks \<Rightarrow> u64" where
  "get_kernel_stack (BootStacks a) = a"
| "get_kernel_stack (CommonStacks va pa sz) = va + PAGE_SIZE"

primrec get_kernel_stack_size :: "task_stacks \<Rightarrow> u64" where
  "get_kernel_stack_size (BootStacks a) = KERNEL_STACK_SIZE"
| "get_kernel_stack_size (CommonStacks va pa sz) = DEFAULT_STACK_SIZE"

section \<open>The first frame\<close>

text \<open>The word that the loop writes into the stack at address \<open>w\<close>, and the loop from \<open>w\<close> for \<open>n\<close> words.\<close>

definition sentinel :: "u64 \<Rightarrow> u64" where
  "sentinel w = 0x5eed000000000000 OR (w AND 0x0000fffffffffff8)"

fun fill_sentinel :: "nat \<Rightarrow> u64 \<Rightarrow> memory \<Rightarrow> memory" where
  "fill_sentinel 0 w m = m"
| "fill_sentinel (Suc n) w m = fill_sentinel n (w + 8) (m(w := sentinel w))"

text \<open>The field offsets of \<open>State\<close>, in words.\<close>

definition state_spsel :: nat where "state_spsel = 0"
definition state_elr_el1 :: nat where "state_elr_el1 = 1"
definition state_spsr_el1 :: nat where "state_spsr_el1 = 2"
definition state_sp_el0 :: nat where "state_sp_el0 = 3"
definition state_tpidr_el0 :: nat where "state_tpidr_el0 = 4"
definition state_x0 :: nat where "state_x0 = 5"
definition state_x1 :: nat where "state_x1 = 6"

lemmas state_fields = state_spsel_def state_elr_el1_def state_spsr_el1_def state_sp_el0_def
  state_tpidr_el0_def state_x0_def state_x1_def

definition put_field :: "u64 \<Rightarrow> nat \<Rightarrow> u64 \<Rightarrow> memory \<Rightarrow> memory" where
  "put_field state field v m = m(state + 8 * of_nat field := v)"

text \<open>\<open>task_start\<close> is the address of the assembly routine, \<open>tls\<close> the thread pointer of the task when it
  has thread-local storage.\<close>

definition create_stack_frame ::
    "u64 \<Rightarrow> u64 option \<Rightarrow> u64 \<Rightarrow> u64 \<Rightarrow> task \<Rightarrow> memory \<Rightarrow> task \<times> memory" where
  "create_stack_frame task_start tls func arg t m =
     (let stacks = t_stacks t;
          top = get_kernel_stack stacks + get_kernel_stack_size stacks - MARKER_SIZE;
          m1 = m(top := 0xdeadbeef);
          body_lo = get_kernel_stack stacks;
          body_hi = top - STATE_SIZE;
          m2 = fill_sentinel ((unat body_hi - unat body_lo + 7) div 8) body_lo m1;
          state = top - STATE_SIZE;
          m3 = zero_words STATE_WORDS state m2;
          m4 = (case tls of Some p \<Rightarrow> put_field state state_tpidr_el0 p m3 | None \<Rightarrow> m3);
          m5 = put_field state state_elr_el1 task_start m4;
          m6 = put_field state state_x0 func m5;
          m7 = put_field state state_x1 arg m6;
          m8 = put_field state state_spsel 0 m7;
          m9 = put_field state state_spsr_el1 0x3e4 m8;
          sp_top = (case stacks of
                      BootStacks _ \<Rightarrow> state + STATE_SIZE + MARKER_SIZE
                    | CommonStacks _ _ _ \<Rightarrow> get_user_stack stacks + get_user_stack_size stacks - MARKER_SIZE);
          m10 = put_field state state_sp_el0 (sp_top - 16) m9;
          usp = get_user_stack stacks + get_user_stack_size stacks - MARKER_SIZE
      in (t\<lparr>t_last_stack_pointer := state, t_user_stack_pointer := usp\<rparr>, m10(usp := 0xdeadbeef)))"

section \<open>Reading a frame back\<close>

lemma frame_at_length [simp]: "length (frame_at m a) = STATE_WORDS"
  by (simp add: frame_at_def)

lemma frame_at_nth: "w < STATE_WORDS \<Longrightarrow> frame_at m a ! w = m (a + 8 * of_nat w)"
  by (simp add: frame_at_def)

lemma frame_at_put_field:
  assumes "k < STATE_WORDS"
  shows "frame_at (put_field a k v m) a = (frame_at m a)[k := v]"
proof (rule nth_equalityI)
  fix w
  assume "w < length (frame_at (put_field a k v m) a)"
  then have "w < STATE_WORDS" by simp
  with assms word_offset_inj [of w k a] show "frame_at (put_field a k v m) a ! w = (frame_at m a)[k := v] ! w"
    by (simp add: frame_at_nth put_field_def nth_list_update)
qed simp

lemma frame_at_upd_other:
  "\<forall>w < STATE_WORDS. a + 8 * of_nat w \<noteq> b \<Longrightarrow> frame_at (m(b := v)) a = frame_at m a"
  by (auto simp: frame_at_def)

lemma zero_words_in: "j < n \<Longrightarrow> zero_words n a m (a + 8 * of_nat j) = 0"
proof (induction n arbitrary: a m j)
  case (Suc n)
  have keep: "zero_words k b f x = 0" if "f x = 0" for k b f and x :: u64
    using that by (induction k arbitrary: b f) auto
  show ?case
  proof (cases j)
    case 0
    then show ?thesis by (simp add: keep)
  next
    case j: (Suc i)
    have "zero_words n (a + 8) (m(a := 0)) (a + 8 + 8 * of_nat i) = 0"
      using Suc.prems j by (intro Suc.IH) simp
    with j show ?thesis by (simp add: algebra_simps)
  qed
qed simp

lemma frame_at_zeroed: "frame_at (zero_words STATE_WORDS a m) a = replicate STATE_WORDS 0"
  by (rule nth_equalityI) (simp_all add: frame_at_nth zero_words_in del: STATE_WORDS_eq)

lemma fields_less:
  "state_spsel < STATE_WORDS" "state_elr_el1 < STATE_WORDS" "state_spsr_el1 < STATE_WORDS"
  "state_sp_el0 < STATE_WORDS" "state_tpidr_el0 < STATE_WORDS" "state_x0 < STATE_WORDS" "state_x1 < STATE_WORDS"
  by (simp_all add: state_fields)

lemma first_frame_words:
  fixes e x y p q s :: u64
  shows "(replicate STATE_WORDS 0)[state_tpidr_el0 := p, state_elr_el1 := e, state_x0 := x, state_x1 := y,
      state_spsel := 0, state_spsr_el1 := q, state_sp_el0 := s] = [0, e, q, s, p, x, y] @ replicate 29 0"
    and "(replicate STATE_WORDS 0)[state_elr_el1 := e, state_x0 := x, state_x1 := y,
      state_spsel := 0, state_spsr_el1 := q, state_sp_el0 := s] = [0, e, q, s, 0, x, y] @ replicate 29 0"
  by (simp_all add: state_fields numeral_eq_Suc)

lemma create_stack_frame_lsp:
  "t_last_stack_pointer (fst (create_stack_frame task_start tls func arg t m)) =
    get_kernel_stack (t_stacks t) + get_kernel_stack_size (t_stacks t) - MARKER_SIZE - STATE_SIZE"
  unfolding create_stack_frame_def Let_def fst_conv by simp

lemma get_stack_simps:
  "get_kernel_stack (CommonStacks va pa n) = va + 0x1000"
  "get_kernel_stack_size (CommonStacks va pa n) = 0x20000"
  "get_user_stack (CommonStacks va pa n) = va + 0x22000"
  "get_user_stack_size (CommonStacks va pa n) = n - 0x20000"
  by simp_all

text \<open>A stack allocation that lies in the address space: its pages end before the last address, and the
  user stack has at least the minimal size.\<close>

definition stacks_fit :: "task_stacks \<Rightarrow> bool" where
  "stacks_fit st = (case st of
      BootStacks a \<Rightarrow> False
    | CommonStacks va pa n \<Rightarrow> 0x28000 \<le> unat n \<and> unat va + unat n + 0x3000 < 2 ^ 64)"

lemma unat_add_const:
  fixes a :: u64
  assumes "unat a + k < 2 ^ 64"
  shows "unat (a + of_nat k) = unat a + k"
  using assms unat_of_nat_u64 [of "unat a + k"] by simp

text \<open>Addresses of the layout.\<close>

lemma stacks_fit_addr:
  assumes "stacks_fit (CommonStacks va pa n)"
  shows "unat (va + 0x20ed0) = unat va + 0x20ed0" and "unat (va + n + 0x1ff0) = unat va + unat n + 0x1ff0"
    and "unat (va + n + 0x1fe0) = unat va + unat n + 0x1fe0" and "unat (va + 0x22000) = unat va + 0x22000"
    and "unat (va + 0x1000) = unat va + 0x1000" and "unat (va + 0x21000) = unat va + 0x21000"
    and "unat (va + n + 0x2000) = unat va + unat n + 0x2000"
proof -
  have b: "0x28000 \<le> unat n" "unat va + unat n + 0x3000 < 2 ^ 64" using assms by (simp_all add: stacks_fit_def)
  have low: "unat (va + of_nat k) = unat va + k" if "k \<le> 0x22000" for k
    using b that by (intro unat_add_const) linarith
  show "unat (va + 0x20ed0) = unat va + 0x20ed0" "unat (va + 0x22000) = unat va + 0x22000"
    "unat (va + 0x1000) = unat va + 0x1000" "unat (va + 0x21000) = unat va + 0x21000"
    using low [of "0x20ed0"] low [of "0x22000"] low [of "0x1000"] low [of "0x21000"] by simp_all
  have top: "unat (va + n + of_nat k) = unat va + unat n + k" if "k \<le> 0x2000" for k
  proof -
    have "va + n + of_nat k = va + of_nat (unat n + k)" by (simp add: add.assoc)
    moreover have "unat (va + of_nat (unat n + k)) = unat va + (unat n + k)"
      using b that by (intro unat_add_const) linarith
    ultimately show ?thesis by (metis add.assoc)
  qed
  show "unat (va + n + 0x1ff0) = unat va + unat n + 0x1ff0" "unat (va + n + 0x1fe0) = unat va + unat n + 0x1fe0"
    "unat (va + n + 0x2000) = unat va + unat n + 0x2000"
    using top [of "0x1ff0"] top [of "0x1fe0"] top [of "0x2000"] by simp_all
qed

text \<open>The layout of fresh stacks: the request is covered, the two stacks are separated and surrounded by
  pages that are not mapped, the frames are used exactly once, and the user stack is cleared.\<close>

lemma stacks_new_layout:
  assumes "page_alloc (user_stack_size_for align_up sz + 0x23000) = Some va"
    and "frame_alloc (user_stack_size_for align_up sz + 0x20000) = Some pa"
    and "0x8000 \<le> sz \<longrightarrow> sz \<le> align_up sz 0x1000"
    and "unat va + unat (user_stack_size_for align_up sz) + 0x23000 < 2 ^ 64"
  defines "usz \<equiv> user_stack_size_for align_up sz"
  shows "\<exists>m'. stacks_new align_up page_alloc frame_alloc sz m =
      Some (CommonStacks va pa (usz + 0x20000),
        [(va + 0x1000, pa, 32), (va + 0x22000, pa + 0x20000, unat (usz div 0x1000))], m') \<and>
    stacks_fit (CommonStacks va pa (usz + 0x20000)) \<and> sz \<le> usz \<and>
    get_user_stack_size (CommonStacks va pa (usz + 0x20000)) = usz \<and>
    (\<forall>j < unat (usz div 8). m' (get_user_stack (CommonStacks va pa (usz + 0x20000)) + 8 * of_nat j) = 0)"
proof -
  have usz: "0x8000 \<le> usz" "sz \<le> usz"
    using assms(3) by (auto simp: usz_def user_stack_size_for_def not_less)
  have "unat usz + 0x20000 < 2 ^ 64" using assms(4) by (simp add: usz_def)
  then have tot: "unat (usz + 0x20000) = unat usz + 0x20000"
    using unat_add_const [of usz "0x20000"] by simp
  have fit: "stacks_fit (CommonStacks va pa (usz + 0x20000))"
    using assms(4) usz(1) tot by (simp add: stacks_fit_def usz_def word_le_nat_alt)
  have run: "stacks_new align_up page_alloc frame_alloc sz m =
      Some (CommonStacks va pa (usz + 0x20000),
        [(va + 0x1000, pa, 32), (va + 0x22000, pa + 0x20000, unat (usz div 0x1000))],
        zero_words (unat (usz div 8)) (va + 0x22000) m)"
    using assms(1,2) unfolding usz_def stacks_new_def Let_def by (simp add: add.assoc)
  have sub: "usz + 0x20000 - 0x20000 = usz" by simp
  show ?thesis
    unfolding run get_stack_simps sub using fit usz(2) zero_words_in by blast
qed

lemma first_frame_ok:
  fixes task_start func arg :: u64 and tls :: "u64 option" and m :: memory
  assumes "t_stacks t = CommonStacks va pa n" and "stacks_fit (CommonStacks va pa n)"
  defines "r \<equiv> create_stack_frame task_start tls func arg t m"
  defines "lsp \<equiv> t_last_stack_pointer (fst r)"
  shows "frame_at (snd r) lsp =
      [0, task_start, 0x3e4, va + n + 0x1fe0, case tls of Some p \<Rightarrow> p | None \<Rightarrow> 0, func, arg] @ replicate 29 0 \<and>
    unat (get_kernel_stack (t_stacks t)) \<le> unat lsp \<and>
    unat lsp + 288 + 16 \<le> unat (get_kernel_stack (t_stacks t)) + unat (get_kernel_stack_size (t_stacks t)) \<and>
    unat (get_user_stack (t_stacks t)) \<le> unat (frame_at (snd r) lsp ! state_sp_el0) \<and>
    unat (frame_at (snd r) lsp ! state_sp_el0) < unat (get_user_stack (t_stacks t)) + unat (get_user_stack_size (t_stacks t))"
proof -
  note A = stacks_fit_addr [OF assms(2)]
  have n: "0x28000 \<le> unat n" "unat va + unat n + 0x3000 < 2 ^ 64" using assms(2) by (simp_all add: stacks_fit_def)
  then have un: "unat (n - 0x20000) = unat n - 0x20000" by (simp add: unat_sub word_le_nat_alt)
  have lsp: "lsp = va + 0x20ed0"
    unfolding lsp_def r_def create_stack_frame_lsp assms(1) get_stack_simps by simp
  have usp: "\<forall>w < STATE_WORDS. va + 0x20ed0 + 8 * of_nat w \<noteq> va + n + 0x1ff0"
  proof (intro allI impI)
    fix w assume "w < STATE_WORDS"
    then have "unat (va + 0x20ed0 + 8 * of_nat w) = unat va + 0x20ed0 + 8 * w"
      using unat_add_const [of va "0x20ed0 + 8 * w"] n by (simp add: add.assoc)
    with A(2) n \<open>w < STATE_WORDS\<close> have "unat (va + 0x20ed0 + 8 * of_nat w) \<noteq> unat (va + n + 0x1ff0)"
      unfolding STATE_WORDS_eq by linarith
    then show "va + 0x20ed0 + 8 * of_nat w \<noteq> va + n + 0x1ff0" by metis
  qed
  have addr: "va + 0x1000 + 0x20000 - MARKER_SIZE - STATE_SIZE = va + 0x20ed0"
    "va + 0x22000 + (n - 0x20000) - MARKER_SIZE = va + n + 0x1ff0" "va + n + 0x1ff0 - 16 = va + n + 0x1fe0"
    by (simp_all add: algebra_simps)
  have frame: "frame_at (snd r) lsp =
      [0, task_start, 0x3e4, va + n + 0x1fe0, case tls of Some p \<Rightarrow> p | None \<Rightarrow> 0, func, arg] @ replicate 29 0"
    unfolding r_def create_stack_frame_def assms(1) lsp Let_def get_stack_simps addr task_stacks.case snd_conv
      frame_at_upd_other [OF usp]
    by (cases tls) (simp_all only: option.case frame_at_put_field fields_less frame_at_zeroed first_frame_words)
  have sp: "frame_at (snd r) lsp ! state_sp_el0 = va + n + 0x1fe0"
    unfolding frame by (simp add: state_fields)
  have sizes: "unat (get_kernel_stack (t_stacks t)) = unat va + 0x1000"
    "unat (get_kernel_stack_size (t_stacks t)) = 0x20000"
    "unat (get_user_stack (t_stacks t)) = unat va + 0x22000"
    "unat (get_user_stack_size (t_stacks t)) = unat n - 0x20000" "unat lsp = unat va + 0x20ed0"
    unfolding assms(1) get_stack_simps lsp A un by simp_all
  show ?thesis
    unfolding sp sizes A using frame n by (intro conjI) (assumption | linarith)+
qed

section \<open>Properties\<close>

text \<open>The first frame of a task. On stacks inside the address space, \<open>create_stack_frame\<close> leaves the register
  frame that starts the task: stack selector 0, return address \<open>task_start\<close>, status word \<open>0x3e4\<close>, the
  entry point and its argument in the first two registers, the thread pointer, and zero everywhere
  else. The frame and the marker above it lie inside the kernel stack and the stack pointer of the
  task inside its user stack, so every debug assertion of the function holds.\<close>

theorem first_frame_correct:
  fixes task_start func arg :: u64 and tls :: "u64 option" and m :: memory
  assumes "t_stacks t = CommonStacks va pa n" and "stacks_fit (CommonStacks va pa n)"
  defines "r \<equiv> create_stack_frame task_start tls func arg t m"
  defines "lsp \<equiv> t_last_stack_pointer (fst r)"
  shows "frame_at (snd r) lsp =
      [0, task_start, 0x3e4, va + n + 0x1fe0, case tls of Some p \<Rightarrow> p | None \<Rightarrow> 0, func, arg] @ replicate 29 0 \<and>
    unat (get_kernel_stack (t_stacks t)) \<le> unat lsp \<and>
    unat lsp + 288 + 16 \<le> unat (get_kernel_stack (t_stacks t)) + unat (get_kernel_stack_size (t_stacks t)) \<and>
    unat (get_user_stack (t_stacks t)) \<le> unat (frame_at (snd r) lsp ! state_sp_el0) \<and>
    unat (frame_at (snd r) lsp ! state_sp_el0) < unat (get_user_stack (t_stacks t)) + unat (get_user_stack_size (t_stacks t))"
  unfolding r_def lsp_def by (rule first_frame_ok [OF assms(1,2)])

theorem first_frame_witness:
  "frame_at (snd (create_stack_frame 0x4000 None 0x5000 7
      (task_new (TaskId 1) 0 Ready NORMAL_PRIO (CommonStacks 0x200000 0x80000 0x28000) 0 0) (\<lambda>a. 0))) 0x220ed0 =
    [0, 0x4000, 0x3e4, 0x229fe0, 0, 0x5000, 7] @ replicate 29 0"
proof -
  let ?t = "task_new (TaskId 1) 0 Ready NORMAL_PRIO (CommonStacks 0x200000 0x80000 0x28000) 0 0"
  have t: "t_stacks ?t = CommonStacks 0x200000 0x80000 0x28000" and fit: "stacks_fit (CommonStacks 0x200000 0x80000 0x28000)"
    by (simp_all add: task_new_def stacks_fit_def)
  have "t_last_stack_pointer (fst (create_stack_frame 0x4000 None 0x5000 7 ?t (\<lambda>a. 0))) = 0x220ed0"
    unfolding create_stack_frame_lsp t by simp
  with first_frame_correct [OF t fit, of "0x4000" None "0x5000" 7 "\<lambda>a. 0"] show ?thesis by simp
qed

end
