(* ===== verification/Errno.thy ===== *)
theory Errno
  imports Prelude
begin

text \<open>
  Error numbers (\<^verbatim>\<open>src/errno.rs\<close>) and their mapping to error kinds
  (\<^verbatim>\<open>src/io.rs\<close>). An error number is its discriminant; the tables list the variants of the
  enumeration in the order of the source. A result of a fallible kernel function is
  \<open>errno + 'a\<close>.
\<close>

datatype errno = Errno (errno_into: int)

type_synonym 'a io_result = "errno + 'a"

section \<open>The variants\<close>

definition errno_table_1 :: "(string \<times> int) list" where
  "errno_table_1 =
     [(''Perm'', 1), (''Noent'', 2), (''Srch'', 3), (''Intr'', 4), (''Io'', 5), (''Nxio'', 6),
      (''Toobig'', 7), (''Noexec'', 8), (''Badf'', 9), (''Child'', 10), (''Again'', 11),
      (''Nomem'', 12), (''Acces'', 13), (''Fault'', 14), (''Notblk'', 15), (''Busy'', 16),
      (''Exist'', 17), (''Xdev'', 18), (''Nodev'', 19), (''Notdir'', 20), (''Isdir'', 21),
      (''Inval'', 22), (''Nfile'', 23), (''Mfile'', 24), (''Notty'', 25), (''Txtbsy'', 26),
      (''Fbig'', 27), (''Nospc'', 28)]"

definition errno_table_2 :: "(string \<times> int) list" where
  "errno_table_2 =
     [(''Spipe'', 29), (''Rofs'', 30), (''Mlink'', 31), (''Pipe'', 32), (''Dom'', 33),
      (''Range'', 34), (''Deadlk'', 35), (''Nametoolong'', 36), (''Nolck'', 37), (''Nosys'', 38),
      (''Notempty'', 39), (''Loop'', 40), (''Nomsg'', 42), (''Idrm'', 43), (''Chrng'', 44),
      (''L2nsync'', 45), (''L3hlt'', 46), (''L3rst'', 47), (''Lnrng'', 48), (''Unatch'', 49),
      (''Nocsi'', 50), (''L2hlt'', 51), (''Bade'', 52), (''Badr'', 53), (''Xfull'', 54),
      (''Noano'', 55), (''Badrqc'', 56), (''Badslt'', 57), (''Bfont'', 59)]"

definition errno_table_3 :: "(string \<times> int) list" where
  "errno_table_3 =
     [(''Nostr'', 60), (''Nodata'', 61), (''Time'', 62), (''Nosr'', 63), (''Nonet'', 64),
      (''Nopkg'', 65), (''Remote'', 66), (''Nolink'', 67), (''Adv'', 68), (''Srmnt'', 69),
      (''Comm'', 70), (''Proto'', 71), (''Multihop'', 72), (''Dotdot'', 73), (''Badmsg'', 74),
      (''Overflow'', 75), (''Notuniq'', 76), (''Badfd'', 77), (''Remchg'', 78), (''Libacc'', 79),
      (''Libbad'', 80), (''Libscn'', 81), (''Libmax'', 82), (''Libexec'', 83), (''Ilseq'', 84),
      (''Restart'', 85), (''Strpipe'', 86), (''Users'', 87), (''Notsock'', 88)]"

definition errno_table_4 :: "(string \<times> int) list" where
  "errno_table_4 =
     [(''Destaddrreq'', 89), (''Msgsize'', 90), (''Prototype'', 91), (''Noprotoopt'', 92),
      (''Protonosupport'', 93), (''Socktnosupport'', 94), (''Opnotsupp'', 95),
      (''Pfnosupport'', 96), (''Afnosupport'', 97), (''Addrinuse'', 98), (''Addrnotavail'', 99),
      (''Netdown'', 100), (''Netunreach'', 101), (''Netreset'', 102), (''Connaborted'', 103),
      (''Connreset'', 104), (''Nobufs'', 105), (''Isconn'', 106), (''Notconn'', 107),
      (''Shutdown'', 108), (''Toomanyrefs'', 109), (''Timedout'', 110), (''Connrefused'', 111),
      (''Hostdown'', 112), (''Hostunreach'', 113), (''Already'', 114), (''Inprogress'', 115),
      (''Stale'', 116), (''Uclean'', 117)]"

definition errno_table_5 :: "(string \<times> int) list" where
  "errno_table_5 =
     [(''Notnam'', 118), (''Navail'', 119), (''Isnam'', 120), (''Remoteio'', 121),
      (''Dquot'', 122), (''Nomedium'', 123), (''Mediumtype'', 124), (''Canceled'', 125),
      (''Nokey'', 126), (''Keyexpired'', 127), (''Keyrevoked'', 128), (''Keyrejected'', 129),
      (''Ownerdead'', 130), (''Notrecoverable'', 131), (''Rfkill'', 132), (''Hwpoison'', 133)]"

definition errno_table :: "(string \<times> int) list" where
  "errno_table = errno_table_1 @ errno_table_2 @ errno_table_3 @ errno_table_4 @ errno_table_5"

text \<open>The variants that the modelled code names.\<close>

abbreviation Perm :: errno where
  "Perm \<equiv> Errno 1"

abbreviation Noent :: errno where
  "Noent \<equiv> Errno 2"

abbreviation Intr :: errno where
  "Intr \<equiv> Errno 4"

abbreviation Badf :: errno where
  "Badf \<equiv> Errno 9"

abbreviation Again :: errno where
  "Again \<equiv> Errno 11"

abbreviation Nomem :: errno where
  "Nomem \<equiv> Errno 12"

abbreviation Acces :: errno where
  "Acces \<equiv> Errno 13"

abbreviation Exist :: errno where
  "Exist \<equiv> Errno 17"

abbreviation Nodev :: errno where
  "Nodev \<equiv> Errno 19"

abbreviation Notdir :: errno where
  "Notdir \<equiv> Errno 20"

abbreviation Isdir :: errno where
  "Isdir \<equiv> Errno 21"

abbreviation Inval :: errno where
  "Inval \<equiv> Errno 22"

abbreviation Mfile :: errno where
  "Mfile \<equiv> Errno 24"

abbreviation Fbig :: errno where
  "Fbig \<equiv> Errno 27"

abbreviation Nospc :: errno where
  "Nospc \<equiv> Errno 28"

abbreviation Spipe :: errno where
  "Spipe \<equiv> Errno 29"

abbreviation Pipe :: errno where
  "Pipe \<equiv> Errno 32"

abbreviation Range :: errno where
  "Range \<equiv> Errno 34"

abbreviation Nametoolong :: errno where
  "Nametoolong \<equiv> Errno 36"

abbreviation Nosys :: errno where
  "Nosys \<equiv> Errno 38"

abbreviation Notempty :: errno where
  "Notempty \<equiv> Errno 39"

abbreviation Overflow :: errno where
  "Overflow \<equiv> Errno 75"

abbreviation Opnotsupp :: errno where
  "Opnotsupp \<equiv> Errno 95"

abbreviation Addrinuse :: errno where
  "Addrinuse \<equiv> Errno 98"

abbreviation Addrnotavail :: errno where
  "Addrnotavail \<equiv> Errno 99"

abbreviation Connaborted :: errno where
  "Connaborted \<equiv> Errno 103"

abbreviation Connreset :: errno where
  "Connreset \<equiv> Errno 104"

abbreviation Notconn :: errno where
  "Notconn \<equiv> Errno 107"

abbreviation Timedout :: errno where
  "Timedout \<equiv> Errno 110"

abbreviation Connrefused :: errno where
  "Connrefused \<equiv> Errno 111"

abbreviation Io :: errno where
  "Io \<equiv> Errno 5"

section \<open>Conversions\<close>

definition errno_try_from :: "int \<Rightarrow> errno option" where
  "errno_try_from n = (if n \<in> set (map snd errno_table) then Some (Errno n) else None)"

text \<open>\<open>to_errno\<close> of the result types: a negative result carries the error number. The negation of
  the 32-bit version wraps for the least value; the conversion of the 64-bit version panics when
  the number does not fit.\<close>

definition to_errno_i32 :: "int \<Rightarrow> int option" where
  "to_errno_i32 r = (if r < 0 then Some (wrap_i32 (- r)) else None)"

definition to_errno_i64 :: "int \<Rightarrow> int option option" where
  "to_errno_i64 r = (if r < 0 then (if - r \<le> i32_max then Some (Some (- r)) else None) else Some None)"

definition to_errno_errno :: "errno \<Rightarrow> int option" where
  "to_errno_errno e = Some (errno_into e)"

definition set_errno :: "int option \<Rightarrow> int \<Rightarrow> int" where
  "set_errno e old = (case e of Some n \<Rightarrow> n | None \<Rightarrow> old)"

datatype error_kind =
    NotFound | PermissionDenied | ConnectionRefused | ConnectionReset | ConnectionAborted
  | NotConnected | AddrInUse | AddrNotAvailable | BrokenPipe | AlreadyExists | InvalidInput
  | TimedOut | Interrupted | Unsupported | OutOfMemory | OtherKind

definition error_kind_from :: "errno \<Rightarrow> error_kind" where
  "error_kind_from e =
     (if e = Noent then NotFound
      else if e = Acces \<or> e = Perm then PermissionDenied
      else if e = Connrefused then ConnectionRefused
      else if e = Connreset then ConnectionReset
      else if e = Connaborted then ConnectionAborted
      else if e = Notconn then NotConnected
      else if e = Addrinuse then AddrInUse
      else if e = Addrnotavail then AddrNotAvailable
      else if e = Pipe then BrokenPipe
      else if e = Exist then AlreadyExists
      else if e = Inval then InvalidInput
      else if e = Timedout then TimedOut
      else if e = Intr then Interrupted
      else if e = Opnotsupp then Unsupported
      else if e = Nomem then OutOfMemory
      else OtherKind)"

section \<open>Properties\<close>

lemma errno_values: "map snd errno_table = [1..40] @ [42..57] @ [59..133]"
  by (simp add: errno_table_def errno_table_1_def errno_table_2_def errno_table_3_def errno_table_4_def
      errno_table_5_def upto_rec1)

lemma errno_try_from_iff:
  "errno_try_from n = (if 1 \<le> n \<and> n \<le> 133 \<and> n \<noteq> 41 \<and> n \<noteq> 58 then Some (Errno n) else None)"
proof -
  have "n \<in> set (map snd errno_table) \<longleftrightarrow> n \<in> {1..40} \<union> ({42..57} \<union> {59..133})"
    unfolding errno_values set_append set_upto by (rule refl)
  then show ?thesis
    unfolding errno_try_from_def by (simp add: Un_iff) presburger
qed

lemma errno_table_size: "length errno_table = 131 \<and> distinct (map snd errno_table)"
proof -
  have "length errno_table = length (map snd errno_table)" by simp
  then show ?thesis unfolding errno_values by simp
qed

text \<open>Error numbers survive the system call boundary. The 131 variants have different discriminants, all in
  the range that Linux uses; a number is the discriminant of a variant exactly when it is between 1
  and 133 and neither 41 nor 58. Decoding the number of a variant gives the variant back, and a
  system call result that is the negated number of a variant sets \<open>errno\<close> to it.\<close>

theorem errno_roundtrip:
  "length errno_table = 131 \<and> distinct (map snd errno_table) \<and>
   (errno_try_from n \<noteq> None) = (1 \<le> n \<and> n \<le> 133 \<and> n \<noteq> 41 \<and> n \<noteq> 58) \<and>
   (errno_try_from n = Some e \<longrightarrow> errno_into e = n \<and>
      to_errno_i32 (- n) = Some n \<and> to_errno_i64 (- n) = Some (Some n) \<and>
      set_errno (to_errno_i32 (- n)) old = n)"
  using errno_table_size
  by (auto simp: errno_try_from_iff to_errno_i32_def to_errno_i64_def set_errno_def wrap_i32_def
      split: if_splits)

theorem errno_roundtrip_witness:
  "to_errno_i32 (- 2) = Some 2 \<and> errno_into Noent = 2"
  using errno_roundtrip [of 2 Noent] by (simp add: errno_try_from_iff)

end
