(* ===== verification/Fd_Table.thy ===== *)
theory Fd_Table
  imports Tasks Errno
begin

text \<open>
  The file descriptor tables of the tasks (\<^verbatim>\<open>src/scheduler/mod.rs\<close>, the methods of
  \<open>PerCoreScheduler\<close> on \<open>object_map\<close>, and \<open>Task::new_object_map\<close>). A table is a map from descriptors
  to shared open files; tables live in a store and a task holds the address of its own, so that
  two tasks with different addresses have separate tables but can share open files.
\<close>

type_synonym raw_fd = int
type_synonym fd_obj = nat
type_synonym objmap = "raw_fd \<rightharpoonup> fd_obj"
type_synonym objmap_store = "objmap_ref \<Rightarrow> objmap"

section \<open>Operations\<close>

text \<open>The search for the lowest free descriptor, from \<open>fd\<close> upwards.\<close>

function new_fd_from :: "objmap \<Rightarrow> raw_fd \<Rightarrow> raw_fd io_result" where
  "new_fd_from m fd =
     (if m fd = None then Inr fd
      else if fd = i32_max then Inl Overflow
      else new_fd_from m (min (fd + 1) i32_max))"
  by auto
termination
  by (relation "measure (\<lambda>(m, fd). nat \<bar>i32_max - fd\<bar>)") auto

declare new_fd_from.simps [simp del]

definition new_fd :: "objmap \<Rightarrow> raw_fd io_result" where
  "new_fd m = new_fd_from m 0"

text \<open>The three standard streams of a fresh table; \<open>stdio\<close> names their objects.\<close>

definition new_object_map :: "(raw_fd \<Rightarrow> fd_obj) \<Rightarrow> objmap" where
  "new_object_map stdio = [0 \<mapsto> stdio 0, 1 \<mapsto> stdio 1, 2 \<mapsto> stdio 2]"

text \<open>The loop of \<open>clone_current_task_object_map\<close> inserts every entry of the source into an empty table
  at a new address.\<close>

definition clone_object_map :: "objmap_store \<Rightarrow> objmap_ref \<Rightarrow> objmap_ref \<Rightarrow> objmap_store" where
  "clone_object_map os r fresh = os(fresh := (\<lambda>fd. os r fd))"

definition get_object :: "objmap_store \<Rightarrow> objmap_ref \<Rightarrow> raw_fd \<Rightarrow> fd_obj io_result" where
  "get_object os r fd = (case os r fd of None \<Rightarrow> Inl Badf | Some obj \<Rightarrow> Inr obj)"

definition recreate_objmap :: "objmap_store \<Rightarrow> objmap_ref \<Rightarrow> objmap_ref \<Rightarrow> objmap_store" where
  "recreate_objmap os r fresh = os(fresh := (\<lambda>fd. if 0 \<le> fd \<and> fd < 3 then os r fd else None))"

definition insert_object ::
    "objmap_store \<Rightarrow> objmap_ref \<Rightarrow> fd_obj \<Rightarrow> raw_fd io_result \<times> objmap_store" where
  "insert_object os r obj =
     (case new_fd (os r) of
        Inl e \<Rightarrow> (Inl e, os)
      | Inr fd \<Rightarrow> (Inr fd, os(r := (os r)(fd \<mapsto> obj))))"

definition dup_object ::
    "objmap_store \<Rightarrow> objmap_ref \<Rightarrow> raw_fd \<Rightarrow> raw_fd io_result \<times> objmap_store" where
  "dup_object os r fd =
     (case os r fd of
        None \<Rightarrow> (Inl Inval, os)
      | Some obj \<Rightarrow>
          (case new_fd (os r) of
             Inl e \<Rightarrow> (Inl e, os)
           | Inr fd' \<Rightarrow>
               (case os r fd' of
                  Some _ \<Rightarrow> (Inl Mfile, os)
                | None \<Rightarrow> (Inr fd', os(r := (os r)(fd' \<mapsto> obj))))))"

definition dup_object2 ::
    "objmap_store \<Rightarrow> objmap_ref \<Rightarrow> raw_fd \<Rightarrow> raw_fd \<Rightarrow> raw_fd io_result \<times> objmap_store" where
  "dup_object2 os r fd1 fd2 =
     (case os r fd1 of
        None \<Rightarrow> (Inl Badf, os)
      | Some obj \<Rightarrow>
          (case os r fd2 of
             Some _ \<Rightarrow> (Inl Mfile, os)
           | None \<Rightarrow> (Inr fd2, os(r := (os r)(fd2 \<mapsto> obj)))))"

definition remove_object ::
    "objmap_store \<Rightarrow> objmap_ref \<Rightarrow> raw_fd \<Rightarrow> fd_obj io_result \<times> objmap_store" where
  "remove_object os r fd =
     (case os r fd of
        None \<Rightarrow> (Inl Badf, os)
      | Some obj \<Rightarrow> (Inr obj, os(r := (os r)(fd := None))))"

section \<open>The lowest free descriptor\<close>

lemma new_fd_from_Inr:
  assumes "new_fd_from m fd = Inr fd'" and "fd \<le> i32_max"
  shows "m fd' = None \<and> fd \<le> fd' \<and> fd' \<le> i32_max \<and> (\<forall>x. fd \<le> x \<and> x < fd' \<longrightarrow> m x \<noteq> None)"
  using assms
proof (induction m fd rule: new_fd_from.induct)
  case (1 m fd)
  show ?case
  proof (cases "m fd = None")
    case True
    with "1.prems" show ?thesis by (auto simp: new_fd_from.simps [of m fd])
  next
    case False
    with "1.prems" have ne: "fd \<noteq> i32_max" and rec: "new_fd_from m (min (fd + 1) i32_max) = Inr fd'"
      by (auto simp: new_fd_from.simps [of m fd] split: if_splits)
    with "1.prems"(2) have "min (fd + 1) i32_max = fd + 1" by simp
    with "1.IH" [OF False ne rec] "1.prems"(2) have
      "m fd' = None \<and> fd + 1 \<le> fd' \<and> fd' \<le> i32_max \<and> (\<forall>x. fd + 1 \<le> x \<and> x < fd' \<longrightarrow> m x \<noteq> None)"
      by simp
    moreover have "m x \<noteq> None" if "fd \<le> x" "x < fd'" for x
      using calculation that False by (cases "x = fd") auto
    ultimately show ?thesis by auto
  qed
qed

lemma new_fd_from_Inl:
  assumes "new_fd_from m fd = Inl e" and "fd \<le> i32_max"
  shows "e = Overflow \<and> (\<forall>x. fd \<le> x \<and> x \<le> i32_max \<longrightarrow> m x \<noteq> None)"
  using assms
proof (induction m fd rule: new_fd_from.induct)
  case (1 m fd)
  have False: "m fd \<noteq> None"
    using "1.prems"(1) by (cases "m fd") (simp_all add: new_fd_from.simps [of m fd])
  show ?case
  proof (cases "fd = i32_max")
    case True
    obtain obj where "m fd = Some obj" using False by auto
    with "1.prems"(1) True have "e = Overflow" by (simp add: new_fd_from.simps [of m i32_max])
    with True False show ?thesis by (auto dest: order_antisym)
  next
    case ne: False
    with "1.prems" False have rec: "new_fd_from m (min (fd + 1) i32_max) = Inl e"
      by (auto simp: new_fd_from.simps [of m fd])
    from ne "1.prems"(2) have "min (fd + 1) i32_max = fd + 1" by simp
    with "1.IH" [OF False ne rec] "1.prems"(2) have
      "e = Overflow \<and> (\<forall>x. fd + 1 \<le> x \<and> x \<le> i32_max \<longrightarrow> m x \<noteq> None)" by simp
    moreover have "m x \<noteq> None" if "fd \<le> x" "x \<le> i32_max" for x
      using calculation that False by (cases "x = fd") auto
    ultimately show ?thesis by auto
  qed
qed

lemma new_fd_cases:
  obtains (full) "new_fd m = Inl Overflow" "\<forall>x. 0 \<le> x \<and> x \<le> i32_max \<longrightarrow> m x \<noteq> None"
  | (free) fd where "new_fd m = Inr fd" "m fd = None" "0 \<le> fd" "fd \<le> i32_max"
      "\<forall>x. 0 \<le> x \<and> x < fd \<longrightarrow> m x \<noteq> None"
proof (cases "new_fd m")
  case (Inl e)
  with new_fd_from_Inl [of m 0 e] full show thesis by (simp add: new_fd_def)
next
  case (Inr fd)
  with new_fd_from_Inr [of m 0 fd] free [of fd] show thesis by (simp add: new_fd_def)
qed

lemma new_fd_free:
  assumes "0 \<le> fd" and "fd \<le> i32_max" and "m fd = None" and "\<forall>x. 0 \<le> x \<and> x < fd \<longrightarrow> m x \<noteq> None"
  shows "new_fd m = Inr fd"
proof (cases rule: new_fd_cases [of m, case_names full free])
  case full
  with assms show ?thesis by blast
next
  case (free fd')
  with assms show ?thesis by (metis linorder_neqE)
qed

section \<open>The contract of a descriptor table\<close>

text \<open>What the callers of a table rely on, over the lookup of one table: the new descriptor was not in use
  and now names the object, and no other descriptor changes.\<close>

locale fd_table =
  fixes lookup :: "'s \<Rightarrow> raw_fd \<Rightarrow> fd_obj option"
    and insert :: "'s \<Rightarrow> fd_obj \<Rightarrow> raw_fd io_result \<times> 's"
    and remove :: "'s \<Rightarrow> raw_fd \<Rightarrow> fd_obj io_result \<times> 's"
  assumes insert_law: "insert s obj = (Inr fd, s') \<Longrightarrow>
      lookup s fd = None \<and> lookup s' = (lookup s)(fd \<mapsto> obj) \<and> (\<forall>x. 0 \<le> x \<and> x < fd \<longrightarrow> lookup s x \<noteq> None)"
    and insert_fails: "insert s obj = (Inl e, s') \<Longrightarrow> s' = s"
    and remove_law: "lookup s fd = Some obj \<Longrightarrow> \<exists>s'. remove s fd = (Inr obj, s') \<and> lookup s' = (lookup s)(fd := None)"
    and remove_fails: "lookup s fd = None \<Longrightarrow> remove s fd = (Inl Badf, s)"
begin

lemma insert_remove:
  assumes "insert s obj = (Inr fd, s1)"
  shows "\<exists>s2. remove s1 fd = (Inr obj, s2) \<and> lookup s2 = lookup s"
proof -
  from insert_law [OF assms] have s1: "lookup s fd = None" "lookup s1 = (lookup s)(fd \<mapsto> obj)" by auto
  then obtain s2 where "remove s1 fd = (Inr obj, s2)" "lookup s2 = (lookup s1)(fd := None)"
    using remove_law [of s1 fd obj] by auto
  with s1 show ?thesis by auto
qed

lemma remove_twice:
  assumes "lookup s fd = Some obj"
  shows "\<exists>s'. remove s fd = (Inr obj, s') \<and> remove s' fd = (Inl Badf, s')"
  using remove_law [OF assms] remove_fails by auto

end

interpretation objmap: fd_table
  "\<lambda>os fd. os r fd" "\<lambda>os obj. insert_object os r obj" "\<lambda>os fd. remove_object os r fd" for r
proof (unfold_locales, goal_cases)
  case (1 s obj fd s')
  then show ?case
    by (cases rule: new_fd_cases [of "s r", case_names full free])
      (auto simp: insert_object_def)
next
  case (2 s obj e s')
  then show ?case by (auto simp: insert_object_def split: sum.splits)
next
  case (3 s fd obj)
  then show ?case by (simp add: remove_object_def)
next
  case (4 s fd)
  then show ?case by (simp add: remove_object_def)
qed

section \<open>Properties\<close>

text \<open>Opening. A new open file gets the lowest descriptor that is not in use; no other descriptor of the task
  and no other task's table changes, and closing the descriptor again gives the file back and
  restores the table. The only error is a table in which every descriptor is in use.\<close>

theorem open_gets_lowest_descriptor:
  "case insert_object os r obj of
     (Inl e, os') \<Rightarrow> e = Overflow \<and> os' = os \<and> (\<forall>x. 0 \<le> x \<and> x \<le> i32_max \<longrightarrow> os r x \<noteq> None)
   | (Inr fd, os') \<Rightarrow> 0 \<le> fd \<and> fd \<le> i32_max \<and> os r fd = None \<and> (\<forall>x. 0 \<le> x \<and> x < fd \<longrightarrow> os r x \<noteq> None) \<and>
       get_object os' r fd = Inr obj \<and> (\<forall>x. x \<noteq> fd \<longrightarrow> get_object os' r x = get_object os r x) \<and>
       (\<forall>s. s \<noteq> r \<longrightarrow> os' s = os s) \<and>
       (\<exists>os''. remove_object os' r fd = (Inr obj, os'') \<and> os'' r = os r)"
proof (cases rule: new_fd_cases [of "os r", case_names full free])
  case full
  then show ?thesis by (simp add: insert_object_def)
next
  case (free fd)
  then have run: "insert_object os r obj = (Inr fd, os(r := (os r)(fd \<mapsto> obj)))"
    by (simp add: insert_object_def)
  from objmap.insert_remove [OF run] obtain os'' where
    "remove_object (os(r := (os r)(fd \<mapsto> obj))) r fd = (Inr obj, os'')" "os'' r = os r" by (auto simp: fun_eq_iff)
  with free show ?thesis
    by (simp add: run get_object_def)
qed

theorem open_gets_lowest_descriptor_witness:
  "insert_object (\<lambda>r. new_object_map (\<lambda>fd. nat fd)) 0 9 =
     (Inr 3, (\<lambda>r. new_object_map (\<lambda>fd. nat fd))(0 := (new_object_map (\<lambda>fd. nat fd))(3 \<mapsto> 9)))"
proof -
  let ?os = "\<lambda>r :: nat. new_object_map (\<lambda>fd. nat fd)"
  have low: "new_object_map (\<lambda>fd. nat fd) x \<noteq> None \<longleftrightarrow> 0 \<le> x \<and> x < 3" for x
    by (auto simp: new_object_map_def)
  then have "new_fd (?os 0) = Inr 3"
    by (intro new_fd_free) (auto simp: new_object_map_def)
  with open_gets_lowest_descriptor [of ?os 0 9] show ?thesis
    by (simp add: insert_object_def)
qed

text \<open>Duplicating. A duplicate of an open descriptor is the lowest free descriptor and names the same open
  file; duplicating a closed one is an error that changes nothing. \<open>dup2\<close> to a free descriptor takes
  that descriptor, and fails without a change when the target is in use.\<close>

theorem dup_shares_open_file:
  "(case dup_object os r fd of
      (Inl e, os') \<Rightarrow> os' = os \<and> (os r fd = None \<and> e = Inval \<or> os r fd \<noteq> None \<and> e = Overflow)
    | (Inr fd', os') \<Rightarrow> fd' \<noteq> fd \<and> os r fd' = None \<and> get_object os' r fd' = get_object os r fd \<and>
        (\<forall>x. x \<noteq> fd' \<longrightarrow> get_object os' r x = get_object os r x)) \<and>
   (case dup_object2 os r fd fd2 of
      (Inl e, os') \<Rightarrow> os' = os \<and> (os r fd = None \<and> e = Badf \<or> os r fd2 \<noteq> None \<and> e = Mfile)
    | (Inr fd', os') \<Rightarrow> fd' = fd2 \<and> os r fd2 = None \<and> get_object os' r fd2 = get_object os r fd \<and>
        (\<forall>x. x \<noteq> fd2 \<longrightarrow> get_object os' r x = get_object os r x))"
proof (intro conjI, goal_cases)
  case 1
  show ?case
  proof (cases rule: new_fd_cases [of "os r", case_names full free])
    case full
    then show ?thesis by (auto simp: dup_object_def split: option.splits)
  next
    case (free fd')
    then show ?thesis by (auto simp: dup_object_def get_object_def split: option.splits)
  qed
next
  case 2
  show ?case by (auto simp: dup_object2_def get_object_def split: option.splits)
qed

theorem dup_shares_open_file_witness:
  "case dup_object2 (\<lambda>r. new_object_map (\<lambda>fd. nat fd)) 0 1 5 of
      (Inl e, os') \<Rightarrow> False
    | (Inr fd', os') \<Rightarrow> fd' = 5 \<and> get_object os' 0 5 = Inr 1"
  using dup_shares_open_file [of "\<lambda>r. new_object_map (\<lambda>fd. nat fd)" 0 1 5]
  by (simp add: dup_object2_def new_object_map_def get_object_def)

text \<open>Spawning a task copies the table. The child starts with exactly the parent's open files; afterwards
  opening, duplicating or closing descriptors of one task does not change the table of the other.\<close>

theorem child_table_is_private_copy:
  assumes "child \<noteq> parent"
  shows "(\<forall>fd. get_object (clone_object_map os parent child) child fd = get_object os parent fd) \<and>
    clone_object_map os parent child parent = os parent \<and>
    (\<forall>os'. snd (insert_object os' child obj) parent = os' parent \<and> snd (insert_object os' parent obj) child = os' child \<and>
       snd (remove_object os' child fd) parent = os' parent \<and> snd (remove_object os' parent fd) child = os' child \<and>
       snd (dup_object os' child fd) parent = os' parent \<and> snd (dup_object os' parent fd) child = os' child \<and>
       snd (dup_object2 os' child fd fd2) parent = os' parent \<and> snd (dup_object2 os' parent fd fd2) child = os' child)"
  using assms
  by (auto simp: clone_object_map_def get_object_def insert_object_def remove_object_def dup_object_def
      dup_object2_def split: option.splits sum.splits)

theorem child_table_is_private_copy_witness:
  "get_object (clone_object_map (\<lambda>r. new_object_map (\<lambda>fd. nat fd)) 0 1) 1 2 = Inr 2"
  using child_table_is_private_copy [of 1 0 "\<lambda>r. new_object_map (\<lambda>fd. nat fd)" 0 0 0]
  by (simp add: new_object_map_def get_object_def)

end
