(* ===== verification/Percore_Scheduler.thy ===== *)
theory Percore_Scheduler
  imports Task_Frame Fd_Table
begin

text \<open>
  The per-core scheduler (\<^verbatim>\<open>src/scheduler/mod.rs\<close>), for the aarch64 build with several cores.
  \<open>kernel\<close> is what one core works on: its own \<open>PerCoreScheduler\<close> and the globals. The other cores
  are seen through their input queues only. The theory defines the operations; their invariant and
  theorems are in the theory \<open>Scheduling\<close>.

  The asynchronous executor, whose tasks are the futures of the drivers, is the argument \<open>executor\<close> of
  the operations that drain it.
\<close>

section \<open>State\<close>

record new_task =
  nt_tid :: task_id
  nt_func :: u64
  nt_arg :: u64
  nt_prio :: priority
  nt_core_id :: core_id
  nt_stacks :: task_stacks
  nt_object_map :: objmap_ref

record scheduler_input =
  new_tasks :: "new_task list"
  wakeup_tasks :: "task_handle list"

definition scheduler_input_new :: scheduler_input where
  "scheduler_input_new = \<lparr>new_tasks = [], wakeup_tasks = []\<rparr>"

record core_scheduler =
  cs_core_id :: core_id
  current_task :: tref
  idle_task :: tref
  fpu_owner :: tref
  cs_ready :: ready_queue
  finished_tasks :: "tref list"
  cs_blocked :: "blocked_task list"
  cs_timers :: timer_state

record kernel =
  k_sched :: core_scheduler
  k_store :: task_store
  k_next_task :: tref
  k_objmaps :: objmap_store
  k_next_objmap :: objmap_ref
  k_mem :: memory
  k_slots :: slot_pool
  k_no_tasks :: u32
  k_waiting :: "task_id \<rightharpoonup> task_handle list"
  k_tasks :: "task_id \<rightharpoonup> task_handle"
  k_tid_counter :: int
  k_inputs :: "scheduler_input list"
  k_restart :: "restart_entry list"
  k_kernel_sp :: u64
  k_core_counter :: u32
  k_ipis :: "core_id list"
  k_nic_flushes :: nat

text \<open>What the kernel takes from the linker script, the hardware and the allocators.\<close>

record platform =
  slot_base :: u64
  task_start :: u64
  tls_pointer :: "u64 option"
  placeholder_entry :: u64
  idle_entry :: u64
  stdio_object :: "raw_fd \<Rightarrow> fd_obj"
  kernel_image_start :: u64
  kernel_image_end :: u64
  processor_count :: u32
  page_align_up :: "u64 \<Rightarrow> u64 \<Rightarrow> u64"
  page_allocate :: "u64 \<Rightarrow> u64 option"
  frame_allocate :: "u64 \<Rightarrow> u64 option"

text \<open>Access to the parts of the scheduler.\<close>

abbreviation k_current :: "kernel \<Rightarrow> tref" where
  "k_current k \<equiv> current_task (k_sched k)"

abbreviation k_core :: "kernel \<Rightarrow> core_id" where
  "k_core k \<equiv> cs_core_id (k_sched k)"

abbreviation with_sched :: "(core_scheduler \<Rightarrow> core_scheduler) \<Rightarrow> kernel \<Rightarrow> kernel" where
  "with_sched f k \<equiv> k\<lparr>k_sched := f (k_sched k)\<rparr>"

abbreviation with_current :: "(task \<Rightarrow> task) \<Rightarrow> kernel \<Rightarrow> kernel" where
  "with_current f k \<equiv> k\<lparr>k_store := (k_store k)(k_current k := f (k_store k (k_current k)))\<rparr>"

section \<open>Task identifiers and control blocks\<close>

text \<open>The loop of \<open>get_tid\<close>: the counter wraps around, and the loop ends at the first identifier that is
  not in use.\<close>

partial_function (option) get_tid_loop :: "(task_id \<rightharpoonup> task_handle) \<Rightarrow> int \<Rightarrow> (task_id \<times> int) option" where
  "get_tid_loop ts c =
     (if ts (TaskId c) = None then Some (TaskId c, wrap_i32 (c + 1)) else get_tid_loop ts (wrap_i32 (c + 1)))"

declare get_tid_loop.simps [code]

definition get_tid :: "kernel \<Rightarrow> (task_id \<times> kernel) option" where
  "get_tid k = do {
     (tid, c) \<leftarrow> get_tid_loop (k_tasks k) (k_tid_counter k);
     Some (tid, k\<lparr>k_tid_counter := c\<rparr>)
   }"

text \<open>\<^verbatim>\<open>Rc::new(RefCell::new(task))\<close>.\<close>

definition alloc_task :: "task \<Rightarrow> kernel \<Rightarrow> tref \<times> kernel" where
  "alloc_task t k = (k_next_task k,
     k\<lparr>k_store := (k_store k)(k_next_task k := t), k_next_task := Suc (k_next_task k)\<rparr>)"

text \<open>\<^verbatim>\<open>impl From<NewTask> for Task\<close>; the frame is written to memory.\<close>

definition task_from :: "platform \<Rightarrow> new_task \<Rightarrow> memory \<Rightarrow> task \<times> memory" where
  "task_from pf nt m =
     (let t = task_new (nt_tid nt) (nt_core_id nt) Ready (nt_prio nt) (nt_stacks nt) (nt_object_map nt)
                (placeholder_entry pf);
          (t1, m1) = create_stack_frame (task_start pf) (tls_pointer pf) (nt_func nt) (nt_arg nt) t m
      in (t1\<lparr>t_entry := nt_func nt, t_entry_arg := nt_arg nt, t_entry_point_id := AppTask\<rparr>, m1))"

definition task_new_idle :: "platform \<Rightarrow> task_id \<Rightarrow> core_id \<Rightarrow> task_stacks \<Rightarrow> objmap_ref \<Rightarrow> memory \<Rightarrow> task \<times> memory" where
  "task_new_idle pf tid core stacks object_map m =
     (let t = \<lparr>t_id = tid, t_status = Idle, t_prio = IDLE_PRIO, t_last_stack_pointer = 0,
               t_user_stack_pointer = 0, t_core_id = core, t_stacks = stacks, t_frame_location = InSlot,
               t_slot = None, t_wake_pending = False, t_last_touch = 0, t_object_map = object_map,
               t_entry = idle_entry pf, t_entry_arg = 0, t_entry_point_id = IdleEntry\<rparr>
      in create_stack_frame (task_start pf) (tls_pointer pf) (idle_entry pf) 0 t m)"

section \<open>Spawning\<close>

definition wakeup_core :: "core_id \<Rightarrow> kernel \<Rightarrow> kernel" where
  "wakeup_core core k = k\<lparr>k_ipis := k_ipis k @ [core]\<rparr>"

definition get_scheduler_input :: "core_id \<Rightarrow> kernel \<Rightarrow> scheduler_input option" where
  "get_scheduler_input core k = (if unat core < length (k_inputs k) then Some (k_inputs k ! unat core) else None)"

definition clone_current_task_object_map :: "kernel \<Rightarrow> objmap_ref \<times> kernel" where
  "clone_current_task_object_map k =
     (let fresh = k_next_objmap k
      in (fresh, k\<lparr>k_objmaps := clone_object_map (k_objmaps k) (t_object_map (k_store k (k_current k))) fresh,
                   k_next_objmap := Suc fresh\<rparr>))"

text \<open>The part that \<open>spawn\<close> and \<open>clone_impl\<close> share: registering the task and handing it to its core.\<close>

definition enqueue_new_task :: "platform \<Rightarrow> new_task \<Rightarrow> kernel \<Rightarrow> kernel option" where
  "enqueue_new_task pf nt k = do {
     input \<leftarrow> get_scheduler_input (nt_core_id nt) k;
     let k1 = k\<lparr>k_waiting := (k_waiting k)(nt_tid nt \<mapsto> []),
                k_tasks := (k_tasks k)(nt_tid nt \<mapsto> handle_new (nt_tid nt) (nt_prio nt) (nt_core_id nt)),
                k_no_tasks := k_no_tasks k + 1\<rparr>;
     if nt_core_id nt = k_core k1
     then do {
       let (t, m) = task_from pf nt (k_mem k1);
       let (r, k2) = alloc_task t (k1\<lparr>k_mem := m\<rparr>);
       q \<leftarrow> rq_push (k_store k2) (cs_ready (k_sched k2)) r;
       Some (with_sched (cs_ready_update (\<lambda>_. q)) k2)
     }
     else Some (wakeup_core (nt_core_id nt)
       (k1\<lparr>k_inputs := (k_inputs k1)[unat (nt_core_id nt) := input\<lparr>new_tasks := new_tasks input @ [nt]\<rparr>]\<rparr>))
   }"

definition spawn_on_core ::
    "platform \<Rightarrow> u64 \<Rightarrow> u64 \<Rightarrow> priority \<Rightarrow> core_id \<Rightarrow> u64 \<Rightarrow> kernel \<Rightarrow> (task_id \<times> kernel) option" where
  "spawn_on_core pf func arg prio core stack_size k = do {
     (tid, k1) \<leftarrow> get_tid k;
     (stacks, maps, m) \<leftarrow> stacks_new (page_align_up pf) (page_allocate pf) (frame_allocate pf) stack_size (k_mem k1);
     let (om, k2) = clone_current_task_object_map (k1\<lparr>k_mem := m\<rparr>);
     let nt = \<lparr>nt_tid = tid, nt_func = func, nt_arg = arg, nt_prio = prio, nt_core_id = core,
               nt_stacks = stacks, nt_object_map = om\<rparr>;
     k3 \<leftarrow> enqueue_new_task pf nt k2;
     Some (tid, k3)
   }"

text \<open>\<open>clone_impl\<close>: a copy of the current task on the next core; \<open>next_core\<close> is its static counter.\<close>

definition clone_impl ::
    "platform \<Rightarrow> u64 \<Rightarrow> u64 \<Rightarrow> u32 \<Rightarrow> kernel \<Rightarrow> (task_id \<times> u32 \<times> kernel) option" where
  "clone_impl pf func arg next_core k = do {
     let (core, next_core1) = (if next_core = processor_count pf then (0, 0) else (next_core, next_core + 1));
     let cur = k_store k (k_current k);
     (tid, k1) \<leftarrow> get_tid k;
     (stacks, maps, m) \<leftarrow> stacks_new (page_align_up pf) (page_allocate pf) (frame_allocate pf)
        (get_user_stack_size (t_stacks cur)) (k_mem k1);
     let (om, k2) = clone_current_task_object_map (k1\<lparr>k_mem := m\<rparr>);
     let nt = \<lparr>nt_tid = tid, nt_func = func, nt_arg = arg, nt_prio = t_prio cur, nt_core_id = core,
               nt_stacks = stacks, nt_object_map = om\<rparr>;
     k3 \<leftarrow> enqueue_new_task pf nt k2;
     Some (tid, next_core1, k3)
   }"

text \<open>\<open>spawn\<close>: a negative selector takes the cores in turn.\<close>

definition spawn ::
    "platform \<Rightarrow> u64 \<Rightarrow> u64 \<Rightarrow> priority \<Rightarrow> u64 \<Rightarrow> int \<Rightarrow> kernel \<Rightarrow> (task_id \<times> kernel) option" where
  "spawn pf func arg prio stack_size selector k =
     (if selector < 0
      then if processor_count pf = 0 then None
           else spawn_on_core pf func arg prio (k_core_counter k mod processor_count pf) stack_size
                  (k\<lparr>k_core_counter := k_core_counter k + 1\<rparr>)
      else spawn_on_core pf func arg prio (word_of_int selector) stack_size k)"

section \<open>Waking and blocking\<close>

definition is_scheduling :: "kernel \<Rightarrow> bool" where
  "is_scheduling k \<longleftrightarrow> t_prio (k_store k (k_current k)) < rq_get_highest_priority (cs_ready (k_sched k))"

definition wake_pending_tasks :: "u64 \<Rightarrow> kernel \<Rightarrow> kernel option" where
  "wake_pending_tasks now k = do {
     let s = k_sched k;
     (h, list, ts, q) \<leftarrow> bq_handle_waiting_tasks (k_core k) now (k_store k) (cs_blocked s) (cs_timers s) (cs_ready s);
     Some (k\<lparr>k_store := h, k_sched := s\<lparr>cs_blocked := list, cs_timers := ts, cs_ready := q\<rparr>\<rparr>)
   }"

definition handle_waiting_tasks :: "(kernel \<Rightarrow> kernel) \<Rightarrow> u64 \<Rightarrow> kernel \<Rightarrow> kernel option" where
  "handle_waiting_tasks executor now k =
     wake_pending_tasks now (if k_core k = 0 then executor k else k)"

text \<open>Waking a task of this core: the common part of \<open>custom_wakeup\<close> and \<open>check_input\<close>.\<close>

definition wake_local :: "task_handle \<Rightarrow> kernel \<Rightarrow> kernel option" where
  "wake_local handle k = do {
     let s = k_sched k;
     (r, completed, h, list, ts) \<leftarrow> bq_custom_wakeup (k_core k) (k_store k) (cs_blocked s) (cs_timers s) handle;
     let k1 = k\<lparr>k_store := h, k_sched := s\<lparr>cs_blocked := list, cs_timers := ts\<rparr>\<rparr>;
     if completed
     then do {
       q \<leftarrow> rq_push h (cs_ready (k_sched k1)) r;
       Some (with_sched (cs_ready_update (\<lambda>_. q)) k1)
     }
     else Some k1
   }"

definition custom_wakeup :: "task_handle \<Rightarrow> kernel \<Rightarrow> kernel option" where
  "custom_wakeup handle k =
     (if handle_core_id handle = k_core k then wake_local handle k
      else do {
        input \<leftarrow> get_scheduler_input (handle_core_id handle) k;
        Some (wakeup_core (handle_core_id handle)
          (k\<lparr>k_inputs := (k_inputs k)[unat (handle_core_id handle) :=
               input\<lparr>wakeup_tasks := wakeup_tasks input @ [handle]\<rparr>]\<rparr>))
      })"

definition block_current_task :: "u64 option \<Rightarrow> kernel \<Rightarrow> kernel option" where
  "block_current_task wakeup_time k = do {
     let s = k_sched k;
     (h, list, ts) \<leftarrow> bq_add (k_store k) (cs_blocked s) (cs_timers s) (k_current k) wakeup_time;
     Some (k\<lparr>k_store := h, k_sched := s\<lparr>cs_blocked := list, cs_timers := ts\<rparr>\<rparr>)
   }"

definition get_current_task_handle :: "kernel \<Rightarrow> task_handle" where
  "get_current_task_handle k =
     (let t = k_store k (k_current k) in handle_new (t_id t) (t_prio t) (t_core_id t))"

definition get_current_task_id :: "kernel \<Rightarrow> task_id" where
  "get_current_task_id k = t_id (k_store k (k_current k))"

definition get_current_task_kernel_stack_top :: "kernel \<Rightarrow> u64" where
  "get_current_task_kernel_stack_top k =
     (let st = t_stacks (k_store k (k_current k)) in get_kernel_stack st + get_kernel_stack_size st)"

definition get_current_task_prio :: "kernel \<Rightarrow> priority" where
  "get_current_task_prio k = t_prio (k_store k (k_current k))"

section \<open>Priorities and the FPU\<close>

definition set_current_task_priority :: "priority \<Rightarrow> kernel \<Rightarrow> kernel" where
  "set_current_task_priority prio k = with_current (t_prio_update (\<lambda>_. prio)) k"

definition get_task_handle :: "task_id \<Rightarrow> kernel \<Rightarrow> task_handle option" where
  "get_task_handle i k = k_tasks k i"

text \<open>The result is \<^const>\<open>False\<close> for the error result of the source (no such task).\<close>

definition set_priority :: "task_id \<Rightarrow> priority \<Rightarrow> kernel \<Rightarrow> (bool \<times> kernel) option" where
  "set_priority i prio k =
     (case get_task_handle i k of
        None \<Rightarrow> Some (False, k)
      | Some handle \<Rightarrow>
          if handle_core_id handle \<noteq> k_core k then Some (True, k)
          else if t_id (k_store k (k_current k)) = handle_id handle
          then Some (True, with_current (t_prio_update (\<lambda>_. prio)) k)
          else do {
            (ok, h, q) \<leftarrow> rq_set_priority (k_store k) (cs_ready (k_sched k)) handle prio;
            guard ok;
            Some (True, with_sched (cs_ready_update (\<lambda>_. q)) (k\<lparr>k_store := h\<rparr>))
          })"

definition fpu_switch :: "kernel \<Rightarrow> kernel" where
  "fpu_switch k =
     (if k_current k \<noteq> fpu_owner (k_sched k)
      then with_sched (fpu_owner_update (\<lambda>_. k_current k)) k
      else k)"

section \<open>Ending a task\<close>

text \<open>The loop that wakes the tasks which wait for the end of the task.\<close>

fun wake_all :: "task_handle list \<Rightarrow> kernel \<Rightarrow> kernel option" where
  "wake_all [] k = Some k"
| "wake_all (handle # handles) k = do {
     k1 \<leftarrow> custom_wakeup handle k;
     wake_all handles k1
   }"

text \<open>\<open>exit\<close> up to the request for a reschedule: \<open>exit_finish\<close> ends the task, \<open>exit_restart\<close> asks the
  supervisor. The entry point of the dead task is only used when it lies inside the kernel image.\<close>

definition exit_finish :: "kernel \<Rightarrow> kernel option" where
  "exit_finish k = do {
     guard (t_status (k_store k (k_current k)) \<noteq> Idle);
     let k1 = (with_current (t_status_update (\<lambda>_. Finished)) k)\<lparr>k_no_tasks := k_no_tasks k - 1\<rparr>;
     let cur = k_store k1 (k_current k1);
     slots \<leftarrow> (if t_frame_location cur = InSlot then release_slot (k_core k1) (k_slots k1) cur else Some (k_slots k1));
     let k2 = k1\<lparr>k_slots := slots\<rparr>;
     let current_id = t_id cur;
     k3 \<leftarrow> (case k_waiting k2 current_id of
              None \<Rightarrow> Some k2
            | Some queue \<Rightarrow> wake_all queue (k2\<lparr>k_waiting := (k_waiting k2)(current_id := None)\<rparr>));
     Some (k3\<lparr>k_tasks := (k_tasks k3)(current_id := None)\<rparr>)
   }"

definition entry_in_image :: "platform \<Rightarrow> u64 \<Rightarrow> bool" where
  "entry_in_image pf entry \<longleftrightarrow> kernel_image_start pf \<le> entry \<and> entry < kernel_image_end pf"

definition exit_restart :: "platform \<Rightarrow> u64 \<Rightarrow> kernel \<Rightarrow> kernel option" where
  "exit_restart pf now k = do {
     let finished = k_store k (k_current k);
     (restart, table) \<leftarrow> should_restart now (t_entry_point_id finished) (k_restart k);
     let k1 = k\<lparr>k_restart := table\<rparr>;
     if restart
     then if t_entry finished = 0 \<or> t_entry finished = u64_max \<or> \<not> entry_in_image pf (t_entry finished)
          then Some k1
          else map_option snd (spawn_on_core pf (t_entry finished) (t_entry_arg finished) (t_prio finished)
                 (k_core k1) DEFAULT_STACK_SIZE k1)
     else Some k1
   }"

definition task_exit :: "platform \<Rightarrow> u64 \<Rightarrow> kernel \<Rightarrow> kernel option" where
  "task_exit pf now k = do {
     k1 \<leftarrow> exit_finish k;
     exit_restart pf now k1
   }"

definition cleanup_tasks :: "kernel \<Rightarrow> nat \<times> kernel" where
  "cleanup_tasks k = (length (finished_tasks (k_sched k)), with_sched (finished_tasks_update (\<lambda>_. [])) k)"

section \<open>Input from other cores\<close>

fun take_wakeups :: "task_handle list \<Rightarrow> kernel \<Rightarrow> kernel option" where
  "take_wakeups [] k = Some k"
| "take_wakeups (handle # handles) k = do {
     k1 \<leftarrow> wake_local handle k;
     take_wakeups handles k1
   }"

fun take_new_tasks :: "platform \<Rightarrow> new_task list \<Rightarrow> kernel \<Rightarrow> kernel option" where
  "take_new_tasks pf [] k = Some k"
| "take_new_tasks pf (nt # nts) k = do {
     let (t, m) = task_from pf nt (k_mem k);
     let (r, k1) = alloc_task t (k\<lparr>k_mem := m\<rparr>);
     q \<leftarrow> rq_push (k_store k1) (cs_ready (k_sched k1)) r;
     take_new_tasks pf nts (with_sched (cs_ready_update (\<lambda>_. q)) k1)
   }"

definition check_input :: "platform \<Rightarrow> kernel \<Rightarrow> kernel option" where
  "check_input pf k = do {
     input \<leftarrow> get_scheduler_input (k_core k) k;
     let k1 = k\<lparr>k_inputs := (k_inputs k)[unat (k_core k) := scheduler_input_new]\<rparr>;
     k2 \<leftarrow> take_wakeups (wakeup_tasks input) k1;
     take_new_tasks pf (new_tasks input) k2
   }"

section \<open>Slots for the next task\<close>

text \<open>One call of a slot operation on the task \<open>r\<close>.\<close>

definition try_slot ::
    "(u64 \<Rightarrow> core_id \<Rightarrow> slot_pool \<Rightarrow> memory \<Rightarrow> task \<Rightarrow> (bool \<times> slot_pool \<times> memory \<times> task) option) \<Rightarrow>
     platform \<Rightarrow> tref \<Rightarrow> kernel \<Rightarrow> (bool \<times> kernel) option" where
  "try_slot op pf r k = do {
     (ok, pool, m, t) \<leftarrow> op (slot_base pf) (k_core k) (k_slots k) (k_mem k) (k_store k r);
     Some (ok, k\<lparr>k_slots := pool, k_mem := m, k_store := (k_store k)(r := t)\<rparr>)
   }"

text \<open>
  The eviction loop; \<open>n\<close> is the number of evictions that are left. The \<^verbatim>\<open>continue\<close> for a victim
  without a slot would choose the same victim for ever and has no result; no victim is of this
  kind. The result says whether the task got a slot.
\<close>

fun evict_loop :: "nat \<Rightarrow> platform \<Rightarrow> u64 \<Rightarrow> tref \<Rightarrow> kernel \<Rightarrow> (bool \<times> kernel) option" where
  "evict_loop n pf now r k = do {
     victim \<leftarrow> select_eviction_victim now (k_store k) (cs_blocked (k_sched k)) (t_id (k_store k r));
     (case victim of
        None \<Rightarrow> Some (False, k)
      | Some v \<Rightarrow> do {
          slot_idx \<leftarrow> t_slot (k_store k v);
          (woken, k1) \<leftarrow> try_slot (\<lambda>b c p m t. evict_victim b c p m t slot_idx) pf v k;
          k2 \<leftarrow> (if woken
                 then do {
                   (completed, h) \<leftarrow> mark_ready (k_core k1) (k_store k1) v;
                   let k1a = k1\<lparr>k_store := h\<rparr>;
                   if completed
                   then do {
                     q \<leftarrow> rq_push h (cs_ready (k_sched k1a)) v;
                     Some (with_sched (cs_ready_update (\<lambda>_. q)) k1a)
                   }
                   else Some k1a
                 }
                 else Some k1);
          (ok, k3) \<leftarrow> try_slot dispatch_acquire_slot pf r k2;
          if ok then Some (True, k3)
          else (case n of
                  0 \<Rightarrow> Some (False, k3)
                | Suc 0 \<Rightarrow> Some (False, k3)
                | Suc (Suc n') \<Rightarrow> evict_loop (Suc n') pf now r k3)
        })
   }"

declare evict_loop.simps [simp del]

definition in_place :: "kernel \<Rightarrow> tref \<Rightarrow> bool" where
  "in_place k r \<longleftrightarrow>
     (let t = k_store k r
      in (t_slot t \<noteq> None \<and> t_frame_location t = InSlot) \<or>
         (t_last_stack_pointer t \<noteq> 0 \<and> bit (k_mem k (t_last_stack_pointer t)) 0))"

definition ensure_slot :: "platform \<Rightarrow> u64 \<Rightarrow> tref \<Rightarrow> kernel \<Rightarrow> kernel option" where
  "ensure_slot pf now r k = do {
     let k0 = k\<lparr>k_store := (k_store k)(r := (k_store k r)\<lparr>t_last_touch := from_micros now\<rparr>)\<rparr>;
     if in_place k0 r then Some k0
     else do {
       (resumed, k1) \<leftarrow> (if t_frame_location (k_store k0 r) = Evicted
                         then try_slot resume_from_evicted pf r k0 else Some (False, k0));
       if resumed then Some k1
       else do {
         (ok, k2) \<leftarrow> try_slot dispatch_acquire_slot pf r k1;
         if ok then Some k2
         else do {
           (ok2, k3) \<leftarrow> evict_loop (SLOTS_PER_CORE - 1) pf now r k2;
           if ok2 then Some k3
           else map_option snd (try_slot dispatch_acquire_slot pf r k3)
         }
       }
     }
   }"

section \<open>The scheduler\<close>

text \<open>The first part of \<open>scheduler\<close>: the task to switch to, if any, and the bookkeeping for a task that
  has ended.\<close>

definition choose_task :: "kernel \<Rightarrow> (tref option \<times> kernel) option" where
  "choose_task k =
     (let s = k_sched k; cur = current_task s; t = k_store k cur
      in if t_status t = Running
         then do {
           (new_task, q) \<leftarrow> rq_pop_with_prio (cs_ready s) (t_prio t);
           Some (new_task, with_sched (cs_ready_update (\<lambda>_. q)) k)
         }
         else do {
           let k1 = (if t_status t = Finished
                     then (let s1 = (if fpu_owner s = cur then s\<lparr>fpu_owner := idle_task s\<rparr> else s)
                           in k\<lparr>k_store := (k_store k)(cur := t\<lparr>t_status := Invalid\<rparr>),
                                k_sched := s1\<lparr>finished_tasks := finished_tasks s1 @ [cur]\<rparr>\<rparr>)
                     else k);
           (new_task, q) \<leftarrow> rq_pop (cs_ready (k_sched k1));
           let k2 = with_sched (cs_ready_update (\<lambda>_. q)) k1;
           Some (case new_task of
                   Some r \<Rightarrow> Some r
                 | None \<Rightarrow> if t_status t \<noteq> Idle then Some (idle_task s) else None, k2)
         })"

text \<open>The second part: the running task goes back to the ready queue, the new one gets a slot and becomes
  the current task. The result is the control block whose stack pointer the context switch saves.\<close>

definition requeue :: "bool \<Rightarrow> kernel \<Rightarrow> kernel option" where
  "requeue was_running k =
     (if was_running
      then do {
        let h = (k_store k)(k_current k := (k_store k (k_current k))\<lparr>t_status := Ready\<rparr>);
        q \<leftarrow> rq_push h (cs_ready (k_sched k)) (k_current k);
        Some (with_sched (cs_ready_update (\<lambda>_. q)) (k\<lparr>k_store := h\<rparr>))
      }
      else Some k)"

definition mark_running :: "tref \<Rightarrow> kernel \<Rightarrow> kernel" where
  "mark_running r k =
     k\<lparr>k_kernel_sp := get_kernel_stack (t_stacks (k_store k r)) + get_kernel_stack_size (t_stacks (k_store k r)),
       k_store := (if t_status (k_store k r) \<noteq> Idle
                   then (k_store k)(r := (k_store k r)\<lparr>t_status := Running\<rparr>) else k_store k)\<rparr>"

definition switch_to :: "platform \<Rightarrow> u64 \<Rightarrow> bool \<Rightarrow> task_id \<Rightarrow> tref \<Rightarrow> kernel \<Rightarrow> (tref option \<times> kernel) option" where
  "switch_to pf now was_running cid r k = do {
     k1 \<leftarrow> requeue was_running k;
     k2 \<leftarrow> ensure_slot pf now r k1;
     let k3 = mark_running r k2;
     if cid = t_id (k_store k3 r) then Some (None, k3)
     else Some (Some (k_current k), with_sched (current_task_update (\<lambda>_. r)) k3)
   }"

definition scheduler ::
    "(kernel \<Rightarrow> kernel) \<Rightarrow> platform \<Rightarrow> u64 \<Rightarrow> bool \<Rightarrow> kernel \<Rightarrow> (tref option \<times> kernel) option" where
  "scheduler executor pf now drain_exec k = do {
     let k1 = (if drain_exec \<and> k_core k = 0 then executor k else k);
     let (reaped, k2) = cleanup_tasks k1;
     let k3 = (if 0 < reaped \<and> k_core k2 = 0 then k2\<lparr>k_nic_flushes := Suc (k_nic_flushes k2)\<rparr> else k2);
     let cur = k_store k3 (k_current k3);
     (new_task, k4) \<leftarrow> choose_task k3;
     (case new_task of
        None \<Rightarrow> Some (None, k4)
      | Some r \<Rightarrow> switch_to pf now (t_status cur = Running) (t_id cur) r k4)
   }"

section \<open>Joining, and the first task of a core\<close>

text \<open>One turn of the loop of \<open>join\<close>: \<^const>\<open>False\<close> when the task has ended; otherwise the caller is queued,
  blocked, and asks for a reschedule before the next turn.\<close>

definition join_step :: "task_id \<Rightarrow> kernel \<Rightarrow> (bool \<times> kernel) option" where
  "join_step i k =
     (case k_waiting k i of
        None \<Rightarrow> Some (False, k)
      | Some queue \<Rightarrow> do {
          let k1 = k\<lparr>k_waiting := (k_waiting k)(i \<mapsto> queue @ [get_current_task_handle k])\<rparr>;
          k2 \<leftarrow> block_current_task None k1;
          Some (True, k2)
        })"

definition add_current_core :: "platform \<Rightarrow> core_id \<Rightarrow> kernel \<Rightarrow> kernel option" where
  "add_current_core pf core k = do {
     (tid, k1) \<leftarrow> get_tid k;
     (stacks, maps, m) \<leftarrow> stacks_new (page_align_up pf) (page_allocate pf) (frame_allocate pf)
        DEFAULT_STACK_SIZE (k_mem k1);
     let om = k_next_objmap k1;
     let (t, m1) = task_new_idle pf tid core stacks om m;
     let (r, k2) = alloc_task t (k1\<lparr>k_mem := m1, k_next_objmap := Suc om,
                     k_objmaps := (k_objmaps k1)(om := new_object_map (stdio_object pf))\<rparr>);
     guard (unat core \<le> length (k_inputs k2));
     Some (k2\<lparr>k_waiting := (k_waiting k2)(tid \<mapsto> []),
              k_tasks := (k_tasks k2)(tid \<mapsto> handle_new tid IDLE_PRIO core),
              k_sched := \<lparr>cs_core_id = core, current_task = r, idle_task = r, fpu_owner = r, cs_ready = rq_new,
                finished_tasks = [], cs_blocked = [],
                cs_timers = \<lparr>timers = timer_list_new, oneshot = None, net_wakes = 0\<rparr>\<rparr>,
              k_inputs := take (unat core) (k_inputs k2) @ [scheduler_input_new] @ drop (unat core) (k_inputs k2)\<rparr>)
   }"

end
