(* ===== verification/Scheduling.thy ===== *)
theory Scheduling
  imports Percore_Scheduler
begin

text \<open>
  The invariant of a core's scheduler and what its operations do: which task runs next, that slots are
  found or the task runs in place, and that blocking, waking, ending and switching keep the queues,
  the timer and the slot table consistent.
\<close>

section \<open>Changes by the slot operations\<close>

text \<open>A slot operation changes where the frame of a task is, and nothing else of the task.\<close>

definition slot_change :: "task \<Rightarrow> task \<Rightarrow> bool" where
  "slot_change t t' \<longleftrightarrow>
     t' = t\<lparr>t_last_stack_pointer := t_last_stack_pointer t', t_slot := t_slot t',
            t_frame_location := t_frame_location t', t_wake_pending := t_wake_pending t',
            t_last_touch := t_last_touch t'\<rparr> \<and>
     (t_wake_pending t' \<longrightarrow> t_wake_pending t) \<and>
     (t_frame_location t' = BeingEvicted \<longrightarrow> t_frame_location t = BeingEvicted)"

lemma slot_change_refl [simp]: "slot_change t t"
  by (simp add: slot_change_def)

lemma slot_change_fields:
  assumes "slot_change t t'"
  shows "t_id t' = t_id t" "t_status t' = t_status t" "t_prio t' = t_prio t" "t_core_id t' = t_core_id t"
    "t_stacks t' = t_stacks t" "t_object_map t' = t_object_map t" "t_entry t' = t_entry t"
    "t_entry_point_id t' = t_entry_point_id t"
proof -
  have "t' = t\<lparr>t_last_stack_pointer := t_last_stack_pointer t', t_slot := t_slot t',
      t_frame_location := t_frame_location t', t_wake_pending := t_wake_pending t',
      t_last_touch := t_last_touch t'\<rparr>" (is "_ = ?u")
    using assms by (simp add: slot_change_def)
  then have eq: "f t' = f ?u" for f :: "task \<Rightarrow> 'a" by metis
  show "t_id t' = t_id t" by (subst eq) simp
  show "t_status t' = t_status t" by (subst eq) simp
  show "t_prio t' = t_prio t" by (subst eq) simp
  show "t_core_id t' = t_core_id t" by (subst eq) simp
  show "t_stacks t' = t_stacks t" by (subst eq) simp
  show "t_object_map t' = t_object_map t" by (subst eq) simp
  show "t_entry t' = t_entry t" by (subst eq) simp
  show "t_entry_point_id t' = t_entry_point_id t" by (subst eq) simp
qed

lemma slot_change_trans: "slot_change t t' \<Longrightarrow> slot_change t' t'' \<Longrightarrow> slot_change t t''"
  by (cases t; cases t'; cases t'') (auto simp: slot_change_def)

definition slot_step :: "kernel \<Rightarrow> kernel \<Rightarrow> bool" where
  "slot_step k k' \<longleftrightarrow>
     k' = k\<lparr>k_store := k_store k', k_slots := k_slots k', k_mem := k_mem k'\<rparr> \<and>
     (\<forall>r. slot_change (k_store k r) (k_store k' r))"

lemma slot_step_refl [simp]: "slot_step k k"
  by (simp add: slot_step_def)

lemma slot_step_trans: "slot_step k k' \<Longrightarrow> slot_step k' k'' \<Longrightarrow> slot_step k k''"
  by (cases k; cases k'; cases k'') (auto simp: slot_step_def intro: slot_change_trans)

lemma slot_stepI:
  "(\<And>s. slot_change (k_store k s) (h s)) \<Longrightarrow> slot_step k (k\<lparr>k_slots := p, k_mem := m, k_store := h\<rparr>)"
  by (cases k) (simp add: slot_step_def)

lemma slot_step_storeI:
  "(\<And>s. slot_change (k_store k s) (h s)) \<Longrightarrow> slot_step k (k\<lparr>k_store := h\<rparr>)"
  by (cases k) (simp add: slot_step_def)

lemma slot_step_sched:
  assumes "slot_step k k'"
  shows "k_sched k' = k_sched k" "k_tasks k' = k_tasks k" "k_waiting k' = k_waiting k" "k_no_tasks k' = k_no_tasks k"
    "k_objmaps k' = k_objmaps k"
  using assms by (cases k; cases k'; simp add: slot_step_def)+

lemma slot_step_task: "slot_step k k' \<Longrightarrow> slot_change (k_store k r) (k_store k' r)"
  by (simp add: slot_step_def)

lemmas slot_step_fields = slot_change_fields [OF slot_step_task]

lemma slot_step_wake: "slot_step k k' \<Longrightarrow> \<not> t_wake_pending (k_store k r) \<Longrightarrow> \<not> t_wake_pending (k_store k' r)"
  using slot_step_task [of k k' r] by (auto simp: slot_change_def)

section \<open>Finding a slot\<close>

text \<open>What \<open>ensure_slot\<close> relies on: the slot table describes the tasks \<open>R\<close>, the blocked tasks are among them,
  the new task is one of them and not blocked, and no wake-up is pending.\<close>

definition slot_pre :: "platform \<Rightarrow> tref \<Rightarrow> tref set \<Rightarrow> kernel \<Rightarrow> bool" where
  "slot_pre pf r R k \<longleftrightarrow>
     slots_ok (slot_base pf) (k_core k) (k_store k) R (k_slots k) \<and> r \<in> R \<and>
     bt_task ` set (cs_blocked (k_sched k)) \<subseteq> R - {r} \<and> (\<forall>s \<in> R. \<not> t_wake_pending (k_store k s))"

lemma slot_pre_step:
  assumes "slot_pre pf r R k" and "slot_step k k'"
    and "slots_ok (slot_base pf) (k_core k) (k_store k') R (k_slots k')"
  shows "slot_pre pf r R k'"
  using assms slot_step_sched(1) [OF assms(2)] slot_step_wake [OF assms(2)] by (auto simp: slot_pre_def)

lemma try_dispatch:
  assumes pre: "slot_pre pf r R k" and "t_slot (k_store k r) = None"
  shows "\<exists>ok k'. try_slot dispatch_acquire_slot pf r k = Some (ok, k') \<and> slot_pre pf r R k' \<and> slot_step k k' \<and>
    (ok \<longleftrightarrow> t_slot (k_store k' r) \<noteq> None) \<and> (\<forall>s. s \<noteq> r \<longrightarrow> k_store k' s = k_store k s) \<and>
    (\<not> ok \<longrightarrow> - 1 \<notin> set (k_slots k ! unat (k_core k)))"
proof -
  have ok: "slots_ok (slot_base pf) (k_core k) (k_store k) R (k_slots k)" and r: "r \<in> R"
    using pre by (simp_all add: slot_pre_def)
  note D = slots_okD [OF ok]
  show ?thesis
  proof (cases rule: dispatch_acquire_slot_cases
      [OF D(2,1), of "slot_base pf" "k_mem k" "k_store k r", case_names exhausted acquired])
    case exhausted
    then have run: "try_slot dispatch_acquire_slot pf r k = Some (False, k)"
      by (simp add: try_slot_def)
    show ?thesis
      unfolding run using pre assms(2) exhausted(1) by auto
  next
    case (acquired i)
    let ?t = "(k_store k r)\<lparr>t_last_stack_pointer := slot_top (slot_base pf) (k_core k) i - STATE_SIZE, t_slot := Some i,
      t_frame_location := InSlot, t_wake_pending := False\<rparr>"
    let ?p = "(k_slots k)[unat (k_core k) := (k_slots k ! unat (k_core k))[i := tid_into (t_id (k_store k r))]]"
    let ?m = "copy_words STATE_WORDS (t_last_stack_pointer (k_store k r)) (slot_top (slot_base pf) (k_core k) i - STATE_SIZE) (k_mem k)"
    let ?k = "k\<lparr>k_slots := ?p, k_mem := ?m, k_store := (k_store k)(r := ?t)\<rparr>"
    have run: "try_slot dispatch_acquire_slot pf r k = Some (True, ?k)"
      using acquired(4) by (simp add: try_slot_def)
    have step: "slot_step k ?k"
      by (rule slot_stepI) (simp add: slot_change_def)
    have "slots_ok (slot_base pf) (k_core k) ((k_store k)(r := ?t)) R ?p"
      using acquired(1,2) D(3) by (intro slots_ok_acquire [OF ok r assms(2)]) simp_all
    then have "slot_pre pf r R ?k"
      by (intro slot_pre_step [OF pre step]) simp
    with run step show ?thesis by auto
  qed
qed

lemma try_resume:
  assumes "t_frame_location (k_store k r) = Evicted"
  shows "try_slot resume_from_evicted pf r k = try_slot dispatch_acquire_slot pf r k"
  using assms by (simp add: try_slot_def resume_from_evicted_eq)

lemma try_evict:
  assumes pre: "slot_pre pf r R k" and v: "v \<in> R" "v \<noteq> r" "t_slot (k_store k v) = Some i"
  shows "\<exists>k'. try_slot (\<lambda>b c p m t. evict_victim b c p m t i) pf v k = Some (False, k') \<and> slot_pre pf r R k' \<and>
    slot_step k k' \<and> k_store k' r = k_store k r \<and> - 1 \<in> set (k_slots k' ! unat (k_core k))"
proof -
  have ok: "slots_ok (slot_base pf) (k_core k) (k_store k) R (k_slots k)"
    and nw: "\<not> t_wake_pending (k_store k v)"
    using pre v(1) by (simp_all add: slot_pre_def)
  note D = slots_okD [OF ok]
  have i: "i < 3" "t_frame_location (k_store k v) = InSlot" using D(6) [OF v(1,3)] by auto
  let ?t = "(k_store k v)\<lparr>t_frame_location := Evicted, t_slot := None, t_wake_pending := False\<rparr>"
  let ?p = "(k_slots k)[unat (k_core k) := (k_slots k ! unat (k_core k))[i := - 1]]"
  let ?m = "copy_words STATE_WORDS (slot_top (slot_base pf) (k_core k) i - STATE_SIZE)
    (t_last_stack_pointer (k_store k v)) (k_mem k)"
  let ?k = "k\<lparr>k_slots := ?p, k_mem := ?m, k_store := (k_store k)(v := ?t)\<rparr>"
  have run: "try_slot (\<lambda>b c p m t. evict_victim b c p m t i) pf v k = Some (False, ?k)"
    using evict_victim_eq [OF v(3) i(2) D(2), of i "k_slots k" "slot_base pf" "k_mem k"] i(1) D(3) nw
    by (simp add: try_slot_def)
  have step: "slot_step k ?k"
    by (rule slot_stepI) (simp add: slot_change_def)
  have "slots_ok (slot_base pf) (k_core k) ((k_store k)(v := ?t)) R ?p"
    by (rule slots_ok_vacate [OF ok v(1,3)]) simp_all
  then have "slot_pre pf r R ?k"
    by (intro slot_pre_step [OF pre step]) simp
  moreover have "- 1 \<in> set (k_slots ?k ! unat (k_core k))"
    using D(1-3) i(1) by (simp add: set_update_memI)
  ultimately show ?thesis
    using run step v(2) by auto
qed

lemma select_victim_in_blocked:
  assumes pre: "slot_pre pf r R k"
  obtains (none) "select_eviction_victim now (k_store k) (cs_blocked (k_sched k)) (t_id (k_store k r)) = Some None"
  | (victim) v i where
      "select_eviction_victim now (k_store k) (cs_blocked (k_sched k)) (t_id (k_store k r)) = Some (Some v)"
      "v \<in> R" "v \<noteq> r" "t_slot (k_store k v) = Some i"
proof -
  let ?sel = "select_eviction_victim now (k_store k) (cs_blocked (k_sched k)) (t_id (k_store k r))"
  have inj: "inj_on (\<lambda>s. t_id (k_store k s)) R" and r: "r \<in> R"
    and sub: "bt_task ` set (cs_blocked (k_sched k)) \<subseteq> R - {r}"
    using pre slots_okD(4) by (auto simp: slot_pre_def)
  have "t_id (k_store k (bt_task node)) \<noteq> t_id (k_store k r)" if "node \<in> set (cs_blocked (k_sched k))" for node
    using that inj_onD [OF inj, of "bt_task node" r] sub r by auto
  then have "?sel \<noteq> None"
    by (auto simp: select_eviction_victim_def list_all_iff)
  then consider "?sel = Some None" | v where "?sel = Some (Some v)"
    by (metis not_Some_eq)
  then show thesis
  proof cases
    case 1
    then show ?thesis by (rule none)
  next
    case (2 v)
    from select_eviction_victim_Some [OF 2] obtain node where
      "node \<in> set (cs_blocked (k_sched k))" "bt_task node = v" "eviction_candidate (k_store k) node" by blast
    with sub have "v \<in> R" "v \<noteq> r" "t_slot (k_store k v) \<noteq> None"
      by (auto simp: eviction_candidate_def)
    with 2 victim show ?thesis by blast
  qed
qed

text \<open>One eviction is enough: the slot that it frees goes to the new task.\<close>

lemma evict_loop_ok:
  assumes pre: "slot_pre pf r R k" and slot: "t_slot (k_store k r) = None"
  shows "\<exists>ok k'. evict_loop n pf now r k = Some (ok, k') \<and> slot_pre pf r R k' \<and> slot_step k k' \<and>
    (ok \<longleftrightarrow> t_slot (k_store k' r) \<noteq> None)"
proof (cases rule: select_victim_in_blocked [OF pre, of now, case_names none victim])
  case none
  then have "evict_loop n pf now r k = Some (False, k)"
    by (simp add: evict_loop.simps)
  with pre slot show ?thesis by auto
next
  case (victim v i)
  obtain k1 where k1: "try_slot (\<lambda>b c p m t. evict_victim b c p m t i) pf v k = Some (False, k1)"
    "slot_pre pf r R k1" "slot_step k k1" "k_store k1 r = k_store k r" "- 1 \<in> set (k_slots k1 ! unat (k_core k))"
    using try_evict [OF pre victim(2-4)] by blast
  obtain ok k2 where k2: "try_slot dispatch_acquire_slot pf r k1 = Some (ok, k2)" "slot_pre pf r R k2"
    "slot_step k1 k2" "ok \<longleftrightarrow> t_slot (k_store k2 r) \<noteq> None"
    "\<not> ok \<longrightarrow> - 1 \<notin> set (k_slots k1 ! unat (k_core k1))"
    using try_dispatch [OF k1(2)] slot k1(4) by auto
  have ok using k2(5) k1(5) slot_step_sched(1) [OF k1(3)] by auto
  with victim k1(1) k2(1) have "evict_loop n pf now r k = Some (True, k2)"
    by (simp add: evict_loop.simps)
  with k2 slot_step_trans [OF k1(3) k2(3)] \<open>ok\<close> show ?thesis by auto
qed

lemma ensure_slot_ok:
  assumes pre: "slot_pre pf r R k"
  shows "\<exists>k'. ensure_slot pf now r k = Some k' \<and> slot_pre pf r R k' \<and> slot_step k k'"
proof -
  let ?k0 = "k\<lparr>k_store := (k_store k)(r := (k_store k r)\<lparr>t_last_touch := from_micros now\<rparr>)\<rparr>"
  have ok: "slots_ok (slot_base pf) (k_core k) (k_store k) R (k_slots k)"
    using pre by (simp add: slot_pre_def)
  have s0: "slot_step k ?k0"
    by (rule slot_step_storeI) (simp add: slot_change_def)
  have "slots_ok (slot_base pf) (k_core k) (k_store ?k0) R (k_slots ?k0)"
    by simp (rule slots_ok_cong [OF ok], simp)
  then have pre0: "slot_pre pf r R ?k0"
    by (intro slot_pre_step [OF pre s0])
  show ?thesis
  proof (cases "in_place ?k0 r")
    case True
    then show ?thesis using pre0 s0 by (simp add: ensure_slot_def Let_def)
  next
    case False
    have slot0: "t_slot (k_store ?k0 r) = None"
    proof (rule ccontr)
      assume "t_slot (k_store ?k0 r) \<noteq> None"
      then have "t_frame_location (k_store ?k0 r) = InSlot"
        using pre0 slots_okD(6) by (fastforce simp: slot_pre_def)
      with False \<open>t_slot (k_store ?k0 r) \<noteq> None\<close> show False by (simp add: in_place_def Let_def)
    qed
    obtain o1 k1 where k1: "(if t_frame_location (k_store ?k0 r) = Evicted
        then try_slot resume_from_evicted pf r ?k0 else Some (False, ?k0)) = Some (o1, k1)"
      "slot_pre pf r R k1" "slot_step ?k0 k1" "o1 \<longleftrightarrow> t_slot (k_store k1 r) \<noteq> None"
      using try_dispatch [OF pre0 slot0] try_resume [of ?k0 r pf] pre0 slot0 by (cases "t_frame_location (k_store ?k0 r) = Evicted") auto
    have s1: "slot_step k k1" using slot_step_trans [OF s0 k1(3)] .
    show ?thesis
    proof (cases o1)
      case True
      with k1 s1 False show ?thesis by (simp add: ensure_slot_def Let_def)
    next
      case o1: False
      then have "t_slot (k_store k1 r) = None" using k1(4) by simp
      then obtain o2 k2 where k2: "try_slot dispatch_acquire_slot pf r k1 = Some (o2, k2)" "slot_pre pf r R k2"
        "slot_step k1 k2" "o2 \<longleftrightarrow> t_slot (k_store k2 r) \<noteq> None"
        using try_dispatch [OF k1(2)] by blast
      have s2: "slot_step k k2" using slot_step_trans [OF s1 k2(3)] .
      show ?thesis
      proof (cases o2)
        case True
        with k1(1) o1 k2 s2 False show ?thesis by (simp add: ensure_slot_def Let_def)
      next
        case o2: False
        then obtain o3 k3 where k3: "evict_loop (SLOTS_PER_CORE - 1) pf now r k2 = Some (o3, k3)" "slot_pre pf r R k3"
          "slot_step k2 k3" "o3 \<longleftrightarrow> t_slot (k_store k3 r) \<noteq> None"
          using evict_loop_ok [OF k2(2)] k2(4) by blast
        have s3: "slot_step k k3" using slot_step_trans [OF s2 k3(3)] .
        obtain k4 where "(if o3 then Some k3 else map_option snd (try_slot dispatch_acquire_slot pf r k3)) = Some k4"
          "slot_pre pf r R k4" "slot_step k k4"
          using try_dispatch [OF k3(2)] k3 s3 slot_step_trans [OF s3] by (cases o3) fastforce+
        with k1(1) o1 k2(1) o2 k3(1) False show ?thesis by (auto simp: ensure_slot_def Let_def)
      qed
    qed
  qed
qed

section \<open>The invariant of a core\<close>

abbreviation ready_set :: "core_scheduler \<Rightarrow> tref set" where
  "ready_set s \<equiv> set (rq_order (cs_ready s))"

abbreviation blocked_set :: "core_scheduler \<Rightarrow> tref set" where
  "blocked_set s \<equiv> bt_task ` set (cs_blocked s)"

text \<open>The tasks of the core that can still run.\<close>

definition live :: "task_store \<Rightarrow> core_scheduler \<Rightarrow> tref set" where
  "live h s = ready_set s \<union> blocked_set s \<union> {idle_task s} \<union>
     (if t_status (h (current_task s)) = Finished then {} else {current_task s})"

text \<open>
  The queues are well-formed and hold tasks of the right status; the current task runs, has just
  ended, or is in one of the queues; the tasks belong to this core and have a valid priority; their
  identifiers differ; the slot table describes them; and the tasks that wait for their removal have
  ended and do not own the FPU.
\<close>

definition core_ok :: "u64 \<Rightarrow> task_store \<Rightarrow> core_scheduler \<Rightarrow> slot_pool \<Rightarrow> bool" where
  "core_ok base h s slots \<longleftrightarrow>
     rq_ok h (cs_ready s) \<and> distinct (rq_order (cs_ready s)) \<and> (\<forall>r \<in> ready_set s. t_status (h r) = Ready) \<and>
     bq_ok (cs_core_id s) h (cs_blocked s) \<and> timer_covers (cs_blocked s) (cs_timers s) \<and>
     t_status (h (idle_task s)) = Idle \<and>
     (t_status (h (current_task s)) \<in> {Running, Finished} \<or>
      current_task s \<in> ready_set s \<union> blocked_set s \<union> {idle_task s}) \<and>
     (\<forall>r \<in> live h s. t_core_id (h r) = cs_core_id s \<and> task_level h r < NO_PRIORITIES \<and>
        t_frame_location (h r) \<noteq> BeingEvicted \<and> \<not> t_wake_pending (h r)) \<and>
     inj_on (\<lambda>r. t_id (h r)) (insert (current_task s) (live h s)) \<and>
     slots_ok base (cs_core_id s) h (live h s) slots \<and>
     fpu_owner s \<notin> set (finished_tasks s) \<and> (\<forall>r \<in> set (finished_tasks s). t_status (h r) = Invalid)"

abbreviation sched_ok :: "platform \<Rightarrow> kernel \<Rightarrow> bool" where
  "sched_ok pf k \<equiv> core_ok (slot_base pf) (k_store k) (k_sched k) (k_slots k)"

lemma core_okD:
  assumes "core_ok base h s slots"
  shows "rq_ok h (cs_ready s)" "distinct (rq_order (cs_ready s))" "\<And>r. r \<in> ready_set s \<Longrightarrow> t_status (h r) = Ready"
    "bq_ok (cs_core_id s) h (cs_blocked s)" "timer_covers (cs_blocked s) (cs_timers s)"
    "t_status (h (idle_task s)) = Idle"
    "t_status (h (current_task s)) = Running \<or> t_status (h (current_task s)) = Finished \<or>
      current_task s \<in> ready_set s \<union> blocked_set s \<union> {idle_task s}"
    "\<And>r. r \<in> live h s \<Longrightarrow> t_core_id (h r) = cs_core_id s \<and> task_level h r < NO_PRIORITIES \<and>
        t_frame_location (h r) \<noteq> BeingEvicted \<and> \<not> t_wake_pending (h r)"
    "inj_on (\<lambda>r. t_id (h r)) (insert (current_task s) (live h s))"
    "slots_ok base (cs_core_id s) h (live h s) slots"
    "fpu_owner s \<notin> set (finished_tasks s)" "\<And>r. r \<in> set (finished_tasks s) \<Longrightarrow> t_status (h r) = Invalid"
    "\<And>r. r \<in> blocked_set s \<Longrightarrow> t_status (h r) = Blocked"
  using assms unfolding core_ok_def bq_ok_def by auto

lemma live_sub:
  "ready_set s \<subseteq> live h s" "blocked_set s \<subseteq> live h s" "idle_task s \<in> live h s"
  "t_status (h (current_task s)) \<noteq> Finished \<Longrightarrow> current_task s \<in> live h s"
  by (auto simp: live_def)

section \<open>The choice of the next task\<close>

text \<open>The task that the core switches to, if any: a running task gives way to the first ready task that is
  at least as urgent; otherwise the first ready task runs, or the idle task.\<close>

definition next_task :: "task_store \<Rightarrow> core_scheduler \<Rightarrow> tref option" where
  "next_task h s =
     (let t = h (current_task s)
      in case rq_order (cs_ready s) of
           r # _ \<Rightarrow> if t_status t = Running \<and> \<not> t_prio t \<le> t_prio (h r) then None else Some r
         | [] \<Rightarrow> if t_status t = Running \<or> t_status t = Idle then None else Some (idle_task s))"

text \<open>The ready queue when the chosen task has left it.\<close>

definition order_after :: "task_store \<Rightarrow> core_scheduler \<Rightarrow> tref list" where
  "order_after h s = (if next_task h s = None then rq_order (cs_ready s) else tl (rq_order (cs_ready s)))"

text \<open>The bookkeeping for a task that has ended.\<close>

definition retire_store :: "task_store \<Rightarrow> core_scheduler \<Rightarrow> task_store" where
  "retire_store h s = (let cur = current_task s
     in if t_status (h cur) = Finished then h(cur := (h cur)\<lparr>t_status := Invalid\<rparr>) else h)"

definition retire_sched :: "task_store \<Rightarrow> core_scheduler \<Rightarrow> core_scheduler" where
  "retire_sched h s =
     (if t_status (h (current_task s)) = Finished
      then s\<lparr>fpu_owner := (if fpu_owner s = current_task s then idle_task s else fpu_owner s),
             finished_tasks := finished_tasks s @ [current_task s]\<rparr>
      else s)"

text \<open>The state after the choice, for a given new ready queue.\<close>

definition chosen :: "kernel \<Rightarrow> ready_queue \<Rightarrow> kernel" where
  "chosen k q = k\<lparr>k_store := retire_store (k_store k) (k_sched k),
     k_sched := (retire_sched (k_store k) (k_sched k))\<lparr>cs_ready := q\<rparr>\<rparr>"

lemma choose_task_running:
  assumes rq: "rq_ok (k_store k) (cs_ready (k_sched k))" and run: "t_status (k_store k (k_current k)) = Running"
  shows "\<exists>q. choose_task k = Some (next_task (k_store k) (k_sched k), chosen k q) \<and>
    rq_ok (k_store k) q \<and> rq_order q = order_after (k_store k) (k_sched k)"
proof -
  let ?h = "k_store k" and ?s = "k_sched k"
  let ?t = "?h (current_task ?s)"
  have chosen: "chosen k q = with_sched (cs_ready_update (\<lambda>_. q)) k" for q
    using run by (simp add: chosen_def retire_store_def retire_sched_def)
  note pop = rq_pop_with_prio_ok [OF rq, of "t_prio ?t"]
  consider "next_task ?h ?s = None" "rq_pop_with_prio (cs_ready ?s) (t_prio ?t) = Some (None, cs_ready ?s)"
    | r q where "next_task ?h ?s = Some r" "rq_pop_with_prio (cs_ready ?s) (t_prio ?t) = Some (Some r, q)" "rq_ok ?h q"
      "rq_order q = tl (rq_order (cs_ready ?s))"
    using pop run by (cases "rq_order (cs_ready ?s)") (auto simp: next_task_def prio_index_le Let_def split: if_splits)
  then show ?thesis
  proof cases
    case 1
    then have "choose_task k = Some (None, chosen k (cs_ready ?s))"
      using run by (simp add: choose_task_def chosen)
    with 1 rq show ?thesis by (auto simp: order_after_def)
  next
    case (2 r q)
    then have "choose_task k = Some (Some r, chosen k q)"
      using run by (simp add: choose_task_def chosen)
    with 2 show ?thesis by (auto simp: order_after_def)
  qed
qed

lemma choose_task_ok:
  assumes rq: "rq_ok (k_store k) (cs_ready (k_sched k))"
  shows "\<exists>q. choose_task k = Some (next_task (k_store k) (k_sched k), chosen k q) \<and>
    rq_ok (k_store k) q \<and> rq_order q = order_after (k_store k) (k_sched k)"
proof (cases "t_status (k_store k (k_current k)) = Running")
  case True
  with rq show ?thesis by (rule choose_task_running)
next
  case False
  let ?h = "k_store k" and ?s = "k_sched k"
  obtain q where q: "rq_pop (cs_ready ?s) = Some (case rq_order (cs_ready ?s) of [] \<Rightarrow> None | r # _ \<Rightarrow> Some r, q)"
    "rq_ok ?h q" "rq_order q = tl (rq_order (cs_ready ?s))"
    using rq_pop_ok [OF rq] by blast
  have "rq_order q = order_after ?h ?s"
    using q(3) False by (simp add: order_after_def next_task_def Let_def split: list.splits)
  moreover have "choose_task k = Some (next_task ?h ?s, chosen k q)"
    using False q(1)
    by (cases "rq_order (cs_ready ?s)")
      (simp_all add: choose_task_def next_task_def chosen_def retire_store_def retire_sched_def Let_def)
  ultimately show ?thesis using q(2) by blast
qed

section \<open>Switching\<close>

lemma next_task_props:
  assumes ok: "core_ok base h s slots" and nx: "next_task h s = Some r"
  shows "r \<in> live h s" "t_status (h r) = Ready \<and> r \<in> ready_set s \<or> t_status (h r) = Idle \<and> r = idle_task s \<and> rq_order (cs_ready s) = []"
    "r \<notin> blocked_set s" "set (tl (rq_order (cs_ready s))) = ready_set s - {r}"
    "t_status (h (current_task s)) = Running \<Longrightarrow> r \<in> ready_set s"
proof -
  note D = core_okD [OF ok]
  have c: "(\<exists>rs. rq_order (cs_ready s) = r # rs) \<or>
      rq_order (cs_ready s) = [] \<and> r = idle_task s \<and> t_status (h (current_task s)) \<noteq> Running"
    using nx unfolding next_task_def Let_def by (cases "rq_order (cs_ready s)") (simp_all split: if_splits)
  show st: "t_status (h r) = Ready \<and> r \<in> ready_set s \<or> t_status (h r) = Idle \<and> r = idle_task s \<and> rq_order (cs_ready s) = []"
    using c D(3,6) by (metis list.set_intros(1))
  show "set (tl (rq_order (cs_ready s))) = ready_set s - {r}"
    using c D(2) by (elim disjE exE) simp_all
  show "t_status (h (current_task s)) = Running \<Longrightarrow> r \<in> ready_set s"
    using c by (elim disjE exE) simp_all
  show "r \<in> live h s"
    using st by (auto simp: live_def)
  show "r \<notin> blocked_set s"
    using D(13) [of r] st by (metis task_status.distinct)
qed

text \<open>The status of every task after a switch to \<open>r\<close>.\<close>

definition status_after :: "task_store \<Rightarrow> core_scheduler \<Rightarrow> tref \<Rightarrow> tref \<Rightarrow> task_status" where
  "status_after h s r x =
     (if x = r then (if t_status (h r) = Idle then Idle else Running)
      else if x = current_task s \<and> t_status (h x) = Running then Ready
      else if x = current_task s \<and> t_status (h x) = Finished then Invalid
      else t_status (h x))"

definition order_switched :: "task_store \<Rightarrow> core_scheduler \<Rightarrow> tref list" where
  "order_switched h s =
     (if t_status (h (current_task s)) = Running
      then insert_prio (task_level h) (current_task s) (tl (rq_order (cs_ready s)))
      else tl (rq_order (cs_ready s)))"

lemma core_ok_switched:
  assumes ok: "core_ok base h s slots" and nx: "next_task h s = Some r" and fin: "finished_tasks s = []"
    and st: "\<And>x. t_status (h' x) = status_after h s r x"
    and same: "\<And>x. t_id (h' x) = t_id (h x) \<and> t_prio (h' x) = t_prio (h x) \<and> t_core_id (h' x) = t_core_id (h x) \<and>
      (t_wake_pending (h' x) \<longrightarrow> t_wake_pending (h x)) \<and>
      (t_frame_location (h' x) = BeingEvicted \<longrightarrow> t_frame_location (h x) = BeingEvicted)"
    and q: "rq_ok h' q'" "rq_order q' = order_switched h s"
    and sl: "slots_ok base (cs_core_id s) h' (live h s) slots'"
  defines "s' \<equiv> (retire_sched h s)\<lparr>cs_ready := q', current_task := r\<rparr>"
  shows "core_ok base h' s' slots'"
proof -
  note D = core_okD [OF ok] and P = next_task_props [OF ok nx]
  let ?cur = "current_task s"
  have s': "cs_ready s' = q'" "cs_blocked s' = cs_blocked s" "cs_timers s' = cs_timers s" "cs_core_id s' = cs_core_id s"
    "idle_task s' = idle_task s" "current_task s' = r"
    "finished_tasks s' = (if t_status (h ?cur) = Finished then [?cur] else [])"
    "fpu_owner s' = (if t_status (h ?cur) = Finished \<and> fpu_owner s = ?cur then idle_task s else fpu_owner s)"
    using fin by (simp_all add: s'_def retire_sched_def)
  have cur_idle: "t_status (h ?cur) = Finished \<Longrightarrow> idle_task s \<noteq> ?cur" using D(6) by auto
  have order: "set (rq_order q') = (ready_set s - {r}) \<union> (if t_status (h ?cur) = Running then {?cur} else {})"
    unfolding q(2) order_switched_def using P(4) by simp
  have "live h' s' = set (rq_order q') \<union> blocked_set s \<union> {idle_task s} \<union> {r}"
    using st [of r] P(2) by (auto simp: live_def s' status_after_def)
  also have "\<dots> = live h s"
    unfolding order using D(7) P(1,2) live_sub(1) by (auto simp: live_def split: if_splits)
  finally have live': "live h' s' = live h s" .
  have ready: "t_status (h' x) = Ready" if "x \<in> set (rq_order q')" for x
    using that order D(3) P(5) by (auto simp: st status_after_def split: if_splits)
  have "t_status (h ?cur) = Running \<Longrightarrow> ?cur \<notin> set (tl (rq_order (cs_ready s)))"
    unfolding P(4) using D(3) by force
  then have dist: "distinct (rq_order q')"
    unfolding q(2) order_switched_def by (simp add: distinct_tl [OF D(2)])
  have blocked: "t_status (h' x) = Blocked" if "x \<in> blocked_set s" for x
    using that D(13) P(3) by (auto simp: st status_after_def)
  have bq: "bq_ok (cs_core_id s) h' (cs_blocked s)"
    using D(4) same blocked unfolding bq_ok_def by simp blast
  have idle: "t_status (h' (idle_task s)) = Idle"
    using D(6) P(2) D(3) by (auto simp: st status_after_def)
  have lv: "t_core_id (h' x) = cs_core_id s \<and> task_level h' x < NO_PRIORITIES \<and>
      t_frame_location (h' x) \<noteq> BeingEvicted \<and> \<not> t_wake_pending (h' x)" if "x \<in> live h s" for x
    using D(8) [OF that] same [of x] by auto
  have inj: "inj_on (\<lambda>x. t_id (h' x)) (insert r (live h s))"
    using D(9) same P(1) by (auto simp: inj_on_def)
  have run: "t_status (h' r) = Running \<or> r = idle_task s"
    using P(2) by (auto simp: st status_after_def)
  have fpu: "fpu_owner s' \<notin> set (finished_tasks s')" and inv: "\<forall>x \<in> set (finished_tasks s'). t_status (h' x) = Invalid"
    using cur_idle P(2) by (auto simp: s' st status_after_def)
  show ?thesis
    unfolding core_ok_def live' s'(1-6)
    by (intro conjI ballI) (use q(1) dist ready bq D(5) idle run lv inj sl fpu inv in \<open>blast+\<close>)
qed

text \<open>The store and the ready queue just before the new task gets its slot.\<close>

definition requeued_store :: "task_store \<Rightarrow> core_scheduler \<Rightarrow> task_store" where
  "requeued_store h s = (let cur = current_task s
     in if t_status (h cur) = Running then h(cur := (h cur)\<lparr>t_status := Ready\<rparr>) else retire_store h s)"

lemma requeued_store_fields:
  "t_id (requeued_store h s x) = t_id (h x)" "t_prio (requeued_store h s x) = t_prio (h x)"
  "t_core_id (requeued_store h s x) = t_core_id (h x)" "t_slot (requeued_store h s x) = t_slot (h x)"
  "t_frame_location (requeued_store h s x) = t_frame_location (h x)"
  "t_last_stack_pointer (requeued_store h s x) = t_last_stack_pointer (h x)"
  "t_wake_pending (requeued_store h s x) = t_wake_pending (h x)"
  by (simp_all add: requeued_store_def retire_store_def Let_def)

lemma requeue_ok:
  assumes ok: "core_ok base h s slots" and q: "rq_ok h q" "rq_order q = tl (rq_order (cs_ready s))"
  shows "\<exists>q1. (if t_status (h (current_task s)) = Running then rq_push (requeued_store h s) q (current_task s) else Some q) = Some q1 \<and>
    rq_ok (requeued_store h s) q1 \<and> rq_order q1 = order_switched h s"
proof -
  have q': "rq_ok (requeued_store h s) q"
    by (rule rq_ok_cong [OF q(1)]) (simp add: requeued_store_fields)
  have lvl: "task_level (requeued_store h s) = task_level h"
    by (simp add: fun_eq_iff requeued_store_fields)
  show ?thesis
  proof (cases "t_status (h (current_task s)) = Running")
    case True
    then have "current_task s \<in> live h s" by (simp add: live_def)
    then have "task_level (requeued_store h s) (current_task s) < NO_PRIORITIES"
      using core_okD(8) [OF ok] by (simp only: requeued_store_fields)
    from rq_push_ok [OF q' this] True q(2) lvl show ?thesis
      by (simp add: order_switched_def)
  next
    case False
    with q' q(2) show ?thesis by (simp add: order_switched_def)
  qed
qed

lemma requeued_slot_pre:
  assumes ok: "core_ok (slot_base pf) h s (k_slots k)" and nx: "next_task h s = Some r"
    and k: "k_store k = requeued_store h s" "cs_core_id (k_sched k) = cs_core_id s" "cs_blocked (k_sched k) = cs_blocked s"
  shows "slot_pre pf r (live h s) k"
proof -
  have "slots_ok (slot_base pf) (cs_core_id s) (requeued_store h s) (live h s) (k_slots k)"
    by (rule slots_ok_cong [OF core_okD(10) [OF ok]]) (simp add: requeued_store_fields)
  moreover have "blocked_set s \<subseteq> live h s - {r}"
    using live_sub(2) [of s h] next_task_props(3) [OF ok nx] by blast
  ultimately show ?thesis
    using next_task_props(1) [OF ok nx] core_okD(8) [OF ok]
    unfolding slot_pre_def k by (simp add: requeued_store_fields)
qed

text \<open>The state after \<open>ensure_slot\<close> with the new task marked as running.\<close>

lemma switched_store:
  assumes nx: "next_task h s = Some r" and ok: "core_ok base h s slots"
    and step: "\<And>x. slot_change (requeued_store h s x) (g x)"
  defines "h' \<equiv> (if t_status (g r) \<noteq> Idle then g(r := (g r)\<lparr>t_status := Running\<rparr>) else g)"
  shows "t_status (h' x) = status_after h s r x"
    "t_id (h' x) = t_id (h x) \<and> t_prio (h' x) = t_prio (h x) \<and> t_core_id (h' x) = t_core_id (h x) \<and>
      (t_wake_pending (h' x) \<longrightarrow> t_wake_pending (h x)) \<and>
      (t_frame_location (h' x) = BeingEvicted \<longrightarrow> t_frame_location (h x) = BeingEvicted)"
proof -
  note F = slot_change_fields [OF step]
  have r: "t_status (h r) = Ready \<or> t_status (h r) = Idle" using next_task_props(2) [OF ok nx] by auto
  have gr: "t_status (g r) = Idle \<longleftrightarrow> t_status (h r) = Idle"
    using r by (auto simp: F requeued_store_def retire_store_def Let_def)
  show "t_status (h' x) = status_after h s r x"
    using r gr by (auto simp: h'_def status_after_def F requeued_store_def retire_store_def Let_def)
  have "(t_wake_pending (g x) \<longrightarrow> t_wake_pending (h x)) \<and>
      (t_frame_location (g x) = BeingEvicted \<longrightarrow> t_frame_location (h x) = BeingEvicted)"
    using step [of x] by (auto simp: slot_change_def requeued_store_fields)
  then show "t_id (h' x) = t_id (h x) \<and> t_prio (h' x) = t_prio (h x) \<and> t_core_id (h' x) = t_core_id (h x) \<and>
      (t_wake_pending (h' x) \<longrightarrow> t_wake_pending (h x)) \<and>
      (t_frame_location (h' x) = BeingEvicted \<longrightarrow> t_frame_location (h x) = BeingEvicted)"
    by (auto simp: h'_def F requeued_store_fields)
qed

lemma retire_sched_simps [simp]:
  "current_task (retire_sched h s) = current_task s" "cs_blocked (retire_sched h s) = cs_blocked s"
  "cs_core_id (retire_sched h s) = cs_core_id s" "idle_task (retire_sched h s) = idle_task s"
  by (simp_all add: retire_sched_def)

lemma requeue_chosen:
  assumes "(if t_status (k_store k (k_current k)) = Running
      then rq_push (requeued_store (k_store k) (k_sched k)) q (k_current k) else Some q) = Some q1"
  shows "requeue (t_status (k_store k (k_current k)) = Running) (chosen k q) =
    Some (k\<lparr>k_store := requeued_store (k_store k) (k_sched k),
            k_sched := (retire_sched (k_store k) (k_sched k))\<lparr>cs_ready := q1\<rparr>\<rparr>)"
  using assms
  by (cases "t_status (k_store k (k_current k)) = Running")
    (simp_all add: requeue_def chosen_def requeued_store_def retire_store_def retire_sched_def Let_def)

lemma switch_to_ok:
  assumes ok: "sched_ok pf k" and nx: "next_task (k_store k) (k_sched k) = Some r" and fin: "finished_tasks (k_sched k) = []"
    and q: "rq_ok (k_store k) q" "rq_order q = tl (rq_order (cs_ready (k_sched k)))"
  defines "h \<equiv> k_store k" and "s \<equiv> k_sched k"
  shows "\<exists>k' q1. switch_to pf now (t_status (h (current_task s)) = Running) (t_id (h (current_task s))) r (chosen k q) =
      Some (if r = current_task s then None else Some (current_task s), k') \<and>
    sched_ok pf k' \<and> k_sched k' = (retire_sched h s)\<lparr>cs_ready := q1, current_task := r\<rparr> \<and>
    rq_order q1 = order_switched h s \<and> (\<forall>x. t_status (k_store k' x) = status_after h s r x) \<and>
    (\<forall>x. t_prio (k_store k' x) = t_prio (h x))"
proof -
  let ?cur = "current_task s"
  have ok': "core_ok (slot_base pf) h s (k_slots k)" and nx': "next_task h s = Some r"
    using ok nx by (simp_all add: h_def s_def)
  obtain q1 where q1: "(if t_status (h ?cur) = Running then rq_push (requeued_store h s) q ?cur else Some q) = Some q1"
    "rq_ok (requeued_store h s) q1" "rq_order q1 = order_switched h s"
    using requeue_ok [OF ok', of q] q unfolding h_def s_def by blast
  define k5 where "k5 = k\<lparr>k_store := requeued_store h s, k_sched := (retire_sched h s)\<lparr>cs_ready := q1\<rparr>\<rparr>"
  have rq: "requeue (t_status (h ?cur) = Running) (chosen k q) = Some k5"
    unfolding k5_def h_def s_def by (rule requeue_chosen [OF q1(1) [unfolded h_def s_def]])
  have pre: "slot_pre pf r (live h s) k5"
    by (rule requeued_slot_pre [OF _ nx']) (simp_all add: k5_def ok')
  then obtain k6 where k6: "ensure_slot pf now r k5 = Some k6" "slot_pre pf r (live h s) k6" "slot_step k5 k6"
    using ensure_slot_ok [OF pre] by blast
  define k7 where "k7 = mark_running r k6"
  have step: "slot_change (requeued_store h s x) (k_store k6 x)" for x
    using slot_step_task [OF k6(3), of x] by (simp add: k5_def)
  have store7: "k_store k7 = (if t_status (k_store k6 r) \<noteq> Idle
      then (k_store k6)(r := (k_store k6 r)\<lparr>t_status := Running\<rparr>) else k_store k6)"
    by (simp add: k7_def mark_running_def)
  note sw = switched_store [OF nx' ok', of "k_store k6", OF step, folded store7]
  have sched7: "k_sched k7 = (retire_sched h s)\<lparr>cs_ready := q1\<rparr>" and slots7: "k_slots k7 = k_slots k6"
    using slot_step_sched(1) [OF k6(3)] by (simp_all add: k5_def k7_def mark_running_def)
  have "slots_ok (slot_base pf) (cs_core_id s) (k_store k6) (live h s) (k_slots k6)"
    using k6(2) slot_step_sched(1) [OF k6(3)] by (simp add: slot_pre_def k5_def)
  then have sl: "slots_ok (slot_base pf) (cs_core_id s) (k_store k7) (live h s) (k_slots k6)"
    by (rule slots_ok_cong) (simp add: store7)
  have keep: "t_id (k_store k7 x) = t_id (h x)" "t_prio (k_store k7 x) = t_prio (h x)" for x
    by (rule conjunct1 [OF sw(2)], rule conjunct1 [OF conjunct2 [OF sw(2)]])
  have rq': "rq_ok (k_store k7) q1"
    by (rule rq_ok_cong [OF q1(2)]) (simp add: requeued_store_fields keep)
  have same: "t_id (h ?cur) = t_id (k_store k7 r) \<longleftrightarrow> r = ?cur"
    unfolding keep using inj_on_eq_iff [OF core_okD(9) [OF ok'], of ?cur r] next_task_props(1) [OF ok' nx'] by auto
  define k' where "k' = with_sched (current_task_update (\<lambda>_. r)) k7"
  have "k' = k7" if "r = ?cur"
    using that sched7 by (simp add: k'_def)
  then have "switch_to pf now (t_status (h ?cur) = Running) (t_id (h ?cur)) r (chosen k q) =
      Some (if r = ?cur then None else Some ?cur, k')"
    unfolding switch_to_def rq using k6(1) same k'_def by (simp add: k7_def [symmetric] chosen_def s_def h_def)
  moreover have "k_sched k' = (retire_sched h s)\<lparr>cs_ready := q1, current_task := r\<rparr>" "k_store k' = k_store k7" "k_slots k' = k_slots k6"
    by (simp_all add: k'_def sched7 slots7)
  moreover have "core_ok (slot_base pf) (k_store k7) ((retire_sched h s)\<lparr>cs_ready := q1, current_task := r\<rparr>) (k_slots k6)"
    using fin by (intro core_ok_switched [OF ok' nx' _ sw rq' q1(3) sl]) (simp add: s_def)
  ultimately show ?thesis
    using q1(3) sw(1) keep(2) by metis
qed

end
