(* ===== verification/Core_Steps.thy ===== *)
theory Core_Steps
  imports Scheduling
begin

text \<open>
  The operations of a core as steps of a machine: blocking, waking, the timer tick, ending a task and
  the scheduler itself keep the invariant of the core and never panic on a state that has it.
\<close>

section \<open>Operations that change the status of tasks\<close>

lemma core_ok_status_change:
  assumes ok: "core_ok base h s slots"
    and eq: "\<And>x. h' x = (h x)\<lparr>t_status := t_status (h' x)\<rparr>"
    and s': "cs_core_id s' = cs_core_id s" "idle_task s' = idle_task s" "current_task s' = current_task s"
      "fpu_owner s' = fpu_owner s" "finished_tasks s' = finished_tasks s"
    and rq: "rq_ok h' (cs_ready s')" "distinct (rq_order (cs_ready s'))" "\<And>r. r \<in> ready_set s' \<Longrightarrow> t_status (h' r) = Ready"
    and bq: "bq_ok (cs_core_id s) h' (cs_blocked s')" "timer_covers (cs_blocked s') (cs_timers s')"
    and idle: "t_status (h' (idle_task s)) = Idle"
    and cur: "t_status (h' (current_task s)) \<in> {Running, Finished} \<or>
      current_task s \<in> ready_set s' \<union> blocked_set s' \<union> {idle_task s}"
    and live: "live h' s' \<subseteq> live h s"
    and fin: "\<And>r. r \<in> set (finished_tasks s) \<Longrightarrow> t_status (h' r) = Invalid"
    and sl: "slots_ok base (cs_core_id s) h (live h' s') slots'"
  shows "core_ok base h' s' slots'"
proof -
  note D = core_okD [OF ok]
  have keep: "t_id (h' x) = t_id (h x)" "t_prio (h' x) = t_prio (h x)" "t_core_id (h' x) = t_core_id (h x)"
    "t_slot (h' x) = t_slot (h x)" "t_frame_location (h' x) = t_frame_location (h x)"
    "t_last_stack_pointer (h' x) = t_last_stack_pointer (h x)" "t_wake_pending (h' x) = t_wake_pending (h x)" for x
    by (subst eq, simp)+
  have lv: "t_core_id (h' x) = cs_core_id s \<and> task_level h' x < NO_PRIORITIES \<and>
      t_frame_location (h' x) \<noteq> BeingEvicted \<and> \<not> t_wake_pending (h' x)" if "x \<in> live h' s'" for x
    unfolding keep using D(8) [OF subsetD [OF live that]] .
  have inj: "inj_on (\<lambda>x. t_id (h' x)) (insert (current_task s) (live h' s'))"
    unfolding keep by (rule inj_on_subset [OF D(9)]) (use live in blast)
  have sl': "slots_ok base (cs_core_id s) h' (live h' s') slots'"
    by (rule slots_ok_cong [OF sl]) (simp add: keep)
  show ?thesis
    unfolding core_ok_def s'
    by (intro conjI ballI) (use rq bq idle cur lv inj sl' D(11) fin in blast)+
qed

lemma block_current_ok:
  assumes ok: "sched_ok pf k" and run: "t_status (k_store k (k_current k)) = Running"
  shows "\<exists>k'. block_current_task w k = Some k' \<and> sched_ok pf k' \<and> k_current k' = k_current k \<and>
    k_current k \<in> blocked_set (k_sched k') \<and> cs_ready (k_sched k') = cs_ready (k_sched k)"
proof -
  let ?s = "k_sched k" and ?h = "k_store k" and ?c = "k_current k"
  let ?h' = "?h(?c := (?h ?c)\<lparr>t_status := Blocked\<rparr>)"
  note D = core_okD [OF ok]
  have c: "?c \<in> live ?h ?s" using run by (simp add: live_def)
  obtain list ts where add: "bq_add ?h (cs_blocked ?s) (cs_timers ?s) ?c w = Some (?h', list, ts)"
    "bq_ok (cs_core_id ?s) ?h' list" "timer_covers list ts"
    "set list = insert \<lparr>bt_task = ?c, bt_wakeup = w\<rparr> (set (cs_blocked ?s))"
    using bq_add_ok [OF D(4,5) run] D(8) [OF c] by blast
  let ?s' = "?s\<lparr>cs_blocked := list, cs_timers := ts\<rparr>"
  let ?k' = "k\<lparr>k_store := ?h', k_sched := ?s'\<rparr>"
  have nr: "?c \<notin> ready_set ?s" and ni: "?c \<noteq> idle_task ?s" and nf: "?c \<notin> set (finished_tasks ?s)"
    using D(3) [of ?c] D(6) D(12) [of ?c] run by auto
  have live: "live ?h' ?s' = live ?h ?s"
    using run add(4) by (auto simp: live_def)
  have "core_ok (slot_base pf) ?h' ?s' (k_slots k)"
  proof (rule core_ok_status_change [OF ok])
    show "rq_ok ?h' (cs_ready ?s')" by simp (rule rq_ok_cong [OF D(1)], simp)
    show "t_status (?h' r) = Ready" if "r \<in> ready_set ?s'" for r
      using that nr D(3) by auto
    show "t_status (?h' r) = Invalid" if "r \<in> set (finished_tasks ?s)" for r
      using that nf D(12) by auto
    show "slots_ok (slot_base pf) (cs_core_id ?s) ?h (live ?h' ?s') (k_slots k)"
      unfolding live by (rule D(10))
  qed (use D(2,6) ni add live in auto)
  with add(1,4) show ?thesis
    by (auto simp: block_current_task_def Let_def)
qed

lemma wake_local_ok:
  assumes ok: "sched_ok pf k" and node: "node \<in> set (cs_blocked (k_sched k))"
    and hd: "handle_id handle = t_id (k_store k (bt_task node))"
  shows "\<exists>k'. wake_local handle k = Some k' \<and> sched_ok pf k' \<and> k_current k' = k_current k \<and>
    rq_order (cs_ready (k_sched k')) = insert_prio (task_level (k_store k)) (bt_task node) (rq_order (cs_ready (k_sched k))) \<and>
    set (cs_blocked (k_sched k')) = set (cs_blocked (k_sched k)) - {node} \<and>
    k_store k' = (k_store k)(bt_task node := (k_store k (bt_task node))\<lparr>t_status := Ready\<rparr>) \<and>
    k_core k' = k_core k \<and> k_inputs k' = k_inputs k \<and> k_tasks k' = k_tasks k"
proof -
  let ?s = "k_sched k" and ?h = "k_store k" and ?r = "bt_task node"
  let ?h' = "?h(?r := (?h ?r)\<lparr>t_status := Ready\<rparr>)"
  note D = core_okD [OF ok]
  have r: "?r \<in> blocked_set ?s" using node by simp
  then have rl: "?r \<in> live ?h ?s" using live_sub(2) by blast
  have ids: "ids_distinct ?h (cs_blocked ?s)"
    unfolding ids_distinct_def by (rule inj_on_subset [OF D(9)]) (use live_sub(2) in blast)
  obtain list ts where wk: "bq_custom_wakeup (cs_core_id ?s) ?h (cs_blocked ?s) (cs_timers ?s) handle = Some (?r, True, ?h', list, ts)"
    "set list = set (cs_blocked ?s) - {node}" "distinct (map bt_task list)" "bq_ok (cs_core_id ?s) ?h' list" "timer_covers list ts"
    using bq_custom_wakeup_ok [OF D(4) ids D(5) node hd] D(8) [OF rl] by blast
  have st: "t_status (?h ?r) = Blocked" using D(13) [OF r] .
  have nr: "?r \<notin> ready_set ?s" and ni: "?r \<noteq> idle_task ?s" and nf: "?r \<notin> set (finished_tasks ?s)"
    using D(3) [of ?r] D(6) D(12) [of ?r] st by auto
  have "rq_ok ?h' (cs_ready ?s)" by (rule rq_ok_cong [OF D(1)]) simp
  then obtain q where q: "rq_push ?h' (cs_ready ?s) ?r = Some q" "rq_ok ?h' q"
    "rq_order q = insert_prio (task_level ?h') ?r (rq_order (cs_ready ?s))"
    using rq_push_ok [of ?h' "cs_ready ?s" ?r] D(8) [OF rl] by auto
  have lvl: "task_level ?h' = task_level ?h" by (simp add: fun_eq_iff)
  let ?s' = "?s\<lparr>cs_blocked := list, cs_timers := ts, cs_ready := q\<rparr>"
  have bl: "blocked_set ?s' = blocked_set ?s - {?r}"
    using wk(2) D(4) node by (auto simp: bq_ok_def distinct_map inj_on_def)
  have live: "live ?h' ?s' = live ?h ?s"
    unfolding live_def bl using q(3) r st by auto
  have "core_ok (slot_base pf) ?h' ?s' (k_slots k)"
  proof (rule core_ok_status_change [OF ok])
    show "t_status (?h' x) = Ready" if "x \<in> ready_set ?s'" for x
      using that D(3) by (auto simp: q(3))
    show "t_status (?h' x) = Invalid" if "x \<in> set (finished_tasks ?s)" for x
      using that nf D(12) by auto
    show "t_status (?h' (current_task ?s)) \<in> {Running, Finished} \<or> current_task ?s \<in> ready_set ?s' \<union> blocked_set ?s' \<union> {idle_task ?s}"
      unfolding bl using D(7) by (auto simp: q(3))
    show "slots_ok (slot_base pf) (cs_core_id ?s) ?h (live ?h' ?s') (k_slots k)"
      unfolding live by (rule D(10))
  qed (use D(2,6) nr ni wk q live in auto)
  with wk(1,2) q(1,3) lvl show ?thesis
    by (simp add: wake_local_def)
qed
lemma timer_covers_armed: "timer_covers list ts \<Longrightarrow> armed ts"
  by (simp add: timer_covers_def)

lemma set_fold_insert_prio: "set (fold (insert_prio lvl) xs ys) = set xs \<union> set ys"
  by (induction xs arbitrary: ys) auto

lemma distinct_fold_insert_prio:
  "distinct ys \<Longrightarrow> distinct xs \<Longrightarrow> set xs \<inter> set ys = {} \<Longrightarrow> distinct (fold (insert_prio lvl) xs ys)"
  by (induction xs arbitrary: ys) auto

lemma wake_pending_ok:
  assumes ok: "sched_ok pf k"
  shows "\<exists>k'. wake_pending_tasks now k = Some k' \<and> sched_ok pf k' \<and> k_current k' = k_current k \<and> k_core k' = k_core k \<and>
    cs_blocked (k_sched k') = filter (\<lambda>n. \<not> elapsed now n) (cs_blocked (k_sched k)) \<and>
    ready_set (k_sched k') = ready_set (k_sched k) \<union> bt_task ` {n \<in> set (cs_blocked (k_sched k)). elapsed now n}"
proof -
  let ?s = "k_sched k" and ?h = "k_store k"
  let ?W = "bt_task ` set (filter (elapsed now) (cs_blocked ?s))"
  let ?h' = "ready_all ?h ?W"
  note D = core_okD [OF ok]
  have loc: "\<forall>r \<in> blocked_set ?s. t_frame_location (?h r) \<noteq> BeingEvicted"
    using D(8) live_sub(2) by blast
  obtain list ts q where w: "bq_handle_waiting_tasks (cs_core_id ?s) now ?h (cs_blocked ?s) (cs_timers ?s) (cs_ready ?s)
      = Some (?h', list, ts, q)"
    "list = filter (\<lambda>n. \<not> elapsed now n) (cs_blocked ?s)" "bq_ok (cs_core_id ?s) ?h' list" "timer_covers list ts"
    "rq_ok ?h' q" "rq_order q = fold (insert_prio (task_level ?h)) (map bt_task (filter (elapsed now) (cs_blocked ?s))) (rq_order (cs_ready ?s))"
    using bq_handle_waiting_tasks_ok [OF D(4) timer_covers_armed [OF D(5)] D(1) loc, of now] by blast
  have WB: "?W \<subseteq> blocked_set ?s" by auto
  have nW: "x \<notin> ?W" if "t_status (?h x) \<noteq> Blocked" for x
    using that D(13) WB by blast
  have set_q: "set (rq_order q) = ready_set ?s \<union> ?W"
    unfolding w(6) set_fold_insert_prio by auto
  have dist_q: "distinct (rq_order q)"
    unfolding w(6)
  proof (rule distinct_fold_insert_prio [OF D(2)])
    show "distinct (map bt_task (filter (elapsed now) (cs_blocked ?s)))"
      using D(4) by (simp add: bq_ok_def distinct_map_filter)
    show "set (map bt_task (filter (elapsed now) (cs_blocked ?s))) \<inter> ready_set ?s = {}"
      using D(3,13) by force
  qed
  let ?s' = "?s\<lparr>cs_blocked := list, cs_timers := ts, cs_ready := q\<rparr>"
  have bl: "blocked_set ?s' = blocked_set ?s - ?W"
    using D(4) by (auto simp: w(2) bq_ok_def distinct_map inj_on_def)
  have st: "t_status (?h' x) = (if x \<in> ?W then Ready else t_status (?h x))" for x
    by (simp add: ready_all_def)
  have rs: "ready_set ?s' = ready_set ?s \<union> ?W" by (simp add: set_q)
  have "t_status (?h' (current_task ?s)) = Finished \<longleftrightarrow> t_status (?h (current_task ?s)) = Finished"
    unfolding st using nW [of "current_task ?s"] by (metis task_status.distinct)
  then have live: "live ?h' ?s' = live ?h ?s"
    unfolding live_def bl rs using WB by auto
  have "core_ok (slot_base pf) ?h' ?s' (k_slots k)"
  proof (rule core_ok_status_change [OF ok])
    show "t_status (?h' x) = Ready" if "x \<in> ready_set ?s'" for x
      using that D(3) unfolding st rs by auto
    show "t_status (?h' x) = Invalid" if "x \<in> set (finished_tasks ?s)" for x
      using nW [of x] D(12) [OF that] unfolding st by simp
    show "t_status (?h' (current_task ?s)) \<in> {Running, Finished} \<or> current_task ?s \<in> ready_set ?s' \<union> blocked_set ?s' \<union> {idle_task ?s}"
      unfolding bl rs st using D(7) by auto
    show "slots_ok (slot_base pf) (cs_core_id ?s) ?h (live ?h' ?s') (k_slots k)"
      unfolding live by (rule D(10))
    show "t_status (?h' (idle_task ?s)) = Idle"
      unfolding st using nW [of "idle_task ?s"] D(6) by simp
    show "?h' x = (?h x)\<lparr>t_status := t_status (?h' x)\<rparr>" for x by (simp add: ready_all_def)
  qed (use w dist_q live in simp_all)
  moreover have "wake_pending_tasks now k = Some (k\<lparr>k_store := ?h', k_sched := ?s'\<rparr>)"
    using w(1) by (simp add: wake_pending_tasks_def Let_def)
  moreover have "ready_set ?s' = ready_set ?s \<union> bt_task ` {n \<in> set (cs_blocked ?s). elapsed now n}"
    using rs by (simp add: set_filter)
  ultimately show ?thesis
    using w(2) by simp
qed

lemma fpu_switch_ok:
  assumes ok: "sched_ok pf k" and run: "t_status (k_store k (k_current k)) = Running"
  shows "sched_ok pf (fpu_switch k)"
proof -
  have "k_current k \<notin> set (finished_tasks (k_sched k))"
    using core_okD(12) [OF ok, of "k_current k"] run by auto
  moreover have "live h (s\<lparr>fpu_owner := r\<rparr>) = live h s" for h s r
    by (simp add: live_def)
  ultimately show ?thesis
    using ok by (cases "k_current k = fpu_owner (k_sched k)") (simp_all add: fpu_switch_def core_ok_def)
qed

section \<open>Ending a task\<close>

lemma slots_release_ok:
  assumes ok: "slots_ok base core h R pool" and r: "r \<in> R"
  shows "\<exists>pool'. (if t_frame_location (h r) = InSlot then release_slot core pool (h r) else Some pool) = Some pool' \<and>
    slots_ok base core h (R - {r}) pool'"
proof (cases "t_slot (h r)")
  case None
  have "slots_ok base core h (R - {r}) pool"
    using ok None unfolding slots_ok_def by (auto simp: inj_on_diff) (metis DiffI option.distinct(1) singletonD)
  with None show ?thesis by (simp add: release_slot_def)
next
  case (Some i)
  note D = slots_okD [OF ok]
  have "slots_ok base core (h(r := h r)) (R - {r}) (pool[unat core := (pool ! unat core)[i := - 1]])"
    by (rule slots_ok_vacate [OF ok r Some]) simp_all
  with D(1-3) D(6) [OF r Some] Some show ?thesis
    by (simp add: release_slot_def owners_for_core_def slot_release_def)
qed

text \<open>The handles of a waiter queue: a handle of this core names a blocked task, a handle of another
  core names a core whose input queue exists.\<close>

definition waiter_ok :: "kernel \<Rightarrow> task_handle \<Rightarrow> bool" where
  "waiter_ok k handle \<longleftrightarrow>
     (if handle_core_id handle = k_core k
      then \<exists>node \<in> set (cs_blocked (k_sched k)). handle_id handle = t_id (k_store k (bt_task node))
      else unat (handle_core_id handle) < length (k_inputs k))"

lemma custom_wakeup_ok:
  assumes ok: "sched_ok pf k" and w: "waiter_ok k handle"
  shows "\<exists>k'. custom_wakeup handle k = Some k' \<and> sched_ok pf k' \<and> k_current k' = k_current k \<and>
    (t_status (k_store k (k_current k)) = Finished \<longrightarrow> k_store k' (k_current k) = k_store k (k_current k)) \<and>
    (\<forall>h2. waiter_ok k h2 \<longrightarrow> handle_id h2 \<noteq> handle_id handle \<longrightarrow> waiter_ok k' h2)"
proof (cases "handle_core_id handle = k_core k")
  case True
  then obtain node where n: "node \<in> set (cs_blocked (k_sched k))" "handle_id handle = t_id (k_store k (bt_task node))"
    using w by (auto simp: waiter_ok_def)
  obtain k' where k': "wake_local handle k = Some k'" "sched_ok pf k'" "k_current k' = k_current k"
    "set (cs_blocked (k_sched k')) = set (cs_blocked (k_sched k)) - {node}"
    "k_store k' = (k_store k)(bt_task node := (k_store k (bt_task node))\<lparr>t_status := Ready\<rparr>)"
    "k_core k' = k_core k" "k_inputs k' = k_inputs k"
    using wake_local_ok [OF ok n] by blast
  have "bt_task node = k_current k \<Longrightarrow> t_status (k_store k (k_current k)) = Blocked"
    using core_okD(13) [OF ok, of "bt_task node"] n(1) by (metis imageI)
  moreover have "waiter_ok k' h2" if w2: "waiter_ok k h2" "handle_id h2 \<noteq> handle_id handle" for h2
  proof (cases "handle_core_id h2 = k_core k")
    case local: True
    then obtain n2 where n2: "n2 \<in> set (cs_blocked (k_sched k))" "handle_id h2 = t_id (k_store k (bt_task n2))"
      using w2(1) by (auto simp: waiter_ok_def)
    then have "n2 \<in> set (cs_blocked (k_sched k'))" "handle_id h2 = t_id (k_store k' (bt_task n2))"
      using w2(2) n(2) k'(4,5) by auto
    with local k'(6) show ?thesis unfolding waiter_ok_def by auto
  qed (use w2(1) k'(6,7) in \<open>simp add: waiter_ok_def\<close>)
  ultimately show ?thesis
    using True k'(1-3,5) by (intro exI [of _ k']) (auto simp: custom_wakeup_def)
next
  case False
  then show ?thesis
    using w ok by (auto simp: custom_wakeup_def get_scheduler_input_def wakeup_core_def waiter_ok_def Let_def)
qed

lemma wake_all_ok:
  assumes "sched_ok pf k" "\<forall>handle \<in> set handles. waiter_ok k handle" "distinct (map handle_id handles)"
    "t_status (k_store k (k_current k)) = Finished"
  shows "\<exists>k'. wake_all handles k = Some k' \<and> sched_ok pf k' \<and> k_current k' = k_current k \<and>
    k_store k' (k_current k) = k_store k (k_current k)"
  using assms
proof (induction handles arbitrary: k)
  case (Cons handle handles)
  then obtain k1 where k1: "custom_wakeup handle k = Some k1" "sched_ok pf k1" "k_current k1 = k_current k"
    "k_store k1 (k_current k) = k_store k (k_current k)"
    "\<And>h2. waiter_ok k h2 \<Longrightarrow> handle_id h2 \<noteq> handle_id handle \<Longrightarrow> waiter_ok k1 h2"
    using custom_wakeup_ok [OF Cons.prems(1), of handle] by auto
  have "\<forall>h2 \<in> set handles. waiter_ok k1 h2"
    using Cons.prems(2,3) k1(5) by (metis distinct.simps(2) image_eqI list.set_intros(2) list.set_map list.simps(9))
  moreover have "t_status (k_store k1 (k_current k1)) = Finished"
    using Cons.prems(4) k1(3,4) by simp
  ultimately obtain k2 where "wake_all handles k1 = Some k2" "sched_ok pf k2" "k_current k2 = k_current k1"
    "k_store k2 (k_current k1) = k_store k1 (k_current k1)"
    using Cons.IH [OF k1(2)] Cons.prems(3) by auto
  with k1 show ?case by simp
qed simp

text \<open>The state after the task has been marked as ended and its slot has been given back.\<close>

lemma finish_current_ok:
  assumes ok: "sched_ok pf k" and run: "t_status (k_store k (k_current k)) = Running"
  defines "h' \<equiv> (k_store k)(k_current k := (k_store k (k_current k))\<lparr>t_status := Finished\<rparr>)"
  shows "\<exists>slots. (if t_frame_location (h' (k_current k)) = InSlot then release_slot (k_core k) (k_slots k) (h' (k_current k))
        else Some (k_slots k)) = Some slots \<and> core_ok (slot_base pf) h' (k_sched k) slots"
proof -
  let ?s = "k_sched k" and ?h = "k_store k" and ?c = "k_current k"
  note D = core_okD [OF ok]
  have c: "?c \<in> live ?h ?s" using run by (simp add: live_def)
  have nr: "?c \<notin> ready_set ?s" and nb: "?c \<notin> blocked_set ?s" and ni: "?c \<noteq> idle_task ?s"
    and nf: "?c \<notin> set (finished_tasks ?s)"
    using D(3) [of ?c] D(13) [of ?c] D(6) D(12) [of ?c] run by auto
  have live: "live h' ?s = live ?h ?s - {?c}"
    using nr nb ni run by (auto simp: live_def h'_def)
  obtain slots where sl: "(if t_frame_location (?h ?c) = InSlot then release_slot (k_core k) (k_slots k) (?h ?c)
      else Some (k_slots k)) = Some slots" "slots_ok (slot_base pf) (k_core k) ?h (live ?h ?s - {?c}) slots"
    using slots_release_ok [OF D(10) c] by blast
  have "core_ok (slot_base pf) h' ?s slots"
  proof (rule core_ok_status_change [OF ok])
    show "rq_ok h' (cs_ready ?s)" by (rule rq_ok_cong [OF D(1)]) (simp add: h'_def)
    show "bq_ok (k_core k) h' (cs_blocked ?s)" by (rule bq_ok_cong [OF D(4)]) (use nb in \<open>force simp: h'_def\<close>)
    show "t_status (h' x) = Ready" if "x \<in> ready_set ?s" for x
      using that nr D(3) [of x] by (auto simp: h'_def)
    show "t_status (h' x) = Invalid" if "x \<in> set (finished_tasks ?s)" for x
      using that nf D(12) [of x] by (auto simp: h'_def)
    show "slots_ok (slot_base pf) (k_core k) ?h (live h' ?s) slots"
      using sl(2) by (simp add: live)
  qed (use D(2,5,6) ni live in \<open>auto simp: h'_def\<close>)
  moreover have "release_slot (k_core k) (k_slots k) (h' ?c) = release_slot (k_core k) (k_slots k) (?h ?c)"
    by (simp add: h'_def release_slot_def cong: option.case_cong)
  ultimately show ?thesis
    using sl(1) by (auto simp: h'_def)
qed

text \<open>The tasks that wait for the end of the current task.\<close>

definition joiners :: "kernel \<Rightarrow> task_handle list" where
  "joiners k = (case k_waiting k (t_id (k_store k (k_current k))) of None \<Rightarrow> [] | Some queue \<Rightarrow> queue)"

lemma exit_finish_ok:
  assumes ok: "sched_ok pf k" and run: "t_status (k_store k (k_current k)) = Running"
    and w: "\<forall>handle \<in> set (joiners k). waiter_ok k handle" "distinct (map handle_id (joiners k))"
  shows "\<exists>k'. exit_finish k = Some k' \<and> sched_ok pf k' \<and> k_current k' = k_current k \<and>
    t_status (k_store k' (k_current k)) = Finished"
proof -
  let ?c = "k_current k" and ?i = "t_id (k_store k (k_current k))"
  let ?h = "(k_store k)(?c := (k_store k ?c)\<lparr>t_status := Finished\<rparr>)"
  obtain slots where sl: "(if t_frame_location (?h ?c) = InSlot then release_slot (k_core k) (k_slots k) (?h ?c)
      else Some (k_slots k)) = Some slots" "core_ok (slot_base pf) ?h (k_sched k) slots"
    using finish_current_ok [OF ok run] by blast
  let ?k2 = "k\<lparr>k_store := ?h, k_no_tasks := k_no_tasks k - 1, k_slots := slots\<rparr>"
  let ?k2' = "?k2\<lparr>k_waiting := (k_waiting k)(?i := None)\<rparr>"
  have "t_id (?h x) = t_id (k_store k x)" for x by simp
  then have wt: "\<forall>handle \<in> set (joiners k). waiter_ok ?k2' handle"
    using w(1) unfolding waiter_ok_def by (simp cong: if_cong)
  obtain k3 where k3: "wake_all (joiners k) ?k2' = Some k3" "sched_ok pf k3" "k_current k3 = ?c"
    "k_store k3 ?c = ?h ?c"
    using wake_all_ok [of pf ?k2' "joiners k"] sl(2) wt w(2) by auto
  have fin: "exit_finish k = (case k_waiting k ?i of None \<Rightarrow> Some (?k2\<lparr>k_tasks := (k_tasks k)(?i := None)\<rparr>)
      | Some queue \<Rightarrow> do {k3 \<leftarrow> wake_all queue ?k2'; Some (k3\<lparr>k_tasks := (k_tasks k3)(?i := None)\<rparr>)})"
    using run sl(1) unfolding exit_finish_def
    by (cases "t_frame_location (k_store k ?c) = InSlot"; cases "k_waiting k ?i") (simp_all add: Let_def)
  show ?thesis
  proof (cases "k_waiting k ?i")
    case None
    with fin sl(2) show ?thesis by simp
  next
    case (Some queue)
    with fin k3 show ?thesis by (simp add: joiners_def)
  qed
qed

section \<open>The scheduler\<close>

lemma live_reaped [simp]: "live h (s\<lparr>finished_tasks := rs\<rparr>) = live h s"
  by (cases s) (simp add: live_def)

lemma core_ok_reaped: "core_ok base h s slots \<Longrightarrow> core_ok base h (s\<lparr>finished_tasks := []\<rparr>) slots"
  by (simp add: core_ok_def)

lemma core_ok_ready_cong:
  assumes ok: "core_ok base h s slots" and q: "rq_ok h q" "rq_order q = rq_order (cs_ready s)"
  shows "core_ok base h (s\<lparr>cs_ready := q\<rparr>) slots"
proof -
  have "live h (s\<lparr>cs_ready := q\<rparr>) = live h s"
    using q(2) by (cases s) (simp add: live_def)
  with ok q show ?thesis unfolding core_ok_def by simp
qed

lemma next_task_reaped [simp]: "next_task h (s\<lparr>finished_tasks := rs\<rparr>) = next_task h s"
  by (simp add: next_task_def Let_def split: list.split)

lemma reaped_simps [simp]:
  "order_after h (s\<lparr>finished_tasks := rs\<rparr>) = order_after h s" "order_switched h (s\<lparr>finished_tasks := rs\<rparr>) = order_switched h s"
  "status_after h (s\<lparr>finished_tasks := rs\<rparr>) r x = status_after h s r x"
  by (simp_all add: order_after_def order_switched_def status_after_def cong: if_cong)

lemma next_task_NoneD:
  "next_task h s = None \<Longrightarrow> t_status (h (current_task s)) = Running \<or> t_status (h (current_task s)) = Idle"
  by (auto simp: next_task_def Let_def split: list.splits if_splits)

text \<open>What a call does to the queues and to the status of the tasks.\<close>

definition scheduled :: "kernel \<Rightarrow> kernel \<Rightarrow> bool" where
  "scheduled k k' \<longleftrightarrow> (let h = k_store k; s = k_sched k in
     case next_task h s of
       None \<Rightarrow> k_current k' = current_task s \<and> rq_order (cs_ready (k_sched k')) = rq_order (cs_ready s) \<and>
         (\<forall>x. t_status (k_store k' x) = t_status (h x))
     | Some r \<Rightarrow> k_current k' = r \<and> rq_order (cs_ready (k_sched k')) = order_switched h s \<and>
         (\<forall>x. t_status (k_store k' x) = status_after h s r x))"

lemma scheduler_ok:
  assumes ok: "sched_ok pf k"
  shows "\<exists>k'. scheduler ex pf now False k =
      Some (case next_task (k_store k) (k_sched k) of None \<Rightarrow> None
            | Some r \<Rightarrow> if r = k_current k then None else Some (k_current k), k') \<and>
    sched_ok pf k' \<and> scheduled k k' \<and> cs_blocked (k_sched k') = cs_blocked (k_sched k) \<and>
    (\<forall>x. t_prio (k_store k' x) = t_prio (k_store k x)) \<and>
    finished_tasks (k_sched k') = (if t_status (k_store k (k_current k)) = Finished then [k_current k] else [])"
proof -
  let ?h = "k_store k" and ?s = "k_sched k"
  define n where "n = (if 0 < length (finished_tasks ?s) \<and> k_core k = 0 then Suc (k_nic_flushes k) else k_nic_flushes k)"
  define k3 where "k3 = k\<lparr>k_sched := ?s\<lparr>finished_tasks := []\<rparr>, k_nic_flushes := n\<rparr>"
  have k3: "k_store k3 = ?h" "k_sched k3 = ?s\<lparr>finished_tasks := []\<rparr>" "sched_ok pf k3" "finished_tasks (k_sched k3) = []"
    using core_ok_reaped [OF ok] by (simp_all add: k3_def)
  obtain q where q: "choose_task k3 = Some (next_task ?h ?s, chosen k3 q)" "rq_ok ?h q" "rq_order q = order_after ?h ?s"
    using choose_task_ok [OF core_okD(1) [OF k3(3)]] by (auto simp: k3)
  have reap: "(if 0 < fst (cleanup_tasks k) \<and> k_core (snd (cleanup_tasks k)) = 0
      then (snd (cleanup_tasks k))\<lparr>k_nic_flushes := Suc (k_nic_flushes (snd (cleanup_tasks k)))\<rparr>
      else snd (cleanup_tasks k)) = k3"
    by (cases k) (simp add: cleanup_tasks_def k3_def n_def)
  have run: "scheduler ex pf now False k = (case next_task ?h ?s of None \<Rightarrow> Some (None, chosen k3 q)
      | Some r \<Rightarrow> switch_to pf now (t_status (?h (k_current k)) = Running) (t_id (?h (k_current k))) r (chosen k3 q))"
    unfolding scheduler_def Let_def case_prod_beta simp_thms if_False reap using q(1)
    by (cases "next_task ?h ?s") (simp_all add: k3)
  show ?thesis
  proof (cases "next_task ?h ?s")
    case None
    have ne: "t_status (?h (k_current k)) \<noteq> Finished"
      using next_task_NoneD [OF None] by auto
    then have c: "chosen k3 q = k3\<lparr>k_sched := (k_sched k3)\<lparr>cs_ready := q\<rparr>\<rparr>"
      by (simp add: chosen_def retire_store_def retire_sched_def k3)
    have o: "rq_order q = rq_order (cs_ready ?s)"
      using q(3) None by (simp add: order_after_def)
    then have "sched_ok pf (chosen k3 q)"
      using core_ok_ready_cong [OF k3(3)] q(2) by (simp add: c k3)
    with None run ne o show ?thesis
      by (simp add: scheduled_def c k3)
  next
    case (Some r)
    have nx: "next_task (k_store k3) (k_sched k3) = Some r" "rq_ok (k_store k3) q"
      "rq_order q = tl (rq_order (cs_ready (k_sched k3)))"
      using Some q(2,3) by (simp_all add: k3 order_after_def)
    have cur: "current_task (k_sched k3) = k_current k" by (simp add: k3)
    obtain k' q1 where "switch_to pf now (t_status (?h (k_current k)) = Running) (t_id (?h (k_current k))) r (chosen k3 q) =
        Some (if r = k_current k then None else Some (k_current k), k')"
      "sched_ok pf k'" "k_sched k' = (retire_sched ?h (?s\<lparr>finished_tasks := []\<rparr>))\<lparr>cs_ready := q1, current_task := r\<rparr>"
      "rq_order q1 = order_switched ?h ?s" "\<forall>x. t_status (k_store k' x) = status_after ?h ?s r x"
      "\<forall>x. t_prio (k_store k' x) = t_prio (?h x)"
      using switch_to_ok [OF k3(3) nx(1) k3(4) nx(2,3), of now, unfolded cur, unfolded k3(1,2) next_task_reaped reaped_simps]
      by blast
    note sw = this
    have s': "current_task (k_sched k') = r" "cs_ready (k_sched k') = q1" "cs_blocked (k_sched k') = cs_blocked ?s"
      "finished_tasks (k_sched k') = (if t_status (?h (k_current k)) = Finished then [k_current k] else [])"
      unfolding sw(3) by (simp_all add: retire_sched_def)
    have "scheduled k k'"
      unfolding scheduled_def Let_def Some option.case s' using sw(4,5) by blast
    moreover have "scheduler ex pf now False k = Some (if r = k_current k then None else Some (k_current k), k')"
      unfolding run Some option.case by (rule sw(1))
    ultimately show ?thesis
      unfolding Some option.case using sw(2,6) s'(3,4) by blast
  qed
qed

section \<open>An example core\<close>

text \<open>Core 0: the idle task 0, the running task 1, the ready task 2 and task 3, blocked until 500.\<close>

definition demo_store :: task_store where
  "demo_store r =
     (if r = 0 then (plain_task IDLE_PRIO 0)\<lparr>t_status := Idle\<rparr>
      else (plain_task NORMAL_PRIO r)\<lparr>t_status := (if r = 1 then Running else if r = 3 then Blocked else Ready)\<rparr>)"

definition demo_core :: core_scheduler where
  "demo_core = \<lparr>cs_core_id = 0, current_task = 1, idle_task = 0, fpu_owner = 0,
     cs_ready = rq_new\<lparr>rq_bitmap := 4, rq_queues := (rq_queues rq_new)[2 := [2]]\<rparr>, finished_tasks = [],
     cs_blocked = [\<lparr>bt_task = 3, bt_wakeup = Some 500\<rparr>], cs_timers = demo_timer\<rparr>"

definition demo_kernel :: kernel where
  "demo_kernel = \<lparr>k_sched = demo_core, k_store = demo_store, k_next_task = 4, k_objmaps = (\<lambda>_. Map.empty),
     k_next_objmap = 1, k_mem = (\<lambda>_. 0), k_slots = replicate 4 (replicate 3 (- 1)), k_no_tasks = 4,
     k_waiting = Map.empty, k_tasks = Map.empty, k_tid_counter = 4, k_inputs = [scheduler_input_new],
     k_restart = [], k_kernel_sp = 0, k_core_counter = 0, k_ipis = [], k_nic_flushes = 0\<rparr>"

definition demo_platform :: platform where
  "demo_platform = \<lparr>slot_base = demo_base, task_start = 0x40000, tls_pointer = None, placeholder_entry = 0,
     idle_entry = 0x40100, stdio_object = (\<lambda>_. 0), kernel_image_start = 0x40000, kernel_image_end = 0x80000,
     processor_count = 1, page_align_up = (\<lambda>a n. (a + n - 1) div n * n), page_allocate = (\<lambda>_. Some 0x200000),
     frame_allocate = (\<lambda>_. Some 0x300000)\<rparr>"

lemma demo_store_simps [simp]:
  "t_id (demo_store r) = TaskId (int r)" "t_core_id (demo_store r) = 0" "t_frame_location (demo_store r) = InSlot"
  "t_slot (demo_store r) = None" "t_wake_pending (demo_store r) = False"
  "t_prio (demo_store r) = (if r = 0 then IDLE_PRIO else NORMAL_PRIO)"
  "t_status (demo_store r) = (if r = 0 then Idle else if r = 1 then Running else if r = 3 then Blocked else Ready)"
  by (simp_all add: demo_store_def)

lemma demo_core_order: "rq_order (cs_ready demo_core) = [2]" and demo_core_rq: "rq_ok demo_store (cs_ready demo_core)"
proof -
  have "rq_push demo_store rq_new 2 = Some (cs_ready demo_core)"
    by (simp add: rq_push_def demo_core_def rq_new_def)
  with rq_push_ok [OF rq_ok_new, of demo_store 2]
  show "rq_order (cs_ready demo_core) = [2]" "rq_ok demo_store (cs_ready demo_core)"
    by (auto simp: insert_prio_Nil)
qed

lemma demo_live: "live demo_store demo_core = {0, 1, 2, 3}"
proof -
  have "blocked_set demo_core = {3}" "idle_task demo_core = 0" "current_task demo_core = 1" by (simp_all add: demo_core_def)
  then show ?thesis by (auto simp: live_def demo_core_order)
qed

lemma demo_kernel_ok: "sched_ok demo_platform demo_kernel"
proof -
  have s: "cs_core_id demo_core = 0" "idle_task demo_core = 0" "current_task demo_core = 1" "fpu_owner demo_core = 0"
    "finished_tasks demo_core = []" "cs_blocked demo_core = [\<lparr>bt_task = 3, bt_wakeup = Some 500\<rparr>]" "cs_timers demo_core = demo_timer"
    by (simp_all add: demo_core_def)
  have k: "k_sched demo_kernel = demo_core" "k_store demo_kernel = demo_store" "k_slots demo_kernel = replicate 4 (replicate 3 (- 1))"
    by (simp_all add: demo_kernel_def)
  have b: "bq_ok 0 demo_store [\<lparr>bt_task = 3, bt_wakeup = Some 500\<rparr>]"
    by (simp add: bq_ok_def)
  have t: "timer_covers [\<lparr>bt_task = 3, bt_wakeup = Some 500\<rparr>] demo_timer"
    using demo_timer_covers by (simp add: timer_covers_def demo_blocked_def)
  have sl: "slots_ok base 0 demo_store {0, 1, 2, 3} (replicate 4 (replicate 3 (- 1)))" for base
    by (simp add: slots_ok_def)
  show ?thesis
    unfolding core_ok_def k demo_live s demo_core_order using demo_core_rq b t sl by (auto simp: inj_on_def)
qed

section \<open>What the scheduler guarantees\<close>

lemma ready_head_prio:
  assumes "rq_ok h q" "rq_order q = r # rs" "x \<in> set rs"
  shows "t_prio (h x) \<le> t_prio (h r)"
proof -
  have "prio_ordered (task_level h) (rq_order q)"
    using rq.waiters_ordered assms(1) .
  with assms(2,3) show ?thesis by (auto simp: prio_index_le)
qed

text \<open>After the call no ready task is more urgent than the one that runs.\<close>

lemma scheduled_urgent:
  assumes ok: "sched_ok pf k" and sch: "scheduled k k'" and prio: "\<forall>x. t_prio (k_store k' x) = t_prio (k_store k x)"
    and r: "r \<in> ready_set (k_sched k')"
  shows "t_prio (k_store k' r) \<le> t_prio (k_store k' (k_current k'))"
proof (cases "next_task (k_store k) (k_sched k)")
  case None
  then have k': "k_current k' = k_current k" "r \<in> ready_set (k_sched k)"
    using sch r by (simp_all add: scheduled_def Let_def)
  then obtain a as where as: "rq_order (cs_ready (k_sched k)) = a # as" by (cases "rq_order (cs_ready (k_sched k))") auto
  then have "\<not> t_prio (k_store k (k_current k)) \<le> t_prio (k_store k a)"
    using None by (simp add: next_task_def Let_def split: if_splits)
  moreover have "t_prio (k_store k r) \<le> t_prio (k_store k a)"
    using ready_head_prio [OF core_okD(1) [OF ok] as] k'(2) as by auto
  ultimately show ?thesis using prio k'(1) by simp
next
  case (Some n)
  then have k': "k_current k' = n" "rq_order (cs_ready (k_sched k')) = order_switched (k_store k) (k_sched k)"
    using sch by (simp_all add: scheduled_def Let_def)
  from r k'(2) have cases: "r \<in> set (tl (rq_order (cs_ready (k_sched k)))) \<or>
      r = k_current k \<and> t_status (k_store k (k_current k)) = Running"
    by (auto simp: order_switched_def split: if_splits)
  have "t_prio (k_store k r) \<le> t_prio (k_store k n)"
  proof (cases "rq_order (cs_ready (k_sched k))")
    case Nil
    with cases Some show ?thesis by (auto simp: next_task_def Let_def split: if_splits)
  next
    case (Cons a as)
    with Some have "n = a" "t_status (k_store k (k_current k)) = Running \<Longrightarrow> t_prio (k_store k (k_current k)) \<le> t_prio (k_store k a)"
      by (auto simp: next_task_def Let_def split: if_splits)
    with cases Cons show ?thesis
      using ready_head_prio [OF core_okD(1) [OF ok] Cons] by auto
  qed
  with prio k'(1) show ?thesis by simp
qed

text \<open>C1: A call of the scheduler on a consistent core never panics and leaves the core consistent. The task
  that runs afterwards is at least as urgent as every ready task, the queue and the status of all tasks
  are those of the specification (a preempted task goes to the end of its level, an ended task is put on
  the list of finished tasks), and the result names the old task exactly if the core switches.\<close>

theorem scheduler_runs_most_urgent:
  assumes "sched_ok pf k"
  shows "\<exists>res k'. scheduler ex pf now False k = Some (res, k') \<and> sched_ok pf k' \<and> scheduled k k' \<and>
    (\<forall>r \<in> ready_set (k_sched k'). t_prio (k_store k' r) \<le> t_prio (k_store k' (k_current k'))) \<and>
    res = (if k_current k' = k_current k then None else Some (k_current k)) \<and>
    finished_tasks (k_sched k') = (if t_status (k_store k (k_current k)) = Finished then [k_current k] else [])"
proof -
  let ?n = "next_task (k_store k) (k_sched k)"
  obtain k' where k': "scheduler ex pf now False k =
      Some (case ?n of None \<Rightarrow> None | Some r \<Rightarrow> if r = k_current k then None else Some (k_current k), k')"
    "sched_ok pf k'" "scheduled k k'" "\<forall>x. t_prio (k_store k' x) = t_prio (k_store k x)"
    "finished_tasks (k_sched k') = (if t_status (k_store k (k_current k)) = Finished then [k_current k] else [])"
    using scheduler_ok [OF assms] by blast
  have "(case ?n of None \<Rightarrow> None | Some r \<Rightarrow> if r = k_current k then None else Some (k_current k)) =
      (if k_current k' = k_current k then None else Some (k_current k))"
    using k'(3) by (cases ?n) (simp_all add: scheduled_def Let_def)
  with k' scheduled_urgent [OF assms k'(3,4)] show ?thesis by simp
qed

text \<open>Witness: the running task of the example core gives way to the ready task of the same priority.\<close>

theorem scheduler_runs_most_urgent_witness:
  "\<exists>k'. scheduler id demo_platform 400 False demo_kernel = Some (Some 1, k') \<and> k_current k' = 2 \<and>
    rq_order (cs_ready (k_sched k')) = [1] \<and> t_status (k_store k' 1) = Ready \<and> t_status (k_store k' 2) = Running"
proof -
  have k: "k_sched demo_kernel = demo_core" "k_store demo_kernel = demo_store" "current_task demo_core = 1"
    by (simp_all add: demo_kernel_def demo_core_def)
  have n: "next_task demo_store demo_core = Some 2"
    by (simp add: next_task_def k demo_core_order)
  from scheduler_runs_most_urgent [OF demo_kernel_ok, of id 400] obtain res k' where
    k': "scheduler id demo_platform 400 False demo_kernel = Some (res, k')" "scheduled demo_kernel k'"
      "res = (if k_current k' = 1 then None else Some 1)"
    unfolding k by blast
  have "k_current k' = 2" "rq_order (cs_ready (k_sched k')) = [1]" "t_status (k_store k' 1) = Ready" "t_status (k_store k' 2) = Running"
    using k'(2) by (simp_all add: scheduled_def Let_def k n order_switched_def demo_core_order insert_prio_Nil status_after_def)
  with k'(1,3) show ?thesis by simp
qed

section \<open>Taking turns\<close>

text \<open>\<open>n\<close> calls of the scheduler in a row, as the timer makes them while no task blocks.\<close>

primrec reschedule :: "platform \<Rightarrow> u64 \<Rightarrow> nat \<Rightarrow> kernel \<Rightarrow> kernel option" where
  "reschedule pf now 0 k = Some k"
| "reschedule pf now (Suc n) k = do {
     (old, k1) \<leftarrow> scheduler id pf now False k;
     reschedule pf now n k1
   }"

lemma insert_prio_same: "\<forall>y \<in> set xs. lvl y = lvl x \<Longrightarrow> insert_prio lvl x xs = xs @ [x]"
  by (induction xs) (simp_all add: insert_prio_Nil insert_prio_Cons)

lemma turn:
  assumes ok: "sched_ok pf k" and run: "t_status (k_store k (k_current k)) = Running"
    and order: "rq_order (cs_ready (k_sched k)) = r # rs"
    and same: "\<forall>x \<in> insert (k_current k) (set (r # rs)). t_prio (k_store k x) = p"
  shows "\<exists>old k'. scheduler id pf now False k = Some (old, k') \<and> sched_ok pf k' \<and>
    t_status (k_store k' (k_current k')) = Running \<and> k_current k' = r \<and>
    rq_order (cs_ready (k_sched k')) = rs @ [k_current k] \<and> (\<forall>x. t_prio (k_store k' x) = t_prio (k_store k x))"
proof -
  obtain old k' where k': "scheduler id pf now False k = Some (old, k')" "sched_ok pf k'" "scheduled k k'"
    "\<forall>x. t_prio (k_store k' x) = t_prio (k_store k x)"
    using scheduler_ok [OF ok] by blast
  have n: "next_task (k_store k) (k_sched k) = Some r"
    using order same by (simp add: next_task_def)
  have "t_status (k_store k r) = Ready"
    using core_okD(3) [OF ok, of r] order by simp
  then have "t_status (k_store k' r) = Running"
    using k'(3) n by (simp add: scheduled_def Let_def status_after_def)
  moreover have "rq_order (cs_ready (k_sched k')) = rs @ [k_current k]" "k_current k' = r"
    using k'(3) n run order same by (simp_all add: scheduled_def Let_def order_switched_def insert_prio_same)
  ultimately show ?thesis using k' by blast
qed

text \<open>C20: Tasks of one priority take turns. When the running task and all \<open>n\<close> ready tasks have the same
  priority, the \<open>i\<close>-th call of the scheduler runs the \<open>i\<close>-th task of the queue: no task is passed over,
  and after \<open>n + 1\<close> calls the first task runs again.\<close>

theorem round_robin:
  assumes "sched_ok pf k" "t_status (k_store k (k_current k)) = Running"
    "rq_order (cs_ready (k_sched k)) @ [k_current k] = rs" "\<forall>x \<in> set rs. t_prio (k_store k x) = p" "i < length rs"
  shows "\<exists>k'. reschedule pf now (Suc i) k = Some k' \<and> sched_ok pf k' \<and> k_current k' = rs ! i \<and>
    t_status (k_store k' (rs ! i)) = Running"
  using assms
proof (induction i arbitrary: k rs)
  case 0
  show ?case
  proof (cases "rq_order (cs_ready (k_sched k))")
    case Nil
    then have "next_task (k_store k) (k_sched k) = None"
      using 0(2) by (simp add: next_task_def)
    with scheduler_ok [OF 0(1), of id now] 0(2,3) Nil show ?thesis
      by (fastforce simp: scheduled_def Let_def)
  next
    case (Cons r rs')
    with turn [OF 0(1,2) Cons, of p now] 0(3,4) show ?thesis by fastforce
  qed
next
  case (Suc i)
  then obtain r rs' where r: "rq_order (cs_ready (k_sched k)) = r # rs'"
    by (cases "rq_order (cs_ready (k_sched k))") auto
  obtain old k1 where k1: "scheduler id pf now False k = Some (old, k1)" "sched_ok pf k1"
    "t_status (k_store k1 (k_current k1)) = Running" "k_current k1 = r"
    "rq_order (cs_ready (k_sched k1)) = rs' @ [k_current k]" "\<forall>x. t_prio (k_store k1 x) = t_prio (k_store k x)"
    using turn [OF Suc.prems(1,2) r, of p now] Suc.prems(3,4) r by fastforce
  have eq: "rs = r # rs' @ [k_current k]" using Suc.prems(3) r by simp
  have "\<exists>k'. reschedule pf now (Suc i) k1 = Some k' \<and> sched_ok pf k' \<and>
      k_current k' = (rs' @ [k_current k, r]) ! i \<and> t_status (k_store k' ((rs' @ [k_current k, r]) ! i)) = Running"
    by (rule Suc.IH [OF k1(2,3)]) (use k1 Suc.prems(4,5) eq in auto)
  moreover have "(rs' @ [k_current k, r]) ! i = rs ! Suc i"
    using Suc.prems(5) by (simp add: eq nth_append)
  ultimately show ?case using k1(1) by simp
qed

text \<open>Witness: on the example core the two tasks alternate.\<close>

theorem round_robin_witness:
  "\<exists>k1 k2. reschedule demo_platform 400 1 demo_kernel = Some k1 \<and> k_current k1 = 2 \<and>
    reschedule demo_platform 400 2 demo_kernel = Some k2 \<and> k_current k2 = 1"
proof -
  have k: "k_sched demo_kernel = demo_core" "k_store demo_kernel = demo_store" "current_task demo_core = 1"
    by (simp_all add: demo_kernel_def demo_core_def)
  note rr = round_robin [OF demo_kernel_ok, unfolded k demo_core_order, of "[2, 1]" NORMAL_PRIO _ 400]
  show ?thesis
    using rr [of 0] rr [of 1] by (auto simp: eval_nat_numeral)
qed

section \<open>All operations together\<close>

text \<open>
  The operations of a running core, in any order: the timer interrupt (\<open>wake_pending_tasks\<close>), a call of the
  scheduler, a task that blocks, ends, uses the FPU or changes its own priority, and a wake-up by handle. An
  operation of the current task needs that task to run; a wake-up by handle needs a handle of a blocked
  task (or of another core), and the tasks that wait for the end of a task are blocked.
\<close>

datatype core_event =
    Tick u64
  | Schedule u64
  | Block "u64 option"
  | Wake task_handle
  | Finish
  | Use_Fpu
  | Set_Prio priority

fun event_enabled :: "core_event \<Rightarrow> kernel \<Rightarrow> bool" where
  "event_enabled (Tick now) k = True"
| "event_enabled (Schedule now) k = True"
| "event_enabled (Block w) k = (t_status (k_store k (k_current k)) = Running)"
| "event_enabled (Wake handle) k = waiter_ok k handle"
| "event_enabled Finish k = (t_status (k_store k (k_current k)) = Running \<and>
     (\<forall>handle \<in> set (joiners k). waiter_ok k handle) \<and> distinct (map handle_id (joiners k)))"
| "event_enabled Use_Fpu k = (t_status (k_store k (k_current k)) = Running)"
| "event_enabled (Set_Prio p) k = (t_status (k_store k (k_current k)) = Running \<and> prio_index p < NO_PRIORITIES)"

fun core_step :: "platform \<Rightarrow> core_event \<Rightarrow> kernel \<Rightarrow> kernel option" where
  "core_step pf (Tick now) k = wake_pending_tasks now k"
| "core_step pf (Schedule now) k = map_option snd (scheduler id pf now False k)"
| "core_step pf (Block w) k = block_current_task w k"
| "core_step pf (Wake handle) k = custom_wakeup handle k"
| "core_step pf Finish k = exit_finish k"
| "core_step pf Use_Fpu k = Some (fpu_switch k)"
| "core_step pf (Set_Prio p) k = Some (set_current_task_priority p k)"

inductive core_reachable :: "platform \<Rightarrow> kernel \<Rightarrow> kernel \<Rightarrow> bool" for pf k0 where
  start: "core_reachable pf k0 k0"
| step: "core_reachable pf k0 k \<Longrightarrow> event_enabled e k \<Longrightarrow> core_step pf e k = Some k' \<Longrightarrow> core_reachable pf k0 k'"

lemma set_current_task_priority_ok:
  assumes ok: "sched_ok pf k" and run: "t_status (k_store k (k_current k)) = Running" and p: "prio_index p < NO_PRIORITIES"
  shows "sched_ok pf (set_current_task_priority p k)"
proof -
  let ?h = "k_store k" and ?s = "k_sched k" and ?c = "k_current k"
  let ?h' = "?h(?c := (?h ?c)\<lparr>t_prio := p\<rparr>)"
  note D = core_okD [OF ok]
  have nr: "?c \<notin> ready_set ?s" and nb: "?c \<notin> blocked_set ?s" using D(3) [of ?c] D(13) [of ?c] run by auto
  have keep: "t_status (?h' x) = t_status (?h x)" "t_id (?h' x) = t_id (?h x)" "t_core_id (?h' x) = t_core_id (?h x)"
    "t_frame_location (?h' x) = t_frame_location (?h x)" "t_wake_pending (?h' x) = t_wake_pending (?h x)" for x by simp_all
  have live: "live ?h' ?s = live ?h ?s" by (simp add: live_def)
  have "rq_ok ?h' (cs_ready ?s)" by (rule rq_ok_cong [OF D(1)]) (use nr in auto)
  moreover have "bq_ok (k_core k) ?h' (cs_blocked ?s)" by (rule bq_ok_cong [OF D(4)]) (use nb in force)
  moreover have "slots_ok (slot_base pf) (k_core k) ?h' (live ?h ?s) (k_slots k)" by (rule slots_ok_cong [OF D(10)]) simp
  moreover have "\<forall>x \<in> live ?h ?s. task_level ?h' x < NO_PRIORITIES" using D(8) p by auto
  ultimately have "core_ok (slot_base pf) ?h' ?s (k_slots k)"
    using ok unfolding core_ok_def live keep by blast
  then show ?thesis by (simp add: set_current_task_priority_def)
qed

lemma core_step_ok:
  assumes ok: "sched_ok pf k" and en: "event_enabled e k"
  shows "\<exists>k'. core_step pf e k = Some k' \<and> sched_ok pf k'"
proof (cases e)
  case (Tick now)
  with wake_pending_ok [OF ok, of now] show ?thesis by auto
next
  case (Schedule now)
  from scheduler_ok [OF ok, of id now] obtain res k' where "scheduler id pf now False k = Some (res, k')" "sched_ok pf k'" by blast
  with Schedule show ?thesis by simp
next
  case (Block w)
  with block_current_ok [OF ok, of w] en show ?thesis by auto
next
  case (Wake handle)
  with custom_wakeup_ok [OF ok, of handle] en show ?thesis by auto
next
  case Finish
  with exit_finish_ok [OF ok] en show ?thesis by auto
next
  case Use_Fpu
  with fpu_switch_ok [OF ok] en show ?thesis by auto
next
  case (Set_Prio p)
  with set_current_task_priority_ok [OF ok, of p] en show ?thesis by auto
qed

text \<open>C2: From a consistent core every sequence of ticks, reschedules, blocking, waking, ending, FPU use and
  priority changes stays in consistent states: ready and blocked tasks are in exactly the queue their
  status names, the timer covers every deadline and the slot table describes the frames; and no enabled
  operation panics in any of the states that are reached.\<close>

theorem core_never_panics:
  assumes "sched_ok pf k0" "core_reachable pf k0 k"
  shows "sched_ok pf k \<and> (\<forall>e. event_enabled e k \<longrightarrow> core_step pf e k \<noteq> None)"
proof -
  from assms(2) have "sched_ok pf k"
    by induction (use assms(1) core_step_ok in \<open>fastforce+\<close>)
  with core_step_ok show ?thesis by fastforce
qed

text \<open>Witness: the running task of the example core blocks and the core switches to the other task.\<close>

theorem core_never_panics_witness:
  "\<exists>k. core_reachable demo_platform demo_kernel k \<and> sched_ok demo_platform k \<and>
    core_step demo_platform (Tick 900) k \<noteq> None \<and> k \<noteq> demo_kernel"
proof -
  have en: "event_enabled (Block None) demo_kernel"
    by (simp add: demo_kernel_def demo_core_def)
  obtain k where k: "block_current_task None demo_kernel = Some k" "k_current demo_kernel \<in> blocked_set (k_sched k)"
    using block_current_ok [OF demo_kernel_ok, of None] en unfolding event_enabled.simps by blast
  then have "core_reachable demo_platform demo_kernel k"
    using core_reachable.step [OF core_reachable.start en, of demo_platform] by simp
  moreover have "k \<noteq> demo_kernel"
    using k(2) by (auto simp: demo_kernel_def demo_core_def)
  ultimately show ?thesis
    using core_never_panics [OF demo_kernel_ok, of k] by (metis event_enabled.simps(1))
qed


end
