(* ===== verification/Spawning.thy ===== *)
theory Spawning
  imports Core_Steps
begin

text \<open>
  New tasks: the search for a free identifier, spawning on the own core, and the change of another
  task's priority through the table of tasks.
\<close>

section \<open>Fresh identifiers\<close>

lemma wrap_i32_add: "wrap_i32 (wrap_i32 x + y) = wrap_i32 (x + y)"
proof -
  have "(x + 2 ^ 31) mod 2 ^ 32 - 2 ^ 31 + y + 2 ^ 31 = (x + 2 ^ 31) mod 2 ^ 32 + (y :: int)" by simp
  then show ?thesis unfolding wrap_i32_def by (simp only: mod_add_left_eq) (simp add: algebra_simps)
qed

lemma get_tid_loop_finds:
  assumes "\<forall>j < n. ts (TaskId (wrap_i32 (c + int j))) \<noteq> None" "ts (TaskId (wrap_i32 (c + int n))) = None" "wrap_i32 c = c"
  shows "get_tid_loop ts c = Some (TaskId (wrap_i32 (c + int n)), wrap_i32 (c + int n + 1))"
  using assms
proof (induction n arbitrary: c)
  case 0
  then show ?case by (subst get_tid_loop.simps) simp
next
  case (Suc n)
  have step: "wrap_i32 (wrap_i32 (c + 1) + int j) = wrap_i32 (c + int (Suc j))" for j
    unfolding wrap_i32_add by (simp add: algebra_simps)
  have "get_tid_loop ts (wrap_i32 (c + 1)) = Some (TaskId (wrap_i32 (wrap_i32 (c + 1) + int n)), wrap_i32 (wrap_i32 (c + 1) + int n + 1))"
    using Suc.prems(1,2) wrap_i32_add [of "c + 1" 0] by (intro Suc.IH) (auto simp: step)
  moreover have "wrap_i32 (wrap_i32 (c + 1) + int n + 1) = wrap_i32 (c + int (Suc n) + 1)"
    using wrap_i32_add [of "c + 1" "int n + 1"] by (simp add: algebra_simps)
  moreover have "ts (TaskId c) \<noteq> None" using Suc.prems(1,3) by force
  ultimately show ?case by (subst get_tid_loop.simps) (auto simp: step)
qed

lemma free_i32:
  assumes "finite (dom ts)" "card (dom ts) < 2 ^ 32"
  shows "\<exists>n. ts (TaskId (wrap_i32 (c + int n))) = None"
proof (rule ccontr)
  assume "\<nexists>n. ts (TaskId (wrap_i32 (c + int n))) = None"
  then have "(\<lambda>i. TaskId (wrap_i32 (c + i))) ` {0 ..< 2 ^ 32} \<subseteq> dom ts"
    by (clarsimp simp: dom_def) (metis nonneg_int_cases not_None_eq)
  then have "card ((\<lambda>i. TaskId (wrap_i32 (c + i))) ` {0 ..< 2 ^ 32}) \<le> card (dom ts)"
    using assms(1) by (rule card_mono [rotated])
  moreover have "inj_on (\<lambda>i. TaskId (wrap_i32 (c + i))) {0 ..< 2 ^ 32}"
  proof (rule inj_onI)
    fix i j :: int assume ij: "i \<in> {0 ..< 2 ^ 32}" "j \<in> {0 ..< 2 ^ 32}" "TaskId (wrap_i32 (c + i)) = TaskId (wrap_i32 (c + j))"
    then have "(c + 2 ^ 31 + i) mod 2 ^ 32 = (c + 2 ^ 31 + j) mod (2 ^ 32 :: int)" by (simp add: wrap_i32_def algebra_simps)
    then have "i mod 2 ^ 32 = j mod (2 ^ 32 :: int)" unfolding mod_eq_dvd_iff by (simp only: add_diff_cancel_left)
    with ij(1,2) show "i = j" by (simp only: atLeastLessThan_iff mod_pos_pos_trivial)
  qed
  ultimately show False using assms(2) by (simp add: card_image)
qed

text \<open>C27: The search for a task identifier ends as long as fewer than \<open>2 ^ 32\<close> tasks exist, also when the
  counter has wrapped around, and returns an identifier that no task has; nothing but the counter changes.\<close>

theorem get_tid_terminates:
  assumes "finite (dom (k_tasks k))" "card (dom (k_tasks k)) < 2 ^ 32" "wrap_i32 (k_tid_counter k) = k_tid_counter k"
  shows "\<exists>tid c. get_tid k = Some (tid, k\<lparr>k_tid_counter := c\<rparr>) \<and> k_tasks k tid = None \<and> wrap_i32 c = c"
proof -
  let ?free = "\<lambda>n. k_tasks k (TaskId (wrap_i32 (k_tid_counter k + int n))) = None"
  define n where "n = (LEAST n. ?free n)"
  have free: "?free n" unfolding n_def by (rule LeastI_ex [OF free_i32 [OF assms(1,2)]])
  have "\<forall>j < n. \<not> ?free j" unfolding n_def using not_less_Least by blast
  from get_tid_loop_finds [OF this free assms(3)] free show ?thesis
    by (auto simp: get_tid_def wrap_i32_add [of _ 0, simplified])
qed

text \<open>Witness: the counter stands at the largest value, which is taken; the next identifier is the smallest one.\<close>

theorem get_tid_terminates_witness:
  "\<exists>tid k'. get_tid (demo_kernel\<lparr>k_tid_counter := i32_max, k_tasks := [TaskId i32_max \<mapsto> handle_new (TaskId i32_max) LOW_PRIO 0]\<rparr>) =
      Some (tid, k') \<and> tid \<noteq> TaskId i32_max"
  using get_tid_terminates [of "demo_kernel\<lparr>k_tid_counter := i32_max, k_tasks := [TaskId i32_max \<mapsto> handle_new (TaskId i32_max) LOW_PRIO 0]\<rparr>"]
  by (auto simp: wrap_i32_def split: if_splits)

section \<open>Spawning\<close>

text \<open>The identifiers and addresses in use lie below the two counters.\<close>

definition registered :: "kernel \<Rightarrow> bool" where
  "registered k \<longleftrightarrow> 0 \<le> k_tid_counter k \<and> k_tid_counter k < i32_max \<and>
     (\<forall>i \<in> dom (k_tasks k). tid_into i < k_tid_counter k) \<and>
     (\<forall>x \<in> insert (k_current k) (live (k_store k) (k_sched k)). tid_into (t_id (k_store k x)) < k_tid_counter k) \<and>
     (\<forall>x \<in> insert (k_current k) (live (k_store k) (k_sched k)) \<union> set (finished_tasks (k_sched k)). x < k_next_task k)"

lemma get_tid_registered:
  assumes "registered k"
  shows "get_tid k = Some (TaskId (k_tid_counter k), k\<lparr>k_tid_counter := k_tid_counter k + 1\<rparr>)"
    "k_tasks k (TaskId (k_tid_counter k)) = None"
proof -
  let ?c = "k_tid_counter k"
  show free: "k_tasks k (TaskId ?c) = None"
    using assms unfolding registered_def by (metis domIff less_irrefl task_id.sel)
  have "wrap_i32 (?c + 1) = ?c + 1"
    using assms by (intro wrap_i32_id) (simp_all add: registered_def)
  with free show "get_tid k = Some (TaskId ?c, k\<lparr>k_tid_counter := ?c + 1\<rparr>)"
    unfolding get_tid_def by (subst get_tid_loop.simps) simp
qed

lemma task_from_fields:
  assumes "task_from pf nt m = (t, m')"
  shows "t_id t = nt_tid nt" "t_status t = Ready" "t_prio t = nt_prio nt" "t_core_id t = nt_core_id nt"
    "t_frame_location t = InSlot" "t_slot t = None" "\<not> t_wake_pending t" "t_object_map t = nt_object_map nt"
    "t_stacks t = nt_stacks nt" "t_entry t = nt_func nt" "t_entry_arg t = nt_arg nt"
  using assms by (auto simp: task_from_def create_stack_frame_def task_new_def Let_def)

lemma slots_ok_insert:
  assumes ok: "slots_ok base core h R pool" and t: "t_slot t = None" "0 \<le> tid_into (t_id t)"
    and fresh: "r \<notin> R" "\<forall>x \<in> R. t_id (h x) \<noteq> t_id t"
  shows "slots_ok base core (h(r := t)) (insert r R) pool"
proof -
  have "slots_ok base core (h(r := t)) R pool"
    by (rule slots_ok_cong [OF ok]) (use fresh(1) in auto)
  with t fresh show ?thesis
    unfolding slots_ok_def by (auto simp: inj_on_def)
qed
lemma core_ok_spawned:
  assumes ok: "sched_ok pf k" and reg: "registered k"
    and t: "t_id t = TaskId (k_tid_counter k)" "t_status t = Ready" "prio_index (t_prio t) < NO_PRIORITIES"
      "t_core_id t = k_core k" "t_frame_location t = InSlot" "t_slot t = None" "\<not> t_wake_pending t"
  defines "r \<equiv> k_next_task k" and "h \<equiv> (k_store k)(k_next_task k := t)"
  shows "\<exists>q. rq_push h (cs_ready (k_sched k)) r = Some q \<and>
    rq_order q = insert_prio (task_level h) r (rq_order (cs_ready (k_sched k))) \<and>
    core_ok (slot_base pf) h ((k_sched k)\<lparr>cs_ready := q\<rparr>) (k_slots k)"
proof -
  let ?s = "k_sched k" and ?L = "live (k_store k) (k_sched k)"
  note D = core_okD [OF ok]
  have new: "r \<notin> insert (k_current k) ?L" "r \<notin> set (finished_tasks ?s)"
    and ids: "\<forall>x \<in> insert (k_current k) ?L. t_id (k_store k x) \<noteq> t_id t"
    using reg t(1) unfolding registered_def r_def by auto
  then have old: "r \<notin> ready_set ?s" "r \<notin> blocked_set ?s" "r \<noteq> idle_task ?s" "r \<noteq> k_current k"
    using live_sub [where h = "k_store k" and s = ?s] by auto
  have h: "h x = (if x = r then t else k_store k x)" for x by (simp add: h_def r_def)
  have "rq_ok h (cs_ready ?s)" by (rule rq_ok_cong [OF D(1)]) (use old in \<open>auto simp: h\<close>)
  then obtain q where q: "rq_push h (cs_ready ?s) r = Some q" "rq_ok h q"
    "rq_order q = insert_prio (task_level h) r (rq_order (cs_ready ?s))"
    using rq_push_ok [of h "cs_ready ?s" r] t(3) by (auto simp: h)
  have live: "live h (?s\<lparr>cs_ready := q\<rparr>) = insert r ?L"
    using old(4) by (auto simp: live_def h q(3))
  have bq: "bq_ok (k_core k) h (cs_blocked ?s)" by (rule bq_ok_cong [OF D(4)]) (use old(2) in \<open>auto simp: h\<close>)
  have sl: "slots_ok (slot_base pf) (k_core k) h (insert r ?L) (k_slots k)"
    unfolding h_def r_def [symmetric]
    by (rule slots_ok_insert [OF D(10) t(6)]) (use new ids t(1) reg in \<open>auto simp: registered_def\<close>)
  have inj: "inj_on (\<lambda>x. t_id (h x)) (insert (k_current k) (insert r ?L))"
    using D(9) ids new(1) unfolding inj_on_def by (auto simp: h)
  have lv: "\<forall>x \<in> insert r ?L. t_core_id (h x) = k_core k \<and> task_level h x < NO_PRIORITIES \<and>
      t_frame_location (h x) \<noteq> BeingEvicted \<and> \<not> t_wake_pending (h x)"
    using D(8) t by (auto simp: h)
  have "core_ok (slot_base pf) h (?s\<lparr>cs_ready := q\<rparr>) (k_slots k)"
    unfolding core_ok_def live using q(2,3) bq sl inj lv D(2,3,5,6,7,11,12) old new(2) t(2)
    by (auto simp: h)
  with q show ?thesis by blast
qed

text \<open>What the allocators must give for a new task: stacks inside the address space.\<close>

definition stacks_available :: "platform \<Rightarrow> u64 \<Rightarrow> u64 \<Rightarrow> u64 \<Rightarrow> bool" where
  "stacks_available pf sz va pa \<longleftrightarrow>
     (let usz = user_stack_size_for (page_align_up pf) sz in
        page_allocate pf (usz + 0x23000) = Some va \<and> frame_allocate pf (usz + 0x20000) = Some pa \<and>
        (0x8000 \<le> sz \<longrightarrow> sz \<le> page_align_up pf sz 0x1000) \<and> unat va + unat usz + 0x23000 < 2 ^ 64)"

lemma demo_kernel_simps:
  "k_sched demo_kernel = demo_core" "k_store demo_kernel = demo_store" "current_task demo_core = 1" "cs_core_id demo_core = 0"
  "k_tid_counter demo_kernel = 4" "k_next_task demo_kernel = 4" "k_tasks demo_kernel = Map.empty"
  "finished_tasks demo_core = []" "length (k_inputs demo_kernel) = 1"
  by (simp_all add: demo_kernel_def demo_core_def)


section \<open>Changing the priority of another task\<close>

text \<open>C29: \<open>set_priority\<close> of a task other than the current one looks for it in the ready queue, at the priority it was
  spawned with. It panics exactly when the task is not there: a blocked task, and a task whose priority
  has been changed before, bring the kernel down.\<close>

theorem set_priority_panics_iff:
  assumes ok: "sched_ok pf k" and hd: "k_tasks k i = Some handle" "handle_core_id handle = k_core k"
    and other: "t_id (k_store k (k_current k)) \<noteq> handle_id handle"
    and prio: "prio_index prio < NO_PRIORITIES" "handle_level handle < NO_PRIORITIES"
  shows "set_priority i prio k = None \<longleftrightarrow>
    \<not> (\<exists>r \<in> ready_set (k_sched k). t_id (k_store k r) = handle_id handle \<and> t_prio (k_store k r) = handle_priority handle)"
proof -
  let ?h = "k_store k" and ?q = "cs_ready (k_sched k)"
  note D = core_okD [OF ok]
  have sp: "set_priority i prio k = do { (ok, h, q) \<leftarrow> rq_set_priority ?h ?q handle prio; guard ok;
      Some (True, with_sched (cs_ready_update (\<lambda>_. q)) (k\<lparr>k_store := h\<rparr>)) }"
    using hd other by (simp add: set_priority_def get_task_handle_def)
  show ?thesis
  proof (cases "\<exists>r \<in> ready_set (k_sched k). t_id (?h r) = handle_id handle \<and> t_prio (?h r) = handle_priority handle")
    case True
    then obtain r where r: "r \<in> ready_set (k_sched k)" "handle_id handle = t_id (?h r)" "handle_priority handle = t_prio (?h r)" by auto
    have "\<forall>x \<in> ready_set (k_sched k). t_id (?h x) = t_id (?h r) \<longrightarrow> x = r"
      using D(9) live_sub(1) [of "k_sched k" ?h] r(1) by (meson inj_onD insertI2 subsetD)
    from rq_set_priority_ok [OF D(1) r(1) D(2) this r(2,3) prio(1)] True show ?thesis
      unfolding sp by auto
  next
    case False
    have len: "length (rq_queues ?q) = NO_PRIORITIES" by (rule rq_ok_length [OF D(1)])
    have "t_id (?h r) \<noteq> handle_id handle" if "r \<in> set (rq_queues ?q ! handle_level handle)" for r
    proof
      assume "t_id (?h r) = handle_id handle"
      moreover have "r \<in> ready_set (k_sched k)"
        using that prio(2) len nth_mem [of "handle_level handle" "rq_queues ?q"] by (auto simp: rq_order_def set_pop_order)
      moreover have "task_level ?h r = handle_level handle"
        using D(1) that prio(2) len by (simp add: rq_ok_def levels_match_def)
      ultimately show False using False by (auto simp: prio_index_inj)
    qed
    then have "rq_set_priority ?h ?q handle prio = Some (False, ?h, ?q)"
      using prio(2) len by (intro rq_set_priority_missing) auto
    with False show ?thesis unfolding sp by simp
  qed
qed

text \<open>Witness: on the example core, changing the priority of the blocked task 3 panics.\<close>

theorem set_priority_panics_witness:
  "set_priority (TaskId 3) HIGH_PRIO (demo_kernel\<lparr>k_tasks := [TaskId 3 \<mapsto> handle_new (TaskId 3) NORMAL_PRIO 0]\<rparr>) = None"
  using set_priority_panics_iff [of demo_platform "demo_kernel\<lparr>k_tasks := [TaskId 3 \<mapsto> handle_new (TaskId 3) NORMAL_PRIO 0]\<rparr>"
      "TaskId 3" "handle_new (TaskId 3) NORMAL_PRIO 0" HIGH_PRIO] demo_kernel_ok
  by (simp add: demo_kernel_simps demo_core_order)

end
