(* ===== verification/Handle_Queue.thy ===== *)
theory Handle_Queue
  imports Tasks Prio_Bitmap
begin

text \<open>
  \<open>TaskHandlePriorityQueue\<close> of \<^verbatim>\<open>src/scheduler/task/mod.rs\<close>: the queue of waiting tasks
  inside semaphores, recursive mutexes and futexes. Its priority bitmap lives in a static pool of
  256 slots and is reached by index; the index is allocated on first use, and \<open>0\<close> stands for
  \<open>not allocated yet\<close>. A queue operation therefore changes the queue and the pool.

  The locale \<open>waiter_queue\<close> is the contract the clients rely on: a queue is the list of its
  handles in wake-up order. Its interpretation \<open>hq\<close> shows that the code meets it, for every queue
  that does not get pool slot \<open>0\<close>.
\<close>

section \<open>The bitmap pool\<close>

definition MAX_BITMAP_POOL :: nat where
  "MAX_BITMAP_POOL = 256"

lemma MAX_BITMAP_POOL_eq [simp]: "MAX_BITMAP_POOL = 256"
  by (simp add: MAX_BITMAP_POOL_def)

record bitmap_pool =
  bitmaps :: "u64 list"
  next_bitmap_id :: nat

definition bitmap_pool_init :: bitmap_pool where
  "bitmap_pool_init = \<lparr>bitmaps = replicate MAX_BITMAP_POOL 0, next_bitmap_id = 0\<rparr>"

definition alloc_bitmap_id :: "bitmap_pool \<Rightarrow> (nat \<times> bitmap_pool) option" where
  "alloc_bitmap_id p =
     (let i = next_bitmap_id p
      in if i < MAX_BITMAP_POOL then Some (i, p\<lparr>next_bitmap_id := Suc i\<rparr>) else None)"

section \<open>The queue\<close>

record handle_queue =
  hq_queues :: "task_handle list option list"
  hq_bitmap_id :: nat

definition hq_new :: handle_queue where
  "hq_new = \<lparr>hq_queues = replicate NO_PRIORITIES None, hq_bitmap_id = 0\<rparr>"

definition ensure_bitmap ::
    "bitmap_pool \<Rightarrow> handle_queue \<Rightarrow> (nat \<times> bitmap_pool \<times> handle_queue) option" where
  "ensure_bitmap p q =
     (if hq_bitmap_id q = 0
      then do {
        (i, p') \<leftarrow> alloc_bitmap_id p;
        Some (i, p', q\<lparr>hq_bitmap_id := i\<rparr>)
      }
      else Some (hq_bitmap_id q, p, q))"

text \<open>Reading the bitmap (\<open>bitmap\<close>) and changing it in place (\<open>bitmap_mut\<close>). Indexing the pool
  out of range panics.\<close>

definition hq_bitmap ::
    "bitmap_pool \<Rightarrow> handle_queue \<Rightarrow> (u64 \<times> bitmap_pool \<times> handle_queue) option" where
  "hq_bitmap p q = do {
     (i, p', q') \<leftarrow> ensure_bitmap p q;
     guard (i < length (bitmaps p'));
     Some (bitmaps p' ! i, p', q')
   }"

definition hq_bitmap_mut ::
    "(u64 \<Rightarrow> u64) \<Rightarrow> bitmap_pool \<Rightarrow> handle_queue \<Rightarrow> (bitmap_pool \<times> handle_queue) option" where
  "hq_bitmap_mut f p q = do {
     (i, p', q') \<leftarrow> ensure_bitmap p q;
     guard (i < length (bitmaps p'));
     Some (p'\<lparr>bitmaps := (bitmaps p')[i := f (bitmaps p' ! i)]\<rparr>, q')
   }"

definition hq_is_empty ::
    "bitmap_pool \<Rightarrow> handle_queue \<Rightarrow> (bool \<times> bitmap_pool \<times> handle_queue) option" where
  "hq_is_empty p q = do {
     (bm, p', q') \<leftarrow> hq_bitmap p q;
     Some (bm = 0, p', q')
   }"

definition hq_contains :: "handle_queue \<Rightarrow> task_handle \<Rightarrow> bool option" where
  "hq_contains q h = do {
     guard (handle_level h < length (hq_queues q));
     Some (case hq_queues q ! handle_level h of
             None \<Rightarrow> False
           | Some l \<Rightarrow> list_ex (\<lambda>x. handle_id x = handle_id h) l)
   }"

text \<open>
  A priority of 31 or more makes the array index panic (for 32 or more the shift panics first in
  a debug build), so the shifted bit is always one of the lower 31.
\<close>

definition hq_push ::
    "bitmap_pool \<Rightarrow> handle_queue \<Rightarrow> task_handle \<Rightarrow> (bitmap_pool \<times> handle_queue) option" where
  "hq_push p q h = do {
     let i = handle_level h;
     guard (i < length (hq_queues q));
     (p', q') \<leftarrow> hq_bitmap_mut (\<lambda>bm. bm OR push_bit i 1) p q;
     Some (p', q'\<lparr>hq_queues := (hq_queues q')
       [i := (case hq_queues q' ! i of Some l \<Rightarrow> Some (l @ [h]) | None \<Rightarrow> Some [h])]\<rparr>)
   }"

definition hq_pop_from_queue ::
    "bitmap_pool \<Rightarrow> handle_queue \<Rightarrow> nat \<Rightarrow> (task_handle option \<times> bitmap_pool \<times> handle_queue) option" where
  "hq_pop_from_queue p q i = do {
     guard (i < length (hq_queues q));
     (case hq_queues q ! i of
        None \<Rightarrow> Some (None, p, q)
      | Some l \<Rightarrow> do {
          let task = (case l of [] \<Rightarrow> None | x # _ \<Rightarrow> Some x);
          let q1 = q\<lparr>hq_queues := (hq_queues q)[i := Some (tl l)]\<rparr>;
          if tl l = []
          then do {
            (p', q') \<leftarrow> hq_bitmap_mut (\<lambda>bm. bm AND NOT (push_bit i 1)) p q1;
            Some (task, p', q')
          }
          else Some (task, p, q1)
        })
   }"

definition hq_pop ::
    "bitmap_pool \<Rightarrow> handle_queue \<Rightarrow> (task_handle option \<times> bitmap_pool \<times> handle_queue) option" where
  "hq_pop p q = do {
     (bm, p', q') \<leftarrow> hq_bitmap p q;
     (case msb bm of
        None \<Rightarrow> Some (None, p', q')
      | Some i \<Rightarrow> hq_pop_from_queue p' q' i)
   }"

text \<open>The scan of \<open>remove\<close>: every entry with the identifier is taken out; the flag records
  whether there was one.\<close>

fun remove_scan :: "task_id \<Rightarrow> task_handle list \<Rightarrow> task_handle list \<times> bool" where
  "remove_scan t [] = ([], False)"
| "remove_scan t (x # xs) =
     (let (ys, s) = remove_scan t xs
      in if handle_id x = t then (ys, True) else (x # ys, s))"

definition hq_remove ::
    "bitmap_pool \<Rightarrow> handle_queue \<Rightarrow> task_handle \<Rightarrow> (bool \<times> bitmap_pool \<times> handle_queue) option" where
  "hq_remove p q h = do {
     let i = handle_level h;
     guard (i < length (hq_queues q));
     (case hq_queues q ! i of
        None \<Rightarrow> Some (False, p, q)
      | Some l \<Rightarrow> do {
          let (l', success) = remove_scan (handle_id h) l;
          let q1 = q\<lparr>hq_queues := (hq_queues q)[i := Some l']\<rparr>;
          if l' = []
          then do {
            (p', q') \<leftarrow> hq_bitmap_mut (\<lambda>bm. bm AND NOT (push_bit i 1)) p q1;
            Some (success, p', q')
          }
          else Some (success, p, q1)
        })
   }"

section \<open>The contract of a queue of waiters\<close>

text \<open>The entries of one task at one priority.\<close>

definition same_waiter :: "task_handle \<Rightarrow> task_handle \<Rightarrow> bool" where
  "same_waiter h x \<longleftrightarrow> handle_id x = handle_id h \<and> handle_priority x = handle_priority h"

locale waiter_queue = prio_queue handle_level ok waiters push pop
  for ok :: "'s \<Rightarrow> bool"
    and waiters :: "'s \<Rightarrow> task_handle list"
    and push :: "'s \<Rightarrow> task_handle \<Rightarrow> 's option"
    and pop :: "'s \<Rightarrow> (task_handle option \<times> 's) option" +
  fixes remove :: "'s \<Rightarrow> task_handle \<Rightarrow> (bool \<times> 's) option"
    and is_empty :: "'s \<Rightarrow> (bool \<times> 's) option"
  assumes remove_law: "\<lbrakk>ok s; handle_level h < NO_PRIORITIES\<rbrakk> \<Longrightarrow>
      \<exists>s'. remove s h = Some (list_ex (same_waiter h) (waiters s), s') \<and>
           ok s' \<and> waiters s' = filter (\<lambda>x. \<not> same_waiter h x) (waiters s)"
    and is_empty_law: "ok s \<Longrightarrow> \<exists>s'. is_empty s = Some (waiters s = [], s') \<and>
           ok s' \<and> waiters s' = waiters s"
begin

text \<open>A task that is removed after it was pushed leaves the queue as it was.\<close>

lemma push_remove:
  assumes "ok s" and "handle_level h < NO_PRIORITIES" and "\<forall>x \<in> set (waiters s). \<not> same_waiter h x"
  shows "\<exists>s1 s2. push s h = Some s1 \<and> remove s1 h = Some (True, s2) \<and> ok s2 \<and> waiters s2 = waiters s"
proof -
  obtain s1 where s1: "push s h = Some s1" "ok s1" "waiters s1 = insert_prio handle_level h (waiters s)"
    using push_law [OF assms(1,2)] by blast
  obtain s2 where s2: "remove s1 h = Some (list_ex (same_waiter h) (waiters s1), s2)" "ok s2"
    "waiters s2 = filter (\<lambda>x. \<not> same_waiter h x) (waiters s1)"
    using remove_law [OF s1(2) assms(2)] by blast
  have "waiters s2 = filter (\<lambda>x. \<not> same_waiter h x) (waiters s)"
    using s1(3) s2(3) by (simp add: filter_insert_prio_other same_waiter_def)
  also have "\<dots> = waiters s"
    using assms(3) by (simp add: filter_id_conv)
  finally show ?thesis
    using s1 s2 by (auto simp: list_ex_iff same_waiter_def)
qed

end

section \<open>The code meets the contract\<close>

definition hq_levels :: "handle_queue \<Rightarrow> task_handle list list" where
  "hq_levels q = map (\<lambda>ol. case ol of None \<Rightarrow> [] | Some l \<Rightarrow> l) (hq_queues q)"

definition hq_waiters :: "handle_queue \<Rightarrow> task_handle list" where
  "hq_waiters q = pop_order (hq_levels q)"

text \<open>The pool: 256 slots, and those not handed out yet are zero.\<close>

definition pool_ok :: "bitmap_pool \<Rightarrow> bool" where
  "pool_ok p \<longleftrightarrow> length (bitmaps p) = MAX_BITMAP_POOL \<and> next_bitmap_id p \<le> MAX_BITMAP_POOL \<and>
     (\<forall>i. next_bitmap_id p \<le> i \<and> i < MAX_BITMAP_POOL \<longrightarrow> bitmaps p ! i = 0)"

text \<open>
  A queue is live when it owns a pool slot other than \<open>0\<close> and that slot describes its levels; it
  is fresh when it has not been used and slot \<open>0\<close> has already gone to another queue.
\<close>

definition hq_live :: "bitmap_pool \<Rightarrow> handle_queue \<Rightarrow> bool" where
  "hq_live p q \<longleftrightarrow> pool_ok p \<and> 0 < hq_bitmap_id q \<and> hq_bitmap_id q < next_bitmap_id p \<and>
     bitmap_ok (bitmaps p ! hq_bitmap_id q) (hq_levels q) \<and> levels_match handle_level (hq_levels q)"

definition hq_fresh :: "bitmap_pool \<Rightarrow> handle_queue \<Rightarrow> bool" where
  "hq_fresh p q \<longleftrightarrow> pool_ok p \<and> 0 < next_bitmap_id p \<and> next_bitmap_id p < MAX_BITMAP_POOL \<and>
     hq_bitmap_id q = 0 \<and> hq_queues q = replicate NO_PRIORITIES None"

definition hq_ok :: "bitmap_pool \<Rightarrow> handle_queue \<Rightarrow> bool" where
  "hq_ok p q \<longleftrightarrow> hq_live p q \<or> hq_fresh p q"

lemma pool_ok_init: "pool_ok bitmap_pool_init"
  by (simp add: pool_ok_def bitmap_pool_init_def)

lemma hq_levels_length: "hq_ok p q \<Longrightarrow> length (hq_queues q) = NO_PRIORITIES"
  by (auto simp: hq_ok_def hq_live_def hq_fresh_def bitmap_ok_def hq_levels_def)

lemma hq_fresh_levels: "hq_fresh p q \<Longrightarrow> hq_levels q = replicate NO_PRIORITIES []"
  by (simp add: hq_fresh_def hq_levels_def)

lemma ensure_bitmap_ok:
  assumes "hq_ok p q"
  obtains p' q' where "ensure_bitmap p q = Some (hq_bitmap_id q', p', q')"
    and "hq_live p' q'" and "hq_queues q' = hq_queues q" and "bitmaps p' = bitmaps p"
proof (cases "hq_live p q")
  case True
  then have "ensure_bitmap p q = Some (hq_bitmap_id q, p, q)"
    by (simp add: ensure_bitmap_def hq_live_def)
  with True that show ?thesis by blast
next
  case False
  with assms have fresh: "hq_fresh p q"
    by (simp add: hq_ok_def)
  let ?i = "next_bitmap_id p"
  let ?p = "p\<lparr>next_bitmap_id := Suc ?i\<rparr>" and ?q = "q\<lparr>hq_bitmap_id := ?i\<rparr>"
  have "ensure_bitmap p q = Some (hq_bitmap_id ?q, ?p, ?q)"
    using fresh by (simp add: ensure_bitmap_def hq_fresh_def alloc_bitmap_id_def Let_def)
  moreover have "hq_live ?p ?q"
    using fresh bitmap_ok_empty
    by (auto simp: hq_live_def hq_fresh_def pool_ok_def hq_levels_def levels_match_def)
  ultimately show ?thesis
    by (intro that [of ?q ?p]) simp_all
qed

lemma hq_bitmap_ok:
  assumes "hq_ok p q"
  obtains p' q' where "hq_bitmap p q = Some (bitmaps p' ! hq_bitmap_id q', p', q')"
    and "hq_live p' q'" and "hq_queues q' = hq_queues q"
proof -
  obtain p' q' where *: "ensure_bitmap p q = Some (hq_bitmap_id q', p', q')"
    "hq_live p' q'" "hq_queues q' = hq_queues q"
    using ensure_bitmap_ok [OF assms] by metis
  then have "hq_bitmap_id q' < length (bitmaps p')"
    by (simp add: hq_live_def pool_ok_def)
  with * that show ?thesis
    by (simp add: hq_bitmap_def)
qed

text \<open>Changing a live queue's bitmap and its levels together.\<close>

lemma hq_live_update:
  assumes "hq_live p q" and "bitmap_ok (f (bitmaps p ! hq_bitmap_id q)) (hq_levels q')"
    and "levels_match handle_level (hq_levels q')" and "hq_bitmap_id q' = hq_bitmap_id q"
  shows "hq_live (p\<lparr>bitmaps := (bitmaps p)[hq_bitmap_id q := f (bitmaps p ! hq_bitmap_id q)]\<rparr>) q'"
  using assms by (auto simp: hq_live_def pool_ok_def nth_list_update)

lemma hq_levels_update:
  "hq_levels (q\<lparr>hq_queues := (hq_queues q)[i := Some xs]\<rparr>) = (hq_levels q)[i := xs]"
  by (simp add: hq_levels_def map_update)

lemma hq_levels_nth:
  "i < length (hq_queues q) \<Longrightarrow>
    hq_levels q ! i = (case hq_queues q ! i of None \<Rightarrow> [] | Some l \<Rightarrow> l)"
  by (simp add: hq_levels_def)

lemma hq_levels_cong: "hq_queues q' = hq_queues q \<Longrightarrow> hq_levels q' = hq_levels q"
  by (simp add: hq_levels_def)

lemma remove_scan_eq:
  "remove_scan t xs = (filter (\<lambda>x. handle_id x \<noteq> t) xs, list_ex (\<lambda>x. handle_id x = t) xs)"
  by (induction xs) auto

lemma hq_bitmap_mut_live:
  assumes "pool_ok p" and "0 < hq_bitmap_id q" and "hq_bitmap_id q < next_bitmap_id p"
  shows "hq_bitmap_mut f p q =
    Some (p\<lparr>bitmaps := (bitmaps p)[hq_bitmap_id q := f (bitmaps p ! hq_bitmap_id q)]\<rparr>, q)"
  using assms by (simp add: hq_bitmap_mut_def ensure_bitmap_def pool_ok_def)

text \<open>Shrinking one level of a live queue, with the bit cleared when the level gets empty: the
  common step of \<open>pop_from_queue\<close> and \<open>remove\<close>.\<close>

definition shrink_level :: "bitmap_pool \<Rightarrow> handle_queue \<Rightarrow> nat \<Rightarrow> task_handle list \<Rightarrow>
    (bitmap_pool \<times> handle_queue) option" where
  "shrink_level p q i l =
     (let q1 = q\<lparr>hq_queues := (hq_queues q)[i := Some l]\<rparr>
      in if l = [] then hq_bitmap_mut (\<lambda>bm. bm AND NOT (push_bit i 1)) p q1 else Some (p, q1))"

lemma shrink_level_ok:
  assumes live: "hq_live p q" and i: "i < NO_PRIORITIES" and sub: "set l \<subseteq> set (hq_levels q ! i)"
  shows "\<exists>p' q'. shrink_level p q i l = Some (p', q') \<and> hq_live p' q' \<and>
    hq_levels q' = (hq_levels q)[i := l]"
proof -
  let ?q1 = "q\<lparr>hq_queues := (hq_queues q)[i := Some l]\<rparr>"
  let ?b = "bitmaps p ! hq_bitmap_id q"
  have len: "length (hq_levels q) = NO_PRIORITIES" and match: "levels_match handle_level (hq_levels q)"
    and bok: "bitmap_ok ?b (hq_levels q)"
    using live by (auto simp: hq_live_def bitmap_ok_def)
  have m: "levels_match handle_level (hq_levels ?q1)"
    using match sub i len by (auto simp: hq_levels_update intro!: levels_match_update dest: levels_matchD)
  have b: "bitmap_ok (if l = [] then ?b AND NOT (push_bit i 1) else ?b) (hq_levels ?q1)"
    unfolding hq_levels_update using sub by (intro bitmap_ok_update [OF bok i]) auto
  show ?thesis
  proof (cases "l = []")
    case True
    from live have mut: "hq_bitmap_mut f p ?q1 =
        Some (p\<lparr>bitmaps := (bitmaps p)[hq_bitmap_id q := f ?b]\<rparr>, ?q1)" for f
      by (subst hq_bitmap_mut_live) (auto simp: hq_live_def)
    have "hq_live (p\<lparr>bitmaps := (bitmaps p)[hq_bitmap_id q := ?b AND NOT (push_bit i 1)]\<rparr>) ?q1"
      using b m True by (intro hq_live_update [OF live, where f = "\<lambda>bm. bm AND NOT (push_bit i 1)"]) auto
    with True mut show ?thesis
      by (auto simp: shrink_level_def hq_levels_update)
  next
    case False
    have "hq_live p ?q1"
      using live b m False by (simp add: hq_live_def)
    with False show ?thesis
      by (auto simp: shrink_level_def hq_levels_update)
  qed
qed

lemma hq_pop_from_queue_shrink:
  "hq_pop_from_queue p q i = do {
     guard (i < length (hq_queues q));
     (case hq_queues q ! i of
        None \<Rightarrow> Some (None, p, q)
      | Some l \<Rightarrow> map_option (Pair (case l of [] \<Rightarrow> None | x # _ \<Rightarrow> Some x)) (shrink_level p q i (tl l)))
   }"
  by (auto simp: hq_pop_from_queue_def shrink_level_def Let_def guard_def bind_Pair
      split: option.splits)

lemma hq_remove_shrink:
  "hq_remove p q h = do {
     guard (handle_level h < length (hq_queues q));
     (case hq_queues q ! handle_level h of
        None \<Rightarrow> Some (False, p, q)
      | Some l \<Rightarrow> map_option (Pair (list_ex (\<lambda>x. handle_id x = handle_id h) l))
          (shrink_level p q (handle_level h) (filter (\<lambda>x. handle_id x \<noteq> handle_id h) l)))
   }"
  by (auto simp: hq_remove_def shrink_level_def Let_def guard_def remove_scan_eq bind_Pair
      split: option.splits)

lemma hq_push_ok:
  assumes ok: "hq_ok p q" and h: "handle_level h < NO_PRIORITIES"
  shows "\<exists>p' q'. hq_push p q h = Some (p', q') \<and> hq_ok p' q' \<and>
    hq_waiters q' = insert_prio handle_level h (hq_waiters q)"
proof -
  let ?i = "handle_level h"
  obtain p1 q1 where ens: "ensure_bitmap p q = Some (hq_bitmap_id q1, p1, q1)"
    and live: "hq_live p1 q1" and qs: "hq_queues q1 = hq_queues q"
    using ensure_bitmap_ok [OF ok] by metis
  let ?f = "\<lambda>bm :: u64. bm OR push_bit ?i 1"
  let ?b = "bitmaps p1 ! hq_bitmap_id q1"
  let ?p2 = "p1\<lparr>bitmaps := (bitmaps p1)[hq_bitmap_id q1 := ?f ?b]\<rparr>"
  let ?q2 = "q1\<lparr>hq_queues := (hq_queues q1)[?i := Some (hq_levels q1 ! ?i @ [h])]\<rparr>"
  have len: "length (hq_queues q1) = NO_PRIORITIES"
    using hq_levels_length [OF ok] qs by simp
  have "hq_bitmap_id q1 < length (bitmaps p1)"
    using live by (simp add: hq_live_def pool_ok_def)
  then have push: "hq_push p q h = Some (?p2, ?q2)"
    using ens qs h len by (simp add: hq_push_def hq_bitmap_mut_def hq_levels_nth Let_def split: option.splits)
  have match: "levels_match handle_level (hq_levels q1)" and lv: "length (hq_levels q1) = NO_PRIORITIES"
    and bok: "bitmap_ok ?b (hq_levels q1)"
    using live by (auto simp: hq_live_def bitmap_ok_def)
  have m: "levels_match handle_level ((hq_levels q1)[?i := hq_levels q1 ! ?i @ [h]])"
    using match lv h by (intro levels_match_update) (auto dest: levels_matchD)
  have "hq_live ?p2 ?q2"
    using bitmap_ok_push [OF bok h] m
    by (intro hq_live_update [OF live, where f = ?f]) (simp_all add: hq_levels_update)
  moreover have "hq_waiters ?q2 = insert_prio handle_level h (hq_waiters q)"
    using insert_prio_pop_order [OF match _ refl] lv h hq_levels_cong [OF qs]
    by (simp add: hq_waiters_def hq_levels_update)
  ultimately show ?thesis
    using push by (auto simp: hq_ok_def)
qed

lemma hq_pop_ok:
  assumes ok: "hq_ok p q"
  shows "\<exists>p' q'. hq_pop p q = Some (case hq_waiters q of [] \<Rightarrow> None | h # _ \<Rightarrow> Some h, p', q') \<and>
    hq_ok p' q' \<and> hq_waiters q' = tl (hq_waiters q)"
proof -
  obtain p1 q1 where bm: "hq_bitmap p q = Some (bitmaps p1 ! hq_bitmap_id q1, p1, q1)"
    and live: "hq_live p1 q1" and qs: "hq_queues q1 = hq_queues q"
    using hq_bitmap_ok [OF ok] by metis
  let ?b = "bitmaps p1 ! hq_bitmap_id q1"
  have w: "hq_waiters q = pop_order (hq_levels q1)"
    using hq_levels_cong [OF qs] by (simp add: hq_waiters_def)
  have bok: "bitmap_ok ?b (hq_levels q1)"
    using live by (simp add: hq_live_def)
  show ?thesis
  proof (cases "msb ?b")
    case None
    then have "hq_waiters q = []"
      using bitmap_ok_zero_order [OF bok] w by (simp add: msb_None)
    with None bm live w show ?thesis
      by (auto simp: hq_pop_def hq_ok_def hq_waiters_def)
  next
    case (Some i)
    note top = pop_order_msb [OF bok Some]
    obtain h l where hl: "hq_levels q1 ! i = h # l"
      using top(2) by (cases "hq_levels q1 ! i") auto
    have len: "length (hq_queues q1) = NO_PRIORITIES"
      using live by (simp add: hq_live_def bitmap_ok_def hq_levels_def)
    with hl top(1) have at: "hq_queues q1 ! i = Some (h # l)"
      by (auto simp: hq_levels_nth split: option.splits)
    obtain p2 q2 where sh: "shrink_level p1 q1 i l = Some (p2, q2)" "hq_live p2 q2"
      "hq_levels q2 = (hq_levels q1)[i := l]"
      using shrink_level_ok [OF live top(1), of l] hl by auto
    have i: "i < length (hq_levels q1)"
      using bok top(1) by (simp add: bitmap_ok_def)
    have "hq_waiters q2 = l @ pop_order (take i (hq_levels q1))"
      using sh(3) pop_order_update [OF i] top(3) hl pop_order_split [OF i]
      by (simp add: hq_waiters_def)
    with Some bm at sh len top(1,3) hl w show ?thesis
      by (auto simp: hq_pop_def hq_pop_from_queue_shrink hq_ok_def)
  qed
qed

lemma filter_same_waiter_pop_order:
  assumes "levels_match handle_level ls" and "i < length ls" and "handle_level h = i"
  shows "filter (\<lambda>x. \<not> same_waiter h x) (pop_order ls) =
      pop_order (ls[i := filter (\<lambda>x. handle_id x \<noteq> handle_id h) (ls ! i)])"
    and "list_ex (same_waiter h) (pop_order ls) \<longleftrightarrow> list_ex (\<lambda>x. handle_id x = handle_id h) (ls ! i)"
proof -
  have here: "same_waiter h x \<longleftrightarrow> handle_id x = handle_id h" if "x \<in> set (ls ! i)" for x
    using levels_matchD [OF assms(1,2) that] assms(3)
    by (auto simp: same_waiter_def prio_index_inj [symmetric])
  have other: "\<not> same_waiter h x"
    if "x \<in> set (pop_order (drop (Suc i) ls)) \<or> x \<in> set (pop_order (take i ls))" for x
    using levels_match_take_drop [OF assms(1,2), of x] that assms(3)
    by (auto simp: same_waiter_def)
  have "filter (\<lambda>x. \<not> same_waiter h x) (ls ! i) = filter (\<lambda>x. handle_id x \<noteq> handle_id h) (ls ! i)"
    using here by (auto intro: filter_cong)
  then show "filter (\<lambda>x. \<not> same_waiter h x) (pop_order ls) =
      pop_order (ls[i := filter (\<lambda>x. handle_id x \<noteq> handle_id h) (ls ! i)])"
    using other by (simp add: pop_order_split [OF assms(2)] pop_order_update [OF assms(2)] filter_id_conv)
  show "list_ex (same_waiter h) (pop_order ls) \<longleftrightarrow> list_ex (\<lambda>x. handle_id x = handle_id h) (ls ! i)"
    using here other by (auto simp: pop_order_split [OF assms(2)] list_ex_iff)
qed

lemma hq_remove_ok:
  assumes ok: "hq_ok p q" and h: "handle_level h < NO_PRIORITIES"
  shows "\<exists>p' q'. hq_remove p q h = Some (list_ex (same_waiter h) (hq_waiters q), p', q') \<and>
    hq_ok p' q' \<and> hq_waiters q' = filter (\<lambda>x. \<not> same_waiter h x) (hq_waiters q)"
proof -
  let ?i = "handle_level h"
  have len: "length (hq_queues q) = NO_PRIORITIES"
    using hq_levels_length [OF ok] .
  then have i: "?i < length (hq_levels q)"
    using h by (simp add: hq_levels_def)
  have match: "levels_match handle_level (hq_levels q)"
    using ok hq_fresh_levels by (auto simp: hq_ok_def hq_live_def levels_match_def)
  note fl = filter_same_waiter_pop_order [OF match i refl]
  show ?thesis
  proof (cases "hq_queues q ! ?i")
    case None
    then have e: "hq_levels q ! ?i = []"
      using h len by (simp add: hq_levels_nth)
    then have "(hq_levels q)[?i := []] = hq_levels q"
      by (metis list_update_id)
    with None e fl ok h len show ?thesis
      by (auto simp: hq_remove_shrink hq_waiters_def)
  next
    case (Some l)
    then have l: "hq_levels q ! ?i = l"
      using h len by (simp add: hq_levels_nth)
    from Some ok h have live: "hq_live p q"
      by (auto simp: hq_ok_def hq_fresh_def)
    obtain p' q' where "shrink_level p q ?i (filter (\<lambda>x. handle_id x \<noteq> handle_id h) l) = Some (p', q')"
      "hq_live p' q'" "hq_levels q' = (hq_levels q)[?i := filter (\<lambda>x. handle_id x \<noteq> handle_id h) l]"
      using shrink_level_ok [OF live h, of "filter (\<lambda>x. handle_id x \<noteq> handle_id h) l"] l by auto
    with Some l fl h len show ?thesis
      by (auto simp: hq_remove_shrink hq_waiters_def hq_ok_def)
  qed
qed

lemma hq_is_empty_ok:
  assumes "hq_ok p q"
  shows "\<exists>p' q'. hq_is_empty p q = Some (hq_waiters q = [], p', q') \<and>
    hq_ok p' q' \<and> hq_waiters q' = hq_waiters q"
proof -
  obtain p1 q1 where bm: "hq_bitmap p q = Some (bitmaps p1 ! hq_bitmap_id q1, p1, q1)"
    and live: "hq_live p1 q1" and qs: "hq_queues q1 = hq_queues q"
    using hq_bitmap_ok [OF assms] by metis
  have "bitmaps p1 ! hq_bitmap_id q1 = 0 \<longleftrightarrow> hq_waiters q = []"
    using live bitmap_ok_zero_order hq_levels_cong [OF qs]
    by (auto simp: hq_live_def hq_waiters_def)
  with bm live hq_levels_cong [OF qs] show ?thesis
    by (auto simp: hq_is_empty_def hq_ok_def hq_waiters_def)
qed

lemma hq_contains_ok:
  assumes ok: "hq_ok p q" and h: "handle_level h < NO_PRIORITIES"
  shows "hq_contains q h = Some (list_ex (same_waiter h) (hq_waiters q))"
proof -
  have len: "length (hq_queues q) = NO_PRIORITIES"
    using hq_levels_length [OF ok] .
  then have i: "handle_level h < length (hq_levels q)"
    using h by (simp add: hq_levels_def)
  have match: "levels_match handle_level (hq_levels q)"
    using ok hq_fresh_levels by (auto simp: hq_ok_def hq_live_def levels_match_def)
  from filter_same_waiter_pop_order (2) [OF match i refl] len h show ?thesis
    by (auto simp: hq_contains_def hq_waiters_def hq_levels_nth split: option.splits)
qed

lemma hq_ok_levels_match: "hq_ok p q \<Longrightarrow> levels_match handle_level (hq_levels q)"
  using hq_fresh_levels by (auto simp: hq_ok_def hq_live_def levels_match_def)

lemma hq_waiters_level:
  assumes "hq_ok p q" and "h \<in> set (hq_waiters q)"
  shows "handle_level h < NO_PRIORITIES"
proof -
  have len: "length (hq_levels q) = NO_PRIORITIES"
    using hq_levels_length [OF assms(1)] by (simp add: hq_levels_def)
  with levels_match_member (1) [OF hq_ok_levels_match [OF assms(1)]] assms(2) show ?thesis
    by (simp add: hq_waiters_def)
qed

interpretation hq: waiter_queue
  "\<lambda>(p, q). hq_ok p q" "\<lambda>(p, q). hq_waiters q"
  "\<lambda>(p, q). hq_push p q" "\<lambda>(p, q). hq_pop p q" "\<lambda>(p, q). hq_remove p q" "\<lambda>(p, q). hq_is_empty p q"
proof (unfold_locales, goal_cases)
  case (1 s h)
  then show ?case using hq_push_ok by (cases s) auto
next
  case (2 s)
  then show ?case using hq_pop_ok by (cases s) auto
next
  case (3 s)
  then show ?case
    using levels_match_ordered [OF hq_ok_levels_match] by (cases s) (auto simp: hq_waiters_def)
next
  case (4 s h)
  then show ?case using hq_waiters_level by (cases s) auto
next
  case (5 s h)
  then show ?case using hq_remove_ok by (cases s) auto
next
  case (6 s)
  then show ?case using hq_is_empty_ok by (cases s) auto
qed

section \<open>Properties\<close>

text \<open>A pool whose slot 0 is taken, and a queue that is not used yet.\<close>

definition demo_bitmaps :: bitmap_pool where
  "demo_bitmaps = bitmap_pool_init\<lparr>next_bitmap_id := 1\<rparr>"

lemma demo_hq_fresh: "hq_ok demo_bitmaps hq_new"
proof -
  have "pool_ok demo_bitmaps"
    using pool_ok_init by (auto simp: pool_ok_def demo_bitmaps_def bitmap_pool_init_def)
  moreover have "next_bitmap_id demo_bitmaps = 1"
    by (simp add: demo_bitmaps_def)
  ultimately show ?thesis
    by (simp add: hq_ok_def hq_fresh_def hq_new_def)
qed

lemma hq_waiters_new [simp]: "hq_waiters hq_new = []"
  using hq_fresh_levels [of demo_bitmaps hq_new] demo_hq_fresh
  by (auto simp: hq_waiters_def hq_ok_def hq_live_def hq_new_def pop_order_Nil_iff)



text \<open>A waiter that gives up. Taking a task out again that was just put into a queue it was not in
  succeeds and leaves the wake-up order of the others as it was.\<close>

theorem push_then_remove_restores:
  assumes "hq_ok p q" and "handle_level h < NO_PRIORITIES" and "\<forall>x \<in> set (hq_waiters q). \<not> same_waiter h x"
  shows "\<exists>p1 q1 p2 q2. hq_push p q h = Some (p1, q1) \<and> hq_contains q1 h = Some True \<and>
    hq_remove p1 q1 h = Some (True, p2, q2) \<and> hq_contains q2 h = Some False \<and>
    hq_ok p2 q2 \<and> hq_waiters q2 = hq_waiters q"
proof -
  obtain p1 q1 p2 q2 where run: "hq_push p q h = Some (p1, q1)" "hq_remove p1 q1 h = Some (True, p2, q2)"
    "hq_ok p2 q2" "hq_waiters q2 = hq_waiters q"
    using hq.push_remove [of "(p, q)" h] assms by auto
  have q1: "hq_ok p1 q1" "hq_waiters q1 = insert_prio handle_level h (hq_waiters q)"
    using hq_push_ok [OF assms(1,2)] run(1) by auto
  have "hq_contains q1 h = Some True"
    unfolding hq_contains_ok [OF q1(1) assms(2)] q1(2) by (simp add: list_ex_iff same_waiter_def)
  moreover have "hq_contains q2 h = Some False"
    unfolding hq_contains_ok [OF run(3) assms(2)] run(4) using assms(3) by (simp add: list_ex_iff)
  ultimately show ?thesis
    using run by blast
qed

theorem push_then_remove_witness:
  "\<exists>p1 q1 p2 q2. hq_push demo_bitmaps hq_new (handle_new (TaskId 1) NORMAL_PRIO 0) = Some (p1, q1) \<and>
    hq_remove p1 q1 (handle_new (TaskId 1) NORMAL_PRIO 0) = Some (True, p2, q2) \<and> hq_waiters q2 = []"
  using push_then_remove_restores [OF demo_hq_fresh, of "handle_new (TaskId 1) NORMAL_PRIO 0"]
  by auto

lemma slot_zero_loses_waiter:
  assumes "next_bitmap_id p = 0" and "hq_bitmap_id q = 0" and "1 < length (bitmaps p)"
    and "bitmaps p ! 1 = 0" and "handle_level h < length (hq_queues q)"
  shows "\<exists>p1 q1 p2 q2. hq_push p q h = Some (p1, q1) \<and> hq_contains q1 h = Some True \<and>
    hq_pop p1 q1 = Some (None, p2, q2) \<and> hq_contains q2 h = Some True"
proof -
  let ?i = "handle_level h"
  let ?p1 = "p\<lparr>next_bitmap_id := 1, bitmaps := (bitmaps p)[0 := bitmaps p ! 0 OR push_bit ?i 1]\<rparr>"
  let ?q1 = "q\<lparr>hq_queues := (hq_queues q)
    [?i := (case hq_queues q ! ?i of Some l \<Rightarrow> Some (l @ [h]) | None \<Rightarrow> Some [h])]\<rparr>"
  have push: "hq_push p q h = Some (?p1, ?q1)"
    using assms(1-3,5)
    by (auto simp: hq_push_def hq_bitmap_mut_def ensure_bitmap_def alloc_bitmap_id_def Let_def)
  have "bitmaps ?p1 ! 1 = 0" and "msb 0 = None"
    using assms(4) by (simp_all add: msb_None)
  then have pop: "hq_pop ?p1 ?q1 = Some (None, ?p1\<lparr>next_bitmap_id := 2\<rparr>, ?q1\<lparr>hq_bitmap_id := 1\<rparr>)"
    using assms(2,3) by (simp add: hq_pop_def hq_bitmap_def ensure_bitmap_def alloc_bitmap_id_def numeral_2_eq_2)
  have "hq_contains q2 h = Some True" if "hq_queues q2 = hq_queues ?q1" for q2
    using assms(5) that by (simp add: hq_contains_def split: option.splits)
  then have "hq_contains ?q1 h = Some True" and "hq_contains (?q1\<lparr>hq_bitmap_id := 1\<rparr>) h = Some True"
    by simp_all
  with push pop show ?thesis by blast
qed

text \<open>C24: The first queue of the system loses its first waiter. \<open>alloc_bitmap_id\<close> hands out slot 0 first,
  and \<open>ensure_bitmap\<close> takes 0 for \<open>no slot\<close>: the push records the task in bitmap 0 and the pop looks
  at a new, empty bitmap. The task is in the queue, yet the pop finds nobody to wake.\<close>

theorem first_queue_loses_waiter:
  fixes h :: task_handle
  assumes "handle_level h < NO_PRIORITIES"
  shows "\<exists>p1 q1 p2 q2. hq_push bitmap_pool_init hq_new h = Some (p1, q1) \<and>
    hq_contains q1 h = Some True \<and> hq_pop p1 q1 = Some (None, p2, q2) \<and> hq_contains q2 h = Some True"
  by (rule slot_zero_loses_waiter) (use assms in \<open>simp_all add: bitmap_pool_init_def hq_new_def\<close>)

theorem first_queue_loses_waiter_witness:
  "\<exists>p1 q1 p2 q2. hq_push bitmap_pool_init hq_new (handle_new (TaskId 1) NORMAL_PRIO 0) = Some (p1, q1) \<and>
    hq_pop p1 q1 = Some (None, p2, q2)"
  using first_queue_loses_waiter [of "handle_new (TaskId 1) NORMAL_PRIO 0"]
  by auto

end
