(* ===== verification/Synch.thy ===== *)
theory Synch
  imports Core_Steps Handle_Queue
begin

text \<open>
  Blocking synchronisation: \<^verbatim>\<open>src/synch/semaphore.rs\<close>, \<^verbatim>\<open>src/synch/recmutex.rs\<close> and
  \<^verbatim>\<open>src/synch/futex.rs\<close>. An operation that may sleep is a loop around \<open>reschedule\<close>; the model has one
  definition for each iteration, whose outcome says whether the call returns or the task sleeps and tries
  again when it runs next. The static bitmap pool of the waiter queues is passed along with the kernel.

  The locale \<open>sleepers\<close> is what the three share: a queue of waiters and a kernel that can wake them.
\<close>

section \<open>Semaphores\<close>

record semaphore =
  sem_count :: int
  sem_queue :: handle_queue

definition isize_max :: int where
  "isize_max = 2 ^ 63 - 1"

definition sem_new :: "int \<Rightarrow> semaphore" where
  "sem_new count = \<lparr>sem_count = count, sem_queue = hq_new\<rparr>"

text \<open>The deadline of \<open>acquire\<close>: milliseconds from now, in microseconds.\<close>

definition sem_deadline :: "u64 \<Rightarrow> u64 option \<Rightarrow> u64 option" where
  "sem_deadline now time = map_option (\<lambda>ms. now + ms * 1000) time"

datatype acquire_outcome = Acquired | Timed_Out | Sleeping | Snoozing

text \<open>One iteration of \<open>acquire\<close>. \<open>backoff\<close> tells whether the spinning phase is over; when the task
  sleeps, the scheduler runs next and the task continues with another iteration.\<close>

definition sem_acquire_step ::
    "bool \<Rightarrow> u64 option \<Rightarrow> u64 \<Rightarrow> kernel \<times> bitmap_pool \<Rightarrow> semaphore \<Rightarrow>
     (acquire_outcome \<times> (kernel \<times> bitmap_pool) \<times> semaphore) option" where
  "sem_acquire_step backoff wakeup_time now kp sem =
     (let (k, p) = kp in
      if 0 < sem_count sem then Some (Acquired, kp, sem\<lparr>sem_count := sem_count sem - 1\<rparr>)
      else if (case wakeup_time of Some t \<Rightarrow> t < now | None \<Rightarrow> False)
      then do {
        (_, p1, q) \<leftarrow> hq_remove p (sem_queue sem) (get_current_task_handle k);
        Some (Timed_Out, (k, p1), sem\<lparr>sem_queue := q\<rparr>)
      }
      else if backoff
      then do {
        k1 \<leftarrow> block_current_task wakeup_time k;
        (p1, q) \<leftarrow> hq_push p (sem_queue sem) (get_current_task_handle k1);
        Some (Sleeping, (k1, p1), sem\<lparr>sem_queue := q\<rparr>)
      }
      else Some (Snoozing, kp, sem))"

definition sem_try_acquire :: "semaphore \<Rightarrow> bool \<times> semaphore" where
  "sem_try_acquire sem =
     (if 0 < sem_count sem then (True, sem\<lparr>sem_count := sem_count sem - 1\<rparr>) else (False, sem))"

definition sem_release :: "kernel \<times> bitmap_pool \<Rightarrow> semaphore \<Rightarrow> ((kernel \<times> bitmap_pool) \<times> semaphore) option" where
  "sem_release kp sem = do {
     let (k, p) = kp;
     guard (sem_count sem < isize_max);
     (task, p1, q) \<leftarrow> hq_pop p (sem_queue sem);
     let sem1 = sem\<lparr>sem_count := sem_count sem + 1, sem_queue := q\<rparr>;
     (case task of
        None \<Rightarrow> Some ((k, p1), sem1)
      | Some handle \<Rightarrow> do {
          k1 \<leftarrow> custom_wakeup handle k;
          Some ((k1, p1), sem1)
        })
   }"

section \<open>Recursive mutexes\<close>

record recmutex =
  rm_tid :: "task_id option"
  rm_count :: nat
  rm_queue :: handle_queue

definition rm_new :: recmutex where
  "rm_new = \<lparr>rm_tid = None, rm_count = 0, rm_queue = hq_new\<rparr>"

definition rm_acquire_step ::
    "kernel \<times> bitmap_pool \<Rightarrow> recmutex \<Rightarrow> (acquire_outcome \<times> (kernel \<times> bitmap_pool) \<times> recmutex) option" where
  "rm_acquire_step kp m =
     (let (k, p) = kp; tid = get_current_task_id k in
      case rm_tid m of
        Some current_tid \<Rightarrow>
          if current_tid = tid then Some (Acquired, kp, m\<lparr>rm_count := rm_count m + 1\<rparr>)
          else do {
            k1 \<leftarrow> block_current_task None k;
            (p1, q) \<leftarrow> hq_push p (rm_queue m) (get_current_task_handle k1);
            Some (Sleeping, (k1, p1), m\<lparr>rm_queue := q\<rparr>)
          }
      | None \<Rightarrow> Some (Acquired, kp, m\<lparr>rm_tid := Some tid, rm_count := 1\<rparr>))"

definition rm_release :: "kernel \<times> bitmap_pool \<Rightarrow> recmutex \<Rightarrow> ((kernel \<times> bitmap_pool) \<times> recmutex) option" where
  "rm_release kp m = do {
     let (k, p) = kp;
     let m1 = (if 0 < rm_count m then m\<lparr>rm_count := rm_count m - 1\<rparr> else m);
     if 0 < rm_count m1 then Some (kp, m1)
     else do {
       (task, p1, q) \<leftarrow> hq_pop p (rm_queue m1);
       let m2 = m1\<lparr>rm_tid := None, rm_queue := q\<rparr>;
       (case task of
          None \<Rightarrow> Some ((k, p1), m2)
        | Some handle \<Rightarrow> do {
            k1 \<leftarrow> custom_wakeup handle k;
            Some ((k1, p1), m2)
          })
     }
   }"

section \<open>Futexes\<close>

text \<open>The parking lot maps the address of a futex word to the queue of its waiters.\<close>

record futex_sys =
  fx_kernel :: kernel
  fx_pool :: bitmap_pool
  fx_lot :: "u64 \<rightharpoonup> handle_queue"
  fx_word :: "u64 \<Rightarrow> u32"

definition futex_deadline :: "u64 \<Rightarrow> u64 option \<Rightarrow> bool \<Rightarrow> u64 option" where
  "futex_deadline now timeout relative =
     (if relative
      then (case timeout of
              None \<Rightarrow> None
            | Some t \<Rightarrow> if unat now + unat t < 2 ^ 64 then Some (now + t) else None)
      else timeout)"

datatype futex_outcome = Returned int | Parked task_handle "u64 option"

text \<open>The part that both kinds of wait share: sleep and enter the queue of the address.\<close>

definition futex_park :: "u64 \<Rightarrow> u64 option \<Rightarrow> futex_sys \<Rightarrow> (futex_outcome \<times> futex_sys) option" where
  "futex_park addr wakeup_time fx = do {
     k1 \<leftarrow> block_current_task wakeup_time (fx_kernel fx);
     let handle = get_current_task_handle k1;
     let queue = (case fx_lot fx addr of Some q \<Rightarrow> q | None \<Rightarrow> hq_new);
     (p1, q) \<leftarrow> hq_push (fx_pool fx) queue handle;
     Some (Parked handle wakeup_time,
       fx\<lparr>fx_kernel := k1, fx_pool := p1, fx_lot := (fx_lot fx)(addr \<mapsto> q)\<rparr>)
   }"

definition futex_wait :: "u64 \<Rightarrow> u64 \<Rightarrow> u32 \<Rightarrow> u64 option \<Rightarrow> bool \<Rightarrow> futex_sys \<Rightarrow> (futex_outcome \<times> futex_sys) option" where
  "futex_wait now addr expected timeout relative fx =
     (if fx_word fx addr \<noteq> expected then Some (Returned (- errno_into Again), fx)
      else futex_park addr (futex_deadline now timeout relative) fx)"

definition futex_wait_and_set ::
    "u64 \<Rightarrow> u64 \<Rightarrow> u32 \<Rightarrow> u64 option \<Rightarrow> bool \<Rightarrow> u32 \<Rightarrow> futex_sys \<Rightarrow> (futex_outcome \<times> futex_sys) option" where
  "futex_wait_and_set now addr expected timeout relative new_value fx =
     (let old = fx_word fx addr; fx1 = fx\<lparr>fx_word := (fx_word fx)(addr := new_value)\<rparr> in
      if old \<noteq> expected then Some (Returned (- errno_into Again), fx1)
      else futex_park addr (futex_deadline now timeout relative) fx1)"

text \<open>One iteration of the loop after the task has been scheduled again.\<close>

definition futex_resume ::
    "u64 \<Rightarrow> u64 \<Rightarrow> task_handle \<Rightarrow> u64 option \<Rightarrow> futex_sys \<Rightarrow> (futex_outcome \<times> futex_sys) option" where
  "futex_resume now addr handle wakeup_time fx =
     (if (case wakeup_time of Some t \<Rightarrow> t \<le> now | None \<Rightarrow> False)
      then (case fx_lot fx addr of
              None \<Rightarrow> Some (Returned 0, fx)
            | Some queue \<Rightarrow> do {
                (removed, p1, q1) \<leftarrow> hq_remove (fx_pool fx) queue handle;
                (empty, p2, q2) \<leftarrow> hq_is_empty p1 q1;
                let fx1 = fx\<lparr>fx_pool := p2, fx_lot := (fx_lot fx)(addr := if empty then None else Some q2)\<rparr>;
                Some (Returned (if removed then - errno_into Timedout else 0), fx1)
              })
      else do {
        parked \<leftarrow> (case fx_lot fx addr of Some queue \<Rightarrow> hq_contains queue handle | None \<Rightarrow> Some False);
        if \<not> parked then Some (Returned 0, fx)
        else do {
          k1 \<leftarrow> block_current_task wakeup_time (fx_kernel fx);
          Some (Parked handle wakeup_time, fx\<lparr>fx_kernel := k1\<rparr>)
        }
      })"

text \<open>The loop that wakes the waiters of a queue.\<close>

partial_function (option) futex_wake_loop ::
    "int \<Rightarrow> int \<Rightarrow> kernel \<Rightarrow> bitmap_pool \<Rightarrow> handle_queue \<Rightarrow> (int \<times> kernel \<times> bitmap_pool \<times> handle_queue) option" where
  "futex_wake_loop count woken k p q =
     (if woken \<noteq> count \<or> count = i32_max
      then Option.bind (hq_pop p q) (\<lambda>(task, p1, q1).
        case task of
          None \<Rightarrow> Some (woken, k, p1, q1)
        | Some handle \<Rightarrow> Option.bind (custom_wakeup handle k) (\<lambda>k1.
            futex_wake_loop count (min (woken + 1) i32_max) k1 p1 q1))
      else Some (woken, k, p, q))"

declare futex_wake_loop.simps [code]

definition futex_wake_queue :: "u64 \<Rightarrow> int \<Rightarrow> handle_queue \<Rightarrow> futex_sys \<Rightarrow> (int \<times> futex_sys) option" where
  "futex_wake_queue addr count queue fx = do {
     (woken, k1, p1, q1) \<leftarrow> futex_wake_loop count 0 (fx_kernel fx) (fx_pool fx) queue;
     (empty, p2, q2) \<leftarrow> hq_is_empty p1 q1;
     Some (woken, fx\<lparr>fx_kernel := k1, fx_pool := p2, fx_lot := (fx_lot fx)(addr := if empty then None else Some q2)\<rparr>)
   }"

definition futex_wake :: "u64 \<Rightarrow> int \<Rightarrow> futex_sys \<Rightarrow> (int \<times> futex_sys) option" where
  "futex_wake addr count fx =
     (if count < 0 then Some (- errno_into Inval, fx)
      else case fx_lot fx addr of
        None \<Rightarrow> Some (0, fx)
      | Some queue \<Rightarrow> futex_wake_queue addr count queue fx)"

definition futex_wake_or_set :: "u64 \<Rightarrow> int \<Rightarrow> u32 \<Rightarrow> futex_sys \<Rightarrow> (int \<times> futex_sys) option" where
  "futex_wake_or_set addr count new_value fx =
     (let set_word = (\<lambda>fx. fx\<lparr>fx_word := (fx_word fx)(addr := new_value)\<rparr>) in
      if count < 0 then Some (- errno_into Inval, fx)
      else case fx_lot fx addr of
        None \<Rightarrow> Some (0, set_word fx)
      | Some queue \<Rightarrow> do {
          (woken, fx1) \<leftarrow> futex_wake_queue addr count queue fx;
          Some (woken, if woken = 0 then set_word fx1 else fx1)
        })"

section \<open>Waking a waiter\<close>

text \<open>The contract between a queue of waiters and the kernel: \<open>asleep\<close> tells which handles name a sleeping task.
  A call of \<open>wake\<close> for such a handle succeeds and takes exactly that task out of the sleeping ones.\<close>

locale sleepers = waiter_queue ok waiters push pop remove is_empty
  for ok :: "'s \<Rightarrow> bool"
    and waiters :: "'s \<Rightarrow> task_handle list"
    and push :: "'s \<Rightarrow> task_handle \<Rightarrow> 's option"
    and pop :: "'s \<Rightarrow> (task_handle option \<times> 's) option"
    and remove :: "'s \<Rightarrow> task_handle \<Rightarrow> (bool \<times> 's) option"
    and is_empty :: "'s \<Rightarrow> (bool \<times> 's) option" +
  fixes kok :: "'k \<Rightarrow> bool"
    and asleep :: "'k \<Rightarrow> task_handle \<Rightarrow> bool"
    and wake :: "task_handle \<Rightarrow> 'k \<Rightarrow> 'k option"
  assumes wake_law: "\<lbrakk>kok k; asleep k h\<rbrakk> \<Longrightarrow>
      \<exists>k'. wake h k = Some k' \<and> kok k' \<and> (\<forall>x. asleep k' x \<longleftrightarrow> asleep k x \<and> handle_id x \<noteq> handle_id h)"
begin

text \<open>All waiters sleep, and each of them waits once.\<close>

definition all_asleep :: "'k \<Rightarrow> 's \<Rightarrow> bool" where
  "all_asleep k s \<longleftrightarrow> (\<forall>h \<in> set (waiters s). asleep k h) \<and> distinct (map handle_id (waiters s))"

lemma pop_wake:
  assumes "ok s" "kok k" "all_asleep k s" "waiters s = h # hs"
  shows "\<exists>s' k'. pop s = Some (Some h, s') \<and> ok s' \<and> waiters s' = hs \<and> wake h k = Some k' \<and> kok k' \<and>
    all_asleep k' s' \<and> (\<forall>x. asleep k' x \<longleftrightarrow> asleep k x \<and> handle_id x \<noteq> handle_id h)"
proof -
  obtain s' where s': "pop s = Some (Some h, s')" "ok s'" "waiters s' = hs"
    using pop_law [OF assms(1)] assms(4) by auto
  obtain k' where k': "wake h k = Some k'" "kok k'" "\<forall>x. asleep k' x \<longleftrightarrow> asleep k x \<and> handle_id x \<noteq> handle_id h"
    using wake_law [OF assms(2), of h] assms(3,4) by (auto simp: all_asleep_def)
  have "all_asleep k' s'"
    using assms(3,4) s'(3) k'(3) by (auto simp: all_asleep_def) (metis imageI)
  with s' k' show ?thesis by blast
qed

end

text \<open>On the kernel, a handle sleeps when it names a blocked task of this core.\<close>

definition task_asleep :: "kernel \<Rightarrow> task_handle \<Rightarrow> bool" where
  "task_asleep k handle \<longleftrightarrow> handle_core_id handle = k_core k \<and>
     handle_id handle \<in> (\<lambda>n. t_id (k_store k (bt_task n))) ` set (cs_blocked (k_sched k))"

lemma custom_wakeup_asleep:
  assumes ok: "sched_ok pf k" and asl: "task_asleep k handle"
  shows "\<exists>k'. custom_wakeup handle k = Some k' \<and> sched_ok pf k' \<and>
    (\<forall>x. task_asleep k' x \<longleftrightarrow> task_asleep k x \<and> handle_id x \<noteq> handle_id handle)"
proof -
  from asl obtain node where n: "node \<in> set (cs_blocked (k_sched k))" "handle_id handle = t_id (k_store k (bt_task node))"
    and core: "handle_core_id handle = k_core k"
    by (auto simp: task_asleep_def)
  obtain k' where k': "wake_local handle k = Some k'" "sched_ok pf k'"
    "set (cs_blocked (k_sched k')) = set (cs_blocked (k_sched k)) - {node}"
    "k_store k' = (k_store k)(bt_task node := (k_store k (bt_task node))\<lparr>t_status := Ready\<rparr>)" "k_core k' = k_core k"
    using wake_local_ok [OF ok n] by blast
  have ids: "t_id (k_store k' x) = t_id (k_store k x)" for x by (simp add: k'(4))
  have inj: "inj_on (\<lambda>x. t_id (k_store k x)) (blocked_set (k_sched k))"
    by (rule inj_on_subset [OF core_okD(9) [OF ok]]) (use live_sub(2) in blast)
  have "inj_on bt_task (set (cs_blocked (k_sched k)))"
    using core_okD(4) [OF ok] by (simp add: bq_ok_def distinct_map)
  with inj have inj': "inj_on (\<lambda>n. t_id (k_store k (bt_task n))) (set (cs_blocked (k_sched k)))"
    by (simp add: inj_on_def)
  have "(\<lambda>n. t_id (k_store k' (bt_task n))) ` set (cs_blocked (k_sched k')) =
      (\<lambda>n. t_id (k_store k (bt_task n))) ` set (cs_blocked (k_sched k)) - {handle_id handle}"
    unfolding ids k'(3) n(2) using inj_on_image_set_diff [OF inj', of "set (cs_blocked (k_sched k))" "{node}"] n(1) by auto
  with k' core show ?thesis
    by (auto simp: custom_wakeup_def task_asleep_def)
qed

interpretation sl: sleepers
  "\<lambda>(p, q). hq_ok p q" "\<lambda>(p, q). hq_waiters q"
  "\<lambda>(p, q). hq_push p q" "\<lambda>(p, q). hq_pop p q" "\<lambda>(p, q). hq_remove p q" "\<lambda>(p, q). hq_is_empty p q"
  "sched_ok pf" task_asleep custom_wakeup for pf
  by unfold_locales (rule custom_wakeup_asleep)

text \<open>The contract on a queue and its pool, in the form the operations use.\<close>

definition waiters_asleep :: "kernel \<Rightarrow> handle_queue \<Rightarrow> bool" where
  "waiters_asleep k q \<longleftrightarrow> (\<forall>h \<in> set (hq_waiters q). task_asleep k h) \<and> distinct (map handle_id (hq_waiters q))"

lemma all_asleep_iff [simp]: "sl.all_asleep k (p, q) \<longleftrightarrow> waiters_asleep k q"
  by (simp add: sl.all_asleep_def waiters_asleep_def)

lemma hq_pop_wake:
  assumes "hq_ok p q" "sched_ok pf k" "waiters_asleep k q" "hq_waiters q = h # hs"
  shows "\<exists>p' q' k'. hq_pop p q = Some (Some h, p', q') \<and> hq_ok p' q' \<and> hq_waiters q' = hs \<and>
    custom_wakeup h k = Some k' \<and> sched_ok pf k' \<and> waiters_asleep k' q' \<and>
    (\<forall>x. task_asleep k' x \<longleftrightarrow> task_asleep k x \<and> handle_id x \<noteq> handle_id h)"
  using sl.pop_wake [of "(p, q)" pf k h hs] assms by auto

section \<open>Properties of semaphores\<close>

lemma sem_release_ok:
  assumes "hq_ok p (sem_queue sem)" "sched_ok pf k" "waiters_asleep k (sem_queue sem)" "sem_count sem < isize_max"
  shows "\<exists>k' p' sem'. sem_release (k, p) sem = Some ((k', p'), sem') \<and> sched_ok pf k' \<and> hq_ok p' (sem_queue sem') \<and>
    sem_count sem' = sem_count sem + 1 \<and> hq_waiters (sem_queue sem') = tl (hq_waiters (sem_queue sem)) \<and>
    waiters_asleep k' (sem_queue sem') \<and>
    (\<forall>x. task_asleep k' x \<longleftrightarrow> task_asleep k x \<and> handle_id x \<notin> handle_id ` set (take 1 (hq_waiters (sem_queue sem))))"
proof (cases "hq_waiters (sem_queue sem)")
  case Nil
  then obtain p' q' where "hq_pop p (sem_queue sem) = Some (None, p', q')" "hq_ok p' q'" "hq_waiters q' = []"
    using hq_pop_ok [OF assms(1)] by auto
  with Nil assms show ?thesis by (auto simp: sem_release_def waiters_asleep_def)
next
  case (Cons h hs)
  from hq_pop_wake [OF assms(1-3) Cons] obtain p' q' k' where "hq_pop p (sem_queue sem) = Some (Some h, p', q')" "hq_ok p' q'"
    "hq_waiters q' = hs" "custom_wakeup h k = Some k'" "sched_ok pf k'" "waiters_asleep k' q'"
    "\<forall>x. task_asleep k' x \<longleftrightarrow> task_asleep k x \<and> handle_id x \<noteq> handle_id h"
    by blast
  with Cons assms(4) show ?thesis by (simp add: sem_release_def)
qed

text \<open>The operations on one semaphore, by any tasks and interleaved with anything else on the kernel, counting
  the successful acquisitions and the releases.\<close>

inductive sem_history :: "int \<Rightarrow> nat \<Rightarrow> nat \<Rightarrow> semaphore \<Rightarrow> bool" for c where
  sh_new: "sem_history c 0 0 (sem_new c)"
| sh_acquire: "sem_history c g r sem \<Longrightarrow> sem_acquire_step b w now kp sem = Some (out, kp', sem') \<Longrightarrow>
    sem_history c (if out = Acquired then Suc g else g) r sem'"
| sh_try: "sem_history c g r sem \<Longrightarrow> sem_try_acquire sem = (got, sem') \<Longrightarrow>
    sem_history c (if got then Suc g else g) r sem'"
| sh_release: "sem_history c g r sem \<Longrightarrow> sem_release kp sem = Some (kp', sem') \<Longrightarrow> sem_history c g (Suc r) sem'"

lemma sem_acquire_count:
  assumes "sem_acquire_step b w now kp sem = Some (out, kp', sem')"
  shows "sem_count sem' = sem_count sem - (if out = Acquired then 1 else 0) \<and> (out = Acquired \<longleftrightarrow> 0 < sem_count sem)"
  using assms unfolding sem_acquire_step_def by (auto split: prod.splits if_splits bind_splits)

lemma sem_release_count: "sem_release kp sem = Some (kp', sem') \<Longrightarrow> sem_count sem' = sem_count sem + 1"
  by (auto simp: sem_release_def Let_def split: prod.splits bind_splits option.splits)

text \<open>C30: A semaphore never grants more than it has. After any history of operations the count is the initial value plus
  the releases minus the successful acquisitions, and the acquisitions never exceed the initial value plus
  the releases; this also holds for a negative initial value.\<close>

theorem semaphore_counts:
  assumes "sem_history c g r sem"
  shows "sem_count sem = c + int r - int g \<and> (g = 0 \<or> int g \<le> c + int r)"
  using assms
proof induction
  case sh_new
  then show ?case by (simp add: sem_new_def)
next
  case (sh_acquire g r sem b w now kp out kp' sem')
  with sem_acquire_count [OF sh_acquire.hyps(2)] show ?case by auto
next
  case (sh_try g r sem got sem')
  then show ?case by (auto simp: sem_try_acquire_def split: if_splits)
next
  case (sh_release g r sem kp kp' sem')
  with sem_release_count [OF sh_release.hyps(2)] show ?case by auto
qed

text \<open>Witness: a semaphore with one unit that has been taken is empty.\<close>

theorem semaphore_counts_witness:
  "\<exists>sem. sem_history 1 1 0 sem \<and> sem_count sem = 0"
proof -
  have "sem_history 1 1 0 (snd (sem_try_acquire (sem_new 1)))"
    using sem_history.sh_try [OF sem_history.sh_new, of 1 True "snd (sem_try_acquire (sem_new 1))"]
    by (simp add: sem_try_acquire_def sem_new_def)
  with semaphore_counts [OF this] show ?thesis by auto
qed

text \<open>Releasing a semaphore whose waiters all sleep never panics. It wakes exactly the first waiter, which is
  one of highest priority and among those the one that has waited longest, and no other task.\<close>

theorem release_wakes_first_waiter:
  assumes "hq_ok p (sem_queue sem)" "sched_ok pf k" "waiters_asleep k (sem_queue sem)" "sem_count sem < isize_max"
  shows "\<exists>k' p' sem'. sem_release (k, p) sem = Some ((k', p'), sem') \<and> sched_ok pf k' \<and>
    sem_count sem' = sem_count sem + 1 \<and>
    (case hq_waiters (sem_queue sem) of
       [] \<Rightarrow> hq_waiters (sem_queue sem') = [] \<and> (\<forall>x. task_asleep k' x \<longleftrightarrow> task_asleep k x)
     | h # hs \<Rightarrow> hq_waiters (sem_queue sem') = hs \<and> (\<forall>x \<in> set hs. handle_level x \<le> handle_level h) \<and>
         (\<forall>x. task_asleep k' x \<longleftrightarrow> task_asleep k x \<and> handle_id x \<noteq> handle_id h))"
proof (cases "hq_waiters (sem_queue sem)")
  case Nil
  with sem_release_ok [OF assms] show ?thesis by auto
next
  case (Cons h hs)
  have "prio_ordered handle_level (hq_waiters (sem_queue sem))"
    using hq.waiters_ordered [of "(p, sem_queue sem)"] assms(1) by simp
  with Cons have "\<forall>x \<in> set hs. handle_level x \<le> handle_level h" by simp
  with Cons sem_release_ok [OF assms] show ?thesis by auto
qed

text \<open>A semaphore with task 3 of the example core as its waiter.\<close>

lemma demo_sem:
  "\<exists>p q. hq_ok p q \<and> hq_waiters q = [handle_new (TaskId 3) NORMAL_PRIO 0]"
  using hq_push_ok [OF demo_hq_fresh, of "handle_new (TaskId 3) NORMAL_PRIO 0"] by (auto simp: insert_prio_Nil)

lemma demo_asleep: "task_asleep demo_kernel (handle_new (TaskId 3) NORMAL_PRIO 0)"
  by (simp add: task_asleep_def demo_kernel_def demo_core_def)

text \<open>Witness: task 3 of the example core waits for a semaphore and is woken by the release.\<close>

theorem release_wakes_first_waiter_witness:
  "\<exists>k' p p' q sem'. sem_release (demo_kernel, p) \<lparr>sem_count = 0, sem_queue = q\<rparr> = Some ((k', p'), sem') \<and>
    hq_waiters q \<noteq> [] \<and> sem_count sem' = 1 \<and> \<not> task_asleep k' (handle_new (TaskId 3) NORMAL_PRIO 0)"
proof -
  obtain p q where q: "hq_ok p q" "hq_waiters q = [handle_new (TaskId 3) NORMAL_PRIO 0]"
    using demo_sem by blast
  then have "waiters_asleep demo_kernel q"
    using demo_asleep by (simp add: waiters_asleep_def)
  with release_wakes_first_waiter [of p "\<lparr>sem_count = 0, sem_queue = q\<rparr>" demo_platform demo_kernel] q demo_kernel_ok
  show ?thesis by (fastforce simp: isize_max_def)
qed

text \<open>C31: A release that finds a waiter which no longer sleeps panics. A task that waits with a timeout stays in the
  queue of the semaphore after the timer has made it ready, until it runs again and removes itself; a
  release in between brings the kernel down.\<close>

theorem release_after_timeout_panics:
  assumes "hq_ok p (sem_queue sem)" "hq_waiters (sem_queue sem) = h # hs"
    and "handle_core_id h = k_core k" "\<not> task_asleep k h"
  shows "sem_release (k, p) sem = None"
proof -
  obtain p' q' where "hq_pop p (sem_queue sem) = Some (Some h, p', q')"
    using hq_pop_ok [OF assms(1)] assms(2) by auto
  moreover have "custom_wakeup h k = None"
    using assms(3,4) bq_custom_wakeup_missing [of "cs_blocked (k_sched k)" "k_store k" h]
    by (force simp: custom_wakeup_def wake_local_def task_asleep_def)
  ultimately show ?thesis by (cases "sem_count sem < isize_max") (simp_all add: sem_release_def)
qed

text \<open>Witness: the deadline of task 3 of the example core is 500; after the tick at 501 a release panics.\<close>

theorem release_after_timeout_panics_witness:
  "\<exists>k p q. wake_pending_tasks 501 demo_kernel = Some k \<and> hq_waiters q = [handle_new (TaskId 3) NORMAL_PRIO 0] \<and>
    sem_release (k, p) \<lparr>sem_count = 0, sem_queue = q\<rparr> = None"
proof -
  obtain p q where q: "hq_ok p q" "hq_waiters q = [handle_new (TaskId 3) NORMAL_PRIO 0]"
    using demo_sem by blast
  obtain k where k: "wake_pending_tasks 501 demo_kernel = Some k"
    "cs_blocked (k_sched k) = filter (\<lambda>n. \<not> elapsed 501 n) (cs_blocked (k_sched demo_kernel))"
    "k_core k = k_core demo_kernel"
    using wake_pending_ok [OF demo_kernel_ok, of 501] by blast
  have "cs_blocked (k_sched k) = []"
    unfolding k(2) by (simp add: demo_kernel_def demo_core_def elapsed_def)
  moreover have "k_core k = 0"
    unfolding k(3) by (simp add: demo_kernel_def demo_core_def)
  ultimately show ?thesis
    using q k(1) release_after_timeout_panics [of p "\<lparr>sem_count = 0, sem_queue = q\<rparr>" "handle_new (TaskId 3) NORMAL_PRIO 0" "[]" k]
    by (auto simp: task_asleep_def)
qed

section \<open>Properties of recursive mutexes\<close>

text \<open>The operations on one mutex, where only a task that holds it releases it; \<open>d\<close> counts how often each
  task holds it.\<close>

inductive rm_history :: "(task_id \<Rightarrow> nat) \<Rightarrow> recmutex \<Rightarrow> bool" where
  rh_new: "rm_history (\<lambda>_. 0) rm_new"
| rh_acquire: "rm_history d m \<Longrightarrow> rm_acquire_step kp m = Some (out, kp', m') \<Longrightarrow> tid = get_current_task_id (fst kp) \<Longrightarrow>
    rm_history (if out = Acquired then d(tid := d tid + 1) else d) m'"
| rh_release: "rm_history d m \<Longrightarrow> tid = get_current_task_id (fst kp) \<Longrightarrow> 0 < d tid \<Longrightarrow>
    rm_release kp m = Some (kp', m') \<Longrightarrow> rm_history (d(tid := d tid - 1)) m'"

lemma rm_acquire_cases:
  assumes "rm_acquire_step kp m = Some (out, kp', m')"
  shows "(rm_tid m = None \<and> out = Acquired \<and> rm_tid m' = Some (get_current_task_id (fst kp)) \<and> rm_count m' = 1) \<or>
    (rm_tid m = Some (get_current_task_id (fst kp)) \<and> out = Acquired \<and> rm_tid m' = rm_tid m \<and> rm_count m' = rm_count m + 1) \<or>
    (\<exists>t. rm_tid m = Some t \<and> t \<noteq> get_current_task_id (fst kp) \<and> out = Sleeping \<and> rm_tid m' = rm_tid m \<and> rm_count m' = rm_count m)"
  using assms unfolding rm_acquire_step_def
  by (auto simp: Let_def split: prod.splits option.splits if_splits bind_splits)

lemma rm_release_cases:
  assumes "rm_release kp m = Some (kp', m')"
  shows "rm_count m' = rm_count m - 1 \<and> rm_tid m' = (if 1 < rm_count m then rm_tid m else None)"
  using assms unfolding rm_release_def
  by (auto simp: Let_def split: prod.splits option.splits if_splits bind_splits)

lemma rm_history_state:
  assumes "rm_history d m"
  shows "case rm_tid m of None \<Rightarrow> d = (\<lambda>_. 0) \<and> rm_count m = 0 | Some a \<Rightarrow> d = (\<lambda>_. 0)(a := rm_count m) \<and> 0 < rm_count m"
  using assms
proof induction
  case rh_new
  then show ?case by (simp add: rm_new_def)
next
  case (rh_acquire d m kp out kp' m' tid)
  from rm_acquire_cases [OF rh_acquire.hyps(2)] show ?case
    using rh_acquire.IH rh_acquire.hyps(3) by (elim disjE exE conjE) simp_all
next
  case (rh_release d m tid kp kp' m')
  then have "rm_tid m = Some tid" "d = (\<lambda>_. 0)(tid := rm_count m)" "0 < rm_count m"
    by (auto split: option.splits if_splits)
  with rm_release_cases [OF rh_release.hyps(4)] show ?case
    by (cases "1 < rm_count m") auto
qed

text \<open>C32: Mutual exclusion of the recursive mutex. After any history in which only holders release it, at most one task
  holds it, the state names exactly that task and counts how often it has to release it.\<close>

theorem recmutex_exclusive:
  assumes "rm_history d m"
  shows "(\<forall>a b. 0 < d a \<longrightarrow> 0 < d b \<longrightarrow> a = b) \<and> (\<forall>a. rm_tid m = Some a \<longleftrightarrow> 0 < d a) \<and>
    rm_count m = (case rm_tid m of None \<Rightarrow> 0 | Some a \<Rightarrow> d a)"
  using rm_history_state [OF assms] by (cases "rm_tid m") auto

text \<open>Witness: the running task of the example core takes a new mutex.\<close>

theorem recmutex_exclusive_witness:
  "\<exists>d m. rm_history d m \<and> d (TaskId 1) = 1 \<and> rm_tid m = Some (TaskId 1) \<and> rm_count m = 1"
proof -
  have i: "get_current_task_id demo_kernel = TaskId 1"
    by (simp add: get_current_task_id_def demo_kernel_def demo_core_def)
  let ?m = "rm_new\<lparr>rm_tid := Some (TaskId 1), rm_count := 1\<rparr>"
  have a: "rm_acquire_step (demo_kernel, demo_bitmaps) rm_new = Some (Acquired, (demo_kernel, demo_bitmaps), ?m)"
    by (simp add: rm_acquire_step_def i rm_new_def)
  have h: "rm_history ((\<lambda>_. 0)(TaskId 1 := 0 + 1)) ?m"
    using rm_history.rh_acquire [OF rm_history.rh_new a, of "TaskId 1"] unfolding fst_conv i by (simp only: simp_thms if_True)
  have "rm_tid ?m = Some (TaskId 1)" "rm_count ?m = 1" by simp_all
  with h recmutex_exclusive [OF h] show ?thesis
    by (intro exI [of _ "(\<lambda>_. 0)(TaskId 1 := 0 + 1)"] exI [of _ ?m]) auto
qed

section \<open>Properties of futexes\<close>

text \<open>The number of waiters that are woken.\<close>

definition wake_number :: "int \<Rightarrow> nat \<Rightarrow> nat" where
  "wake_number count n = (if count = i32_max then n else min n (nat count))"

lemma futex_wake_loop_ok:
  assumes "hq_ok p q" "sched_ok pf k" "waiters_asleep k q" "0 \<le> woken" "woken \<le> count" "count \<le> i32_max"
  defines "n \<equiv> (if count = i32_max then length (hq_waiters q) else min (length (hq_waiters q)) (nat (count - woken)))"
  shows "\<exists>k' p' q'. futex_wake_loop count woken k p q = Some (min (woken + int n) i32_max, k', p', q') \<and>
    hq_ok p' q' \<and> sched_ok pf k' \<and> hq_waiters q' = drop n (hq_waiters q) \<and>
    (\<forall>x. task_asleep k' x \<longleftrightarrow> task_asleep k x \<and> handle_id x \<notin> handle_id ` set (take n (hq_waiters q)))"
  using assms(1-6) unfolding n_def
proof (induction "hq_waiters q" arbitrary: p q k woken)
  case Nil
  note e = Nil(1) [symmetric]
  obtain p' q' where "hq_pop p q = Some (None, p', q')" "hq_ok p' q'" "hq_waiters q' = []"
    using hq_pop_ok [OF Nil(2)] unfolding e by auto
  with e Nil(2-7) show ?case by (subst futex_wake_loop.simps) (simp add: min_def)
next
  case (Cons h hs)
  note e = Cons.hyps(2) [symmetric]
  show ?case
  proof (cases "woken \<noteq> count \<or> count = i32_max")
    case False
    with Cons.prems show ?thesis by (subst futex_wake_loop.simps) auto
  next
    case True
    from hq_pop_wake [OF Cons.prems(1-3) e] obtain p1 q1 k1 where
      s: "hq_pop p q = Some (Some h, p1, q1)" "hq_ok p1 q1" "hq_waiters q1 = hs" "custom_wakeup h k = Some k1"
        "sched_ok pf k1" "waiters_asleep k1 q1" "\<forall>x. task_asleep k1 x \<longleftrightarrow> task_asleep k x \<and> handle_id x \<noteq> handle_id h"
      by blast
    let ?w = "min (woken + 1) i32_max"
    let ?n = "if count = i32_max then length hs else min (length hs) (nat (count - ?w))"
    have w: "0 \<le> ?w" "?w \<le> count" using True Cons.prems(4-6) by auto
    obtain k' p' q' where l: "futex_wake_loop count ?w k1 p1 q1 = Some (min (?w + int ?n) i32_max, k', p', q')"
      "hq_ok p' q'" "sched_ok pf k'" "hq_waiters q' = drop ?n hs"
      "\<forall>x. task_asleep k' x \<longleftrightarrow> task_asleep k1 x \<and> handle_id x \<notin> handle_id ` set (take ?n hs)"
      using Cons.hyps(1) [OF s(3) [symmetric] s(2,5,6) w Cons.prems(6)] s(3) by auto
    let ?N = "if count = i32_max then length (hq_waiters q) else min (length (hq_waiters q)) (nat (count - woken))"
    have N: "?N = Suc ?n" "min (?w + int ?n) i32_max = min (woken + int ?N) i32_max"
      using True Cons.prems(4-6) e by (auto split: if_splits)
    have step: "futex_wake_loop count woken k p q = futex_wake_loop count ?w k1 p1 q1"
      using True s(1,4) by (subst futex_wake_loop.simps) simp
    have "hq_waiters q' = drop ?N (hq_waiters q)" unfolding N(1) unfolding e using l(4) by simp
    moreover have "\<forall>x. task_asleep k' x \<longleftrightarrow> task_asleep k x \<and> handle_id x \<notin> handle_id ` set (take ?N (hq_waiters q))"
      unfolding N(1) unfolding e take_Suc_Cons list.set using l(5) s(7) by blast
    ultimately show ?thesis
      unfolding step l(1) N(2) using l(2,3) by blast
  qed
qed

lemma futex_wake_queue_ok:
  assumes "hq_ok (fx_pool fx) q" "sched_ok pf (fx_kernel fx)" "waiters_asleep (fx_kernel fx) q" "0 \<le> count" "count \<le> i32_max"
  defines "n \<equiv> wake_number count (length (hq_waiters q))"
  shows "\<exists>fx'. futex_wake_queue addr count q fx = Some (min (int n) i32_max, fx') \<and> sched_ok pf (fx_kernel fx') \<and>
    fx_word fx' = fx_word fx \<and> (\<forall>a. a \<noteq> addr \<longrightarrow> fx_lot fx' a = fx_lot fx a) \<and>
    (case fx_lot fx' addr of
       None \<Rightarrow> drop n (hq_waiters q) = []
     | Some q' \<Rightarrow> hq_ok (fx_pool fx') q' \<and> hq_waiters q' = drop n (hq_waiters q) \<and> hq_waiters q' \<noteq> []) \<and>
    (\<forall>x. task_asleep (fx_kernel fx') x \<longleftrightarrow>
       task_asleep (fx_kernel fx) x \<and> handle_id x \<notin> handle_id ` set (take n (hq_waiters q)))"
proof -
  have n: "n = (if count = i32_max then length (hq_waiters q) else min (length (hq_waiters q)) (nat (count - 0)))"
    by (simp add: n_def wake_number_def)
  obtain k1 p1 q1 where l: "futex_wake_loop count 0 (fx_kernel fx) (fx_pool fx) q = Some (min (0 + int n) i32_max, k1, p1, q1)"
    "hq_ok p1 q1" "sched_ok pf k1" "hq_waiters q1 = drop n (hq_waiters q)"
    "\<forall>x. task_asleep k1 x \<longleftrightarrow> task_asleep (fx_kernel fx) x \<and> handle_id x \<notin> handle_id ` set (take n (hq_waiters q))"
    using futex_wake_loop_ok [OF assms(1-3) order_refl assms(4,5)] unfolding n by blast
  obtain p2 q2 where e: "hq_is_empty p1 q1 = Some (hq_waiters q1 = [], p2, q2)" "hq_ok p2 q2" "hq_waiters q2 = hq_waiters q1"
    using hq_is_empty_ok [OF l(2)] by blast
  let ?fx' = "fx\<lparr>fx_kernel := k1, fx_pool := p2, fx_lot := (fx_lot fx)(addr := if hq_waiters q1 = [] then None else Some q2)\<rparr>"
  have "futex_wake_queue addr count q fx = Some (min (int n) i32_max, ?fx')"
    by (simp add: futex_wake_queue_def l(1) e(1))
  with l(3-5) e(2,3) show ?thesis
    by (intro exI [of _ ?fx']) simp
qed


text \<open>The example core with task 3 parked at an address.\<close>

definition demo_futex :: "bitmap_pool \<Rightarrow> handle_queue \<Rightarrow> futex_sys" where
  "demo_futex p q = \<lparr>fx_kernel = demo_kernel, fx_pool = p, fx_lot = [0x5000 \<mapsto> q], fx_word = (\<lambda>_. 0)\<rparr>"


text \<open>Whether the handle is still parked at the address.\<close>

definition parked :: "futex_sys \<Rightarrow> u64 \<Rightarrow> task_handle \<Rightarrow> bool" where
  "parked fx addr handle \<longleftrightarrow>
     (case fx_lot fx addr of None \<Rightarrow> False | Some q \<Rightarrow> list_ex (same_waiter handle) (hq_waiters q))"

text \<open>C34: The outcome of a futex wait when the task runs again. If it is no longer parked it was woken and the call returns
  \<open>0\<close>, even when the deadline has passed meanwhile; if it is still parked and the deadline has passed, the call
  returns the error \<open>ETIMEDOUT\<close> and the task is not parked any more; otherwise the task sleeps again.\<close>

theorem futex_wait_outcome:
  fixes w :: "u64 option" and now :: u64
  assumes ok: "sched_ok pf (fx_kernel fx)" and run: "t_status (k_store (fx_kernel fx) (k_current (fx_kernel fx))) = Running"
    and lot: "case fx_lot fx addr of None \<Rightarrow> True | Some q \<Rightarrow> hq_ok (fx_pool fx) q" and lvl: "handle_level handle < NO_PRIORITIES"
  defines "expired \<equiv> (case w of Some t \<Rightarrow> t \<le> now | None \<Rightarrow> False)"
  shows "\<exists>fx'. futex_resume now addr handle w fx =
      Some (if \<not> parked fx addr handle then Returned 0 else if expired then Returned (- errno_into Timedout) else Parked handle w, fx') \<and>
    sched_ok pf (fx_kernel fx') \<and> (parked fx' addr handle \<longleftrightarrow> parked fx addr handle \<and> \<not> expired) \<and>
    (parked fx addr handle \<and> \<not> expired \<longrightarrow> k_current (fx_kernel fx') \<in> blocked_set (k_sched (fx_kernel fx')))"
proof (cases "fx_lot fx addr")
  case None
  then show ?thesis using ok by (auto simp: futex_resume_def parked_def expired_def)
next
  case (Some q)
  then have q: "hq_ok (fx_pool fx) q" using lot by simp
  show ?thesis
  proof (cases expired)
    case True
    obtain p1 q1 where r: "hq_remove (fx_pool fx) q handle = Some (list_ex (same_waiter handle) (hq_waiters q), p1, q1)" "hq_ok p1 q1"
      "hq_waiters q1 = filter (\<lambda>x. \<not> same_waiter handle x) (hq_waiters q)"
      using hq_remove_ok [OF q lvl] by blast
    obtain p2 q2 where e: "hq_is_empty p1 q1 = Some (hq_waiters q1 = [], p2, q2)" "hq_waiters q2 = hq_waiters q1"
      using hq_is_empty_ok [OF r(2)] by blast
    have "\<not> list_ex (same_waiter handle) (hq_waiters q2)"
      by (simp add: e(2) r(3) list_ex_iff)
    with True Some r(1) e(1) ok show ?thesis
      by (simp add: futex_resume_def parked_def expired_def)
  next
    case False
    obtain k1 where k1: "block_current_task w (fx_kernel fx) = Some k1" "sched_ok pf k1" "k_current k1 = k_current (fx_kernel fx)"
      "k_current (fx_kernel fx) \<in> blocked_set (k_sched k1)"
      using block_current_ok [OF ok run, of w] by blast
    with False Some hq_contains_ok [OF q lvl] ok show ?thesis
      by (cases "list_ex (same_waiter handle) (hq_waiters q)") (simp_all add: futex_resume_def parked_def expired_def)
  qed
qed

text \<open>Witness: a task whose deadline 500 has passed and that is still parked gets \<open>ETIMEDOUT\<close>.\<close>

theorem futex_wait_outcome_witness:
  "\<exists>p q fx'. futex_resume 600 0x5000 (handle_new (TaskId 3) NORMAL_PRIO 0) (Some 500) (demo_futex p q) = Some (Returned (- 110), fx') \<and>
    \<not> parked fx' 0x5000 (handle_new (TaskId 3) NORMAL_PRIO 0)"
proof -
  obtain p q where q: "hq_ok p q" "hq_waiters q = [handle_new (TaskId 3) NORMAL_PRIO 0]"
    using demo_sem by blast
  have "parked (demo_futex p q) 0x5000 (handle_new (TaskId 3) NORMAL_PRIO 0)"
    using q(2) by (simp add: parked_def demo_futex_def same_waiter_def)
  moreover have "t_status (k_store (fx_kernel (demo_futex p q)) (k_current (fx_kernel (demo_futex p q)))) = Running"
    by (simp add: demo_futex_def demo_kernel_def demo_core_def)
  moreover have "fx_kernel (demo_futex p q) = demo_kernel" "fx_lot (demo_futex p q) 0x5000 = Some q" "fx_pool (demo_futex p q) = p"
    by (simp_all add: demo_futex_def)
  ultimately show ?thesis
    using futex_wait_outcome [of demo_platform "demo_futex p q" "0x5000" "handle_new (TaskId 3) NORMAL_PRIO 0" 600 "Some 500"]
      demo_kernel_ok q(1) by auto
qed

end
