(* ===== verification/Times.thy ===== *)
theory Times
  imports Prelude "HOL-Library.Signed_Division"
begin

text \<open>
  Points in time of \<^verbatim>\<open>src/time.rs\<close>: \<open>timeval\<close>, \<open>timespec\<close> and \<open>SystemTime\<close>. Seconds are \<open>i64\<close>, the
  parts below a second \<open>i32\<close>; division and remainder round towards zero, and arithmetic that leaves the
  range of \<open>i64\<close> is reported (\<^const>\<open>None\<close>).
\<close>

section \<open>Definitions\<close>

definition i64_range :: "int \<Rightarrow> bool" where
  "i64_range x \<longleftrightarrow> - (2 ^ 63) \<le> x \<and> x < 2 ^ 63"

definition checked_i64 :: "int \<Rightarrow> int option" where
  "checked_i64 x = (if i64_range x then Some x else None)"

record timeval =
  tv_sec :: int
  tv_usec :: int

record timespec =
  ts_sec :: int
  ts_nsec :: int

definition timeval_from_usec :: "int \<Rightarrow> timeval" where
  "timeval_from_usec us = \<lparr>tv_sec = us sdiv 1000000, tv_usec = wrap_i32 (us smod 1000000)\<rparr>"

definition timeval_into_usec :: "timeval \<Rightarrow> int option" where
  "timeval_into_usec t = do {
     usec \<leftarrow> checked_i64 (tv_sec t * 1000000);
     checked_i64 (usec + tv_usec t)
   }"

definition timespec_from_usec :: "int \<Rightarrow> timespec" where
  "timespec_from_usec us = \<lparr>ts_sec = us sdiv 1000000, ts_nsec = wrap_i32 (us smod 1000000 * 1000)\<rparr>"

definition timespec_into_usec :: "timespec \<Rightarrow> int option" where
  "timespec_into_usec t = do {
     usec \<leftarrow> checked_i64 (ts_sec t * 1000000);
     checked_i64 (usec + ts_nsec t sdiv 1000)
   }"

definition timespec_default :: timespec where
  "timespec_default = \<lparr>ts_sec = 0, ts_nsec = 0\<rparr>"

text \<open>\<open>SystemTime\<close> is a wrapper of a \<open>timespec\<close>; the difference of two times must not be negative.\<close>

definition duration_since :: "timespec \<Rightarrow> timespec \<Rightarrow> nat option" where
  "duration_since t earlier = do {
     a \<leftarrow> timespec_into_usec t;
     b \<leftarrow> timespec_into_usec earlier;
     d \<leftarrow> checked_i64 (a - b);
     if d < 0 then None else Some (nat d)
   }"

section \<open>Round trips\<close>

lemma sdiv_smod_parts:
  fixes x :: int
  shows "x sdiv 1000000 * 1000000 + x smod 1000000 = x" "- 1000000 < x smod 1000000" "x smod 1000000 < 1000000"
    "0 \<le> x \<Longrightarrow> 0 \<le> x sdiv 1000000 * 1000000 \<and> x sdiv 1000000 * 1000000 \<le> x"
    "x < 0 \<Longrightarrow> x \<le> x sdiv 1000000 * 1000000 \<and> x sdiv 1000000 * 1000000 \<le> 0"
proof -
  have d: "x sdiv 1000000 = sgn x * (\<bar>x\<bar> div 1000000)" by (simp add: signed_divide_int_def sgn_mult)
  have m: "x smod 1000000 = x - x sdiv 1000000 * 1000000" 
    unfolding d signed_modulo_int_def minus_div_mult_eq_mod [symmetric] by (simp add: right_diff_distrib sgn_mult_abs)
  show "x sdiv 1000000 * 1000000 + x smod 1000000 = x" by (simp add: m)
  have "\<bar>x\<bar> = \<bar>x\<bar> div 1000000 * 1000000 + \<bar>x\<bar> mod 1000000" "0 \<le> \<bar>x\<bar> mod 1000000" "\<bar>x\<bar> mod 1000000 < 1000000"
    by simp_all
  then show "- 1000000 < x smod 1000000" "x smod 1000000 < 1000000"
    "0 \<le> x \<Longrightarrow> 0 \<le> x sdiv 1000000 * 1000000 \<and> x sdiv 1000000 * 1000000 \<le> x"
    "x < 0 \<Longrightarrow> x \<le> x sdiv 1000000 * 1000000 \<and> x sdiv 1000000 * 1000000 \<le> 0"
    unfolding m d by (cases "x < 0"; cases "x = 0"; simp add: sgn_if; linarith)+
qed

lemma timeval_roundtrip: "i64_range us \<Longrightarrow> timeval_into_usec (timeval_from_usec us) = Some us"
  using sdiv_smod_parts [of us]
  by (cases "us < 0") (auto simp: timeval_into_usec_def timeval_from_usec_def checked_i64_def i64_range_def wrap_i32_id)

lemma sdiv_mult_cancel: "(r :: int) * 1000 sdiv 1000 = r"
  by (simp add: signed_divide_int_def sgn_mult abs_mult) (metis mult_sgn_abs mult.commute)

lemma timespec_roundtrip: "i64_range us \<Longrightarrow> timespec_into_usec (timespec_from_usec us) = Some us"
  using sdiv_smod_parts [of us]
  by (cases "us < 0") (auto simp: timespec_into_usec_def timespec_from_usec_def checked_i64_def i64_range_def wrap_i32_id sdiv_mult_cancel)

lemma duration_since_usec:
  assumes "i64_range a" "i64_range b" "i64_range (a - b)"
  shows "duration_since (timespec_from_usec a) (timespec_from_usec b) = (if a < b then None else Some (nat (a - b)))"
  using assms by (simp add: duration_since_def timespec_roundtrip checked_i64_def)

end
