(* ===== verification/Mem_Fs.thy ===== *)
theory Mem_Fs
  imports Fd_Table Times "HOL-Library.List_Lexorder" "HOL-Library.Char_ord"
begin

text \<open>
  The in-memory file system: \<^verbatim>\<open>src/fs/mem.rs\<close> with the data types and the node interface of
  \<^verbatim>\<open>src/fs/mod.rs\<close> and \<^verbatim>\<open>src/fs/dev_directory.rs\<close>. Contents behind an \<^verbatim>\<open>Arc\<close> (files and the entries
  of directories) are inodes in a store, so that an open file and the directory tree share them; open files
  are objects in a second store. A directory is the sorted list of its entries, like the \<^verbatim>\<open>BTreeMap\<close> of the
  source. Clock readings are arguments.
\<close>

unbundle bit_operations_syntax

section \<open>Attributes, nodes and open files\<close>

record file_attr =
  st_dev :: u64
  st_ino :: u64
  st_nlink :: u64
  st_mode :: u32
  st_uid :: u32
  st_gid :: u32
  st_rdev :: u64
  st_size :: int
  st_blksize :: int
  st_blocks :: int
  st_atim :: timespec
  st_mtim :: timespec
  st_ctim :: timespec

definition S_IFREG :: u32 where
  "S_IFREG = 0x8000"

definition S_IFCHR :: u32 where
  "S_IFCHR = 0x2000"

definition S_IFDIR :: u32 where
  "S_IFDIR = 0x4000"

definition access_permission_default :: u32 where
  "access_permission_default = 0x1b6"

definition file_attr_default :: file_attr where
  "file_attr_default = \<lparr>st_dev = 0, st_ino = 0, st_nlink = 0, st_mode = access_permission_default, st_uid = 0,
     st_gid = 0, st_rdev = 0, st_size = 0, st_blksize = 0, st_blocks = 0, st_atim = timespec_default,
     st_mtim = timespec_default, st_ctim = timespec_default\<rparr>"

datatype node_kind = File_Kind | Directory_Kind

datatype seek_whence = Seek_Set | Seek_Cur | Seek_End | Seek_Data | Seek_Hole

type_synonym inum = nat

datatype inode =
    Rom_Inode "u8 list" file_attr
  | Ram_Inode "u8 list" file_attr
  | Dir_Inode "(string \<times> inum) list" file_attr
  | Dev_Inode

text \<open>An open file has its own position; a directory its own index of the next entry.\<close>

datatype open_file =
    Rom_Open nat inum
  | Ram_Open nat inum
  | Dir_Open nat inum
  | Reader_Open "string list"
  | Random_Open
  | Stdin_Open
  | Stdout_Open
  | Stderr_Open

text \<open>What the devices behind an open file answer: the entropy source and the console. \<open>dev_console_read\<close> is the
  first read that gives input or an error, since the file waits for it; \<open>dev_console_echo\<close> writes all of it back.\<close>

record devices =
  dev_random :: "nat \<Rightarrow> u8 list io_result"
  dev_console_ready :: "bool io_result"
  dev_console_read :: "nat \<Rightarrow> u8 list io_result"
  dev_console_echo :: "u8 list \<Rightarrow> unit io_result"
  dev_console_write :: "u8 list \<Rightarrow> nat io_result"

record fs =
  fs_inodes :: "inum \<Rightarrow> inode"
  fs_next :: inum
  fs_files :: "fd_obj \<Rightarrow> open_file"
  fs_next_file :: fd_obj

definition add_inode :: "inode \<Rightarrow> fs \<Rightarrow> inum \<times> fs" where
  "add_inode i fs = (fs_next fs, fs\<lparr>fs_inodes := (fs_inodes fs)(fs_next fs := i), fs_next := Suc (fs_next fs)\<rparr>)"

definition set_inode :: "inum \<Rightarrow> inode \<Rightarrow> fs \<Rightarrow> fs" where
  "set_inode n i fs = fs\<lparr>fs_inodes := (fs_inodes fs)(n := i)\<rparr>"

definition add_file :: "open_file \<Rightarrow> fs \<Rightarrow> fd_obj \<times> fs" where
  "add_file f fs = (fs_next_file fs, fs\<lparr>fs_files := (fs_files fs)(fs_next_file fs := f), fs_next_file := Suc (fs_next_file fs)\<rparr>)"

definition set_file :: "fd_obj \<Rightarrow> open_file \<Rightarrow> fs \<Rightarrow> fs" where
  "set_file n f fs = fs\<lparr>fs_files := (fs_files fs)(n := f)\<rparr>"

section \<open>Reading, writing and seeking\<close>

definition rom_read :: "nat \<Rightarrow> nat \<Rightarrow> u8 list \<Rightarrow> u8 list \<times> nat" where
  "rom_read n pos data =
     (if length data \<le> pos then ([], pos)
      else let len = min (length data - pos) n in (take len (drop pos data), pos + len))"

definition ram_read :: "nat \<Rightarrow> nat \<Rightarrow> u8 list \<Rightarrow> u8 list \<times> nat" where
  "ram_read n pos data =
     (if length data \<le> pos then ([], pos)
      else let len = (if length data - pos < n then length data - pos else n)
           in (take len (drop pos data), pos + len))"

text \<open>\<^verbatim>\<open>Vec::resize\<close> with zero.\<close>

definition resize :: "nat \<Rightarrow> u8 list \<Rightarrow> u8 list" where
  "resize n data = take n data @ replicate (n - length data) 0"

definition ram_write :: "timespec \<Rightarrow> u8 list \<Rightarrow> nat \<Rightarrow> u8 list \<Rightarrow> file_attr \<Rightarrow> u8 list \<times> file_attr \<times> nat" where
  "ram_write t buf pos data attr =
     (let (data1, attr1) = (if length data < pos + length buf
                            then let d = resize (pos + length buf) data in (d, attr\<lparr>st_size := int (length d)\<rparr>)
                            else (data, attr));
          attr2 = attr1\<lparr>st_atim := t, st_mtim := t, st_ctim := t\<rparr>;
          data2 = take pos data1 @ buf @ drop (pos + length buf) data1
      in (data2, attr2, pos + length buf))"

definition isize_range :: "int \<Rightarrow> bool" where
  "isize_range x \<longleftrightarrow> - (2 ^ 63) \<le> x \<and> x < 2 ^ 63"

definition seek_target :: "int \<Rightarrow> seek_whence \<Rightarrow> int \<Rightarrow> int \<Rightarrow> int io_result" where
  "seek_target offset whence pos data_len =
     (case whence of
        Seek_Set \<Rightarrow> Inr offset
      | Seek_Cur \<Rightarrow> if isize_range (pos + offset) then Inr (pos + offset) else Inl Overflow
      | Seek_End \<Rightarrow> if isize_range (data_len + offset) then Inr (data_len + offset) else Inl Overflow
      | _ \<Rightarrow> Inl Inval)"

definition rom_lseek :: "int \<Rightarrow> seek_whence \<Rightarrow> nat \<Rightarrow> u8 list \<Rightarrow> nat io_result" where
  "rom_lseek offset whence pos data =
     (case seek_target offset whence (int pos) (int (length data)) of
        Inl e \<Rightarrow> Inl e
      | Inr new_pos \<Rightarrow> if 0 \<le> new_pos \<and> new_pos \<le> int (length data) then Inr (nat new_pos) else Inl Inval)"

definition ram_lseek :: "int \<Rightarrow> seek_whence \<Rightarrow> nat \<Rightarrow> u8 list \<Rightarrow> file_attr \<Rightarrow> (nat \<times> u8 list \<times> file_attr) io_result" where
  "ram_lseek offset whence pos data attr =
     (case seek_target offset whence (int pos) (int (length data)) of
        Inl e \<Rightarrow> Inl e
      | Inr new_pos \<Rightarrow>
          if new_pos < 0 then Inl Inval
          else if int (length data) < new_pos
          then let d = resize (nat new_pos) data in Inr (nat new_pos, d, attr\<lparr>st_size := int (length d)\<rparr>)
          else Inr (nat new_pos, data, attr))"

text \<open>\<open>offset as usize\<close> of a directory seek.\<close>

definition dir_lseek :: "int \<Rightarrow> seek_whence \<Rightarrow> nat io_result" where
  "dir_lseek offset whence =
     (if whence \<noteq> Seek_Set \<and> offset \<noteq> 0 then Inl Inval else Inr (nat (offset mod 2 ^ 64)))"

text \<open>Poll events.\<close>

definition POLL_READ :: "16 word" where
  "POLL_READ = 0x1 OR 0x40 OR 0x80"

definition POLL_WRITE :: "16 word" where
  "POLL_WRITE = 0x4 OR 0x100 OR 0x200"

definition rom_poll :: "16 word \<Rightarrow> nat \<Rightarrow> u8 list \<Rightarrow> 16 word" where
  "rom_poll event pos data = (if pos < length data then event AND POLL_READ else 0)"

definition ram_poll :: "16 word \<Rightarrow> nat \<Rightarrow> u8 list \<Rightarrow> 16 word" where
  "ram_poll event pos data =
     (let available = (if pos < length data then POLL_WRITE OR POLL_READ else POLL_WRITE) in event AND available)"

section \<open>Directory listings\<close>

text \<open>The entries written by \<open>getdents\<close>: record length and name; inode number, offset and type are constants.
  The name starts at offset 19 of an entry, entries are aligned to 8 bytes.\<close>

definition align8 :: "nat \<Rightarrow> nat" where
  "align8 n = (n + 7) div 8 * 8"

definition dirent_len :: "string \<Rightarrow> nat" where
  "dirent_len name = 19 + length name + 1"

text \<open>The loop over the remaining names: the entries that fit, and the offset after them.\<close>

fun getdents_loop :: "nat \<Rightarrow> nat \<Rightarrow> string list \<Rightarrow> ((nat \<times> string) list \<times> nat) option" where
  "getdents_loop buf_len off [] = Some ([], off)"
| "getdents_loop buf_len off (name # names) =
     (let next_dirent = align8 (off + dirent_len name) in
      if buf_len < next_dirent then Some ([], off)
      else do {
        guard (align8 (dirent_len name) < 2 ^ 16);
        (entries, ret) \<leftarrow> getdents_loop buf_len next_dirent names;
        Some ((align8 (dirent_len name), name) # entries, ret)
      })"

definition dir_getdents :: "nat \<Rightarrow> nat \<Rightarrow> string list \<Rightarrow> (((nat \<times> string) list \<times> nat) io_result \<times> nat) option" where
  "dir_getdents buf_len read_idx names = do {
     let rest = drop read_idx names;
     (entries, ret) \<leftarrow> getdents_loop buf_len 0 rest;
     if entries = [] \<and> rest \<noteq> [] then Some (Inl Inval, read_idx)
     else Some (Inr (entries, ret), read_idx + length entries)
   }"

section \<open>Sorted directories\<close>

definition dir_get :: "(string \<times> inum) list \<Rightarrow> string \<Rightarrow> inum option" where
  "dir_get es name = map_of es name"

definition dir_insert :: "string \<Rightarrow> inum \<Rightarrow> (string \<times> inum) list \<Rightarrow> (string \<times> inum) list" where
  "dir_insert name n es = takeWhile (\<lambda>e. fst e < name) es @ [(name, n)] @ dropWhile (\<lambda>e. fst e \<le> name) es"

definition dir_remove :: "string \<Rightarrow> (string \<times> inum) list \<Rightarrow> (string \<times> inum) list" where
  "dir_remove name es = filter (\<lambda>e. fst e \<noteq> name) es"

definition dir_sorted :: "(string \<times> inum) list \<Rightarrow> bool" where
  "dir_sorted es \<longleftrightarrow> sorted_wrt (<) (map fst es)"

section \<open>Paths\<close>

text \<open>\<^verbatim>\<open>split_once\<close> at the first slash.\<close>

fun split_once :: "string \<Rightarrow> (string \<times> string) option" where
  "split_once [] = None"
| "split_once (c # cs) =
     (if c = CHR ''/'' then Some ([], cs)
      else case split_once cs of None \<Rightarrow> None | Some (a, b) \<Rightarrow> Some (c # a, b))"

definition split_path :: "string \<Rightarrow> string \<times> string" where
  "split_path path = (case split_once path of Some cr \<Rightarrow> cr | None \<Rightarrow> (path, []))"

lemma split_once_length: "split_once p = Some (c, r) \<Longrightarrow> length r < length p"
  by (induction p arbitrary: c) (auto split: if_splits option.splits)

lemma split_path_length [termination_simp]: "(c, r) = split_path p \<Longrightarrow> r \<noteq> [] \<Longrightarrow> length r < length p"
  using split_once_length by (auto simp: split_path_def split: option.splits)

section \<open>Creating nodes\<close>

definition rom_file_new :: "timespec \<Rightarrow> u8 list \<Rightarrow> u32 \<Rightarrow> inode" where
  "rom_file_new t data mode = Rom_Inode data (file_attr_default\<lparr>st_size := int (length data),
     st_mode := mode OR S_IFREG, st_atim := t, st_mtim := t, st_ctim := t\<rparr>)"

definition ram_file_new :: "timespec \<Rightarrow> u32 \<Rightarrow> inode" where
  "ram_file_new t mode = Ram_Inode [] (file_attr_default\<lparr>st_mode := mode OR S_IFREG, st_atim := t, st_mtim := t, st_ctim := t\<rparr>)"

definition mem_directory_new :: "timespec \<Rightarrow> u32 \<Rightarrow> inode" where
  "mem_directory_new t mode = Dir_Inode [] (file_attr_default\<lparr>st_mode := mode OR S_IFDIR, st_atim := t, st_mtim := t, st_ctim := t\<rparr>)"

definition get_kind :: "inode \<Rightarrow> node_kind" where
  "get_kind i = (case i of Rom_Inode _ _ \<Rightarrow> File_Kind | Ram_Inode _ _ \<Rightarrow> File_Kind | Dir_Inode _ _ \<Rightarrow> Directory_Kind
     | Dev_Inode \<Rightarrow> Directory_Kind)"

definition get_file_attributes :: "inode \<Rightarrow> file_attr io_result" where
  "get_file_attributes i = (case i of Rom_Inode _ a \<Rightarrow> Inr a | Ram_Inode _ a \<Rightarrow> Inr a | Dir_Inode _ a \<Rightarrow> Inr a
     | Dev_Inode \<Rightarrow> Inl Nosys)"

text \<open>\<open>get_object\<close>: a new open file at position 0.\<close>

definition node_get_object :: "inum \<Rightarrow> fs \<Rightarrow> fd_obj io_result \<times> fs" where
  "node_get_object n fs =
     (case fs_inodes fs n of
        Rom_Inode _ _ \<Rightarrow> map_prod Inr id (add_file (Rom_Open 0 n) fs)
      | Ram_Inode _ _ \<Rightarrow> map_prod Inr id (add_file (Ram_Open 0 n) fs)
      | Dir_Inode _ _ \<Rightarrow> map_prod Inr id (add_file (Dir_Open 0 n) fs)
      | Dev_Inode \<Rightarrow> (Inl Nosys, fs))"

section \<open>Walking the tree\<close>

definition O_CREAT :: u32 where
  "O_CREAT = 0x40"

definition O_EXCL :: u32 where
  "O_EXCL = 0x80"

definition O_TRUNC :: u32 where
  "O_TRUNC = 0x200"

definition O_DIRECTORY :: u32 where
  "O_DIRECTORY = 0x10000"

definition contains_flag :: "u32 \<Rightarrow> u32 \<Rightarrow> bool" where
  "contains_flag opt flag \<longleftrightarrow> opt AND flag = flag"

text \<open>A node that is no directory answers every request of the tree with \<open>Nosys\<close>, except for its status.\<close>

fun traverse_open :: "timespec \<Rightarrow> u32 \<Rightarrow> u32 \<Rightarrow> inum \<Rightarrow> string \<Rightarrow> fs \<Rightarrow> fd_obj io_result \<times> fs" where
  "traverse_open t opt mode d path fs =
     (case fs_inodes fs d of
        Dir_Inode es attr \<Rightarrow>
          (case split_path path of (component, rest) \<Rightarrow>
             if rest \<noteq> []
             then (case dir_get es component of
                     None \<Rightarrow> (Inl Noent, fs)
                   | Some n \<Rightarrow> traverse_open t opt mode n rest fs)
             else (case dir_get es component of
                     None \<Rightarrow>
                       if contains_flag opt O_CREAT
                       then let (n, fs1) = add_inode (ram_file_new t mode) fs;
                                fs2 = set_inode d (Dir_Inode (dir_insert component n es) attr) fs1
                            in map_prod Inr id (add_file (Ram_Open 0 n) fs2)
                       else (Inl Noent, fs)
                   | Some n \<Rightarrow>
                       let kind = get_kind (fs_inodes fs n) in
                       if contains_flag opt O_DIRECTORY \<and> kind \<noteq> Directory_Kind then (Inl Notdir, fs)
                       else if kind \<noteq> File_Kind \<and> kind \<noteq> Directory_Kind then (Inl Noent, fs)
                       else node_get_object n fs))
      | Dev_Inode \<Rightarrow>
          if path = ''urandom'' \<or> path = ''random'' then map_prod Inr id (add_file Random_Open fs)
          else (Inl Noent, fs)
      | _ \<Rightarrow> (Inl Nosys, fs))"

text \<open>\<open>mkdir\<close> and \<open>mount\<close> also descend when the last component exists.\<close>

partial_function (option) traverse_mkdir ::
    "timespec \<Rightarrow> u32 \<Rightarrow> inum \<Rightarrow> string \<Rightarrow> fs \<Rightarrow> (unit io_result \<times> fs) option" where
  "traverse_mkdir t mode d path fs =
     (case fs_inodes fs d of
        Dir_Inode es attr \<Rightarrow>
          (case split_path path of (component, rest) \<Rightarrow>
             (case dir_get es component of
                Some n \<Rightarrow> traverse_mkdir t mode n rest fs
              | None \<Rightarrow>
                  if rest \<noteq> [] then Some (Inl Badf, fs)
                  else let (n, fs1) = add_inode (mem_directory_new t mode) fs
                       in Some (Inr (), set_inode d (Dir_Inode (dir_insert component n es) attr) fs1)))
      | _ \<Rightarrow> Some (Inl Nosys, fs))"

declare traverse_mkdir.simps [code]

partial_function (option) traverse_mount ::
    "inum \<Rightarrow> inum \<Rightarrow> string \<Rightarrow> fs \<Rightarrow> (unit io_result \<times> fs) option" where
  "traverse_mount obj d path fs =
     (case fs_inodes fs d of
        Dir_Inode es attr \<Rightarrow>
          (case split_path path of (component, rest) \<Rightarrow>
             (case dir_get es component of
                Some n \<Rightarrow> traverse_mount obj n rest fs
              | None \<Rightarrow>
                  if rest \<noteq> [] then Some (Inl Badf, fs)
                  else Some (Inr (), set_inode d (Dir_Inode (dir_insert component obj es) attr) fs)))
      | _ \<Rightarrow> Some (Inl Nosys, fs))"

declare traverse_mount.simps [code]

fun traverse_rmdir :: "inum \<Rightarrow> string \<Rightarrow> fs \<Rightarrow> unit io_result \<times> fs" where
  "traverse_rmdir d path fs =
     (case fs_inodes fs d of
        Dir_Inode es attr \<Rightarrow>
          (case split_path path of (component, rest) \<Rightarrow>
             if rest \<noteq> []
             then (case dir_get es component of
                     None \<Rightarrow> (Inl Badf, fs)
                   | Some n \<Rightarrow> traverse_rmdir n rest fs)
             else (case dir_get es component of
                     None \<Rightarrow> (Inl Noent, fs)
                   | Some n \<Rightarrow>
                       if get_kind (fs_inodes fs n) \<noteq> Directory_Kind then (Inl Notdir, fs)
                       else (Inr (), set_inode d (Dir_Inode (dir_remove component es) attr) fs)))
      | _ \<Rightarrow> (Inl Nosys, fs))"

fun traverse_unlink :: "inum \<Rightarrow> string \<Rightarrow> fs \<Rightarrow> unit io_result \<times> fs" where
  "traverse_unlink d path fs =
     (case fs_inodes fs d of
        Dir_Inode es attr \<Rightarrow>
          (case split_path path of (component, rest) \<Rightarrow>
             if rest \<noteq> []
             then (case dir_get es component of
                     None \<Rightarrow> (Inl Badf, fs)
                   | Some n \<Rightarrow> traverse_unlink n rest fs)
             else (case dir_get es component of
                     None \<Rightarrow> (Inl Noent, fs)
                   | Some n \<Rightarrow>
                       if get_kind (fs_inodes fs n) \<noteq> File_Kind then (Inl Isdir, fs)
                       else (Inr (), set_inode d (Dir_Inode (dir_remove component es) attr) fs)))
      | _ \<Rightarrow> (Inl Nosys, fs))"

function traverse_readdir :: "inum \<Rightarrow> string \<Rightarrow> fs \<Rightarrow> string list io_result" where
  "traverse_readdir d path fs =
     (case fs_inodes fs d of
        Dir_Inode es attr \<Rightarrow>
          (case split_once path of
             Some (component, rest) \<Rightarrow>
               (case dir_get es component of
                  None \<Rightarrow> Inl Badf
                | Some n \<Rightarrow> traverse_readdir n rest fs)
           | None \<Rightarrow> Inr (map fst es))
      | _ \<Rightarrow> Inl Nosys)"
  by pat_completeness auto
termination
  by (relation "measure (\<lambda>(d, path, fs). length path)") (auto dest: split_once_length)

fun traverse_stat :: "inum \<Rightarrow> string \<Rightarrow> fs \<Rightarrow> file_attr io_result" where
  "traverse_stat d path fs =
     (case fs_inodes fs d of
        Dir_Inode es attr \<Rightarrow>
          (case split_path path of (component, rest) \<Rightarrow>
             (case dir_get es component of
                None \<Rightarrow> Inl Badf
              | Some n \<Rightarrow>
                  if rest \<noteq> []
                  then if get_kind (fs_inodes fs n) = File_Kind then Inl Notdir else traverse_stat n rest fs
                  else get_file_attributes (fs_inodes fs n)))
      | Dev_Inode \<Rightarrow> Inl Nosys
      | i \<Rightarrow> if path \<noteq> [] then Inl Badf else get_file_attributes i)"

definition traverse_lstat :: "inum \<Rightarrow> string \<Rightarrow> fs \<Rightarrow> file_attr io_result" where
  "traverse_lstat d path fs = traverse_stat d path fs"

fun traverse_create_file :: "timespec \<Rightarrow> u8 list \<Rightarrow> u32 \<Rightarrow> inum \<Rightarrow> string \<Rightarrow> fs \<Rightarrow> unit io_result \<times> fs" where
  "traverse_create_file t data mode d path fs =
     (case fs_inodes fs d of
        Dir_Inode es attr \<Rightarrow>
          (case split_path path of (component, rest) \<Rightarrow>
             if rest \<noteq> []
             then (case dir_get es component of
                     None \<Rightarrow> (Inl Noent, fs)
                   | Some n \<Rightarrow> traverse_create_file t data mode n rest fs)
             else let (n, fs1) = add_inode (rom_file_new t data mode) fs
                  in (Inr (), set_inode d (Dir_Inode (dir_insert component n es) attr) fs1))
      | _ \<Rightarrow> (Inl Nosys, fs))"

lemmas traverse_simps =
  traverse_open.simps traverse_rmdir.simps traverse_unlink.simps traverse_readdir.simps traverse_stat.simps
  traverse_create_file.simps

declare traverse_simps [simp del]

section \<open>Operations on open files\<close>

definition stdin_read :: "devices \<Rightarrow> nat \<Rightarrow> u8 list io_result" where
  "stdin_read dev n =
     (case dev_console_read dev n of
        Inl e \<Rightarrow> Inl e
      | Inr bytes \<Rightarrow> (case dev_console_echo dev bytes of Inl e \<Rightarrow> Inl e | Inr _ \<Rightarrow> Inr bytes))"

text \<open>The object interface; what an object does not implement fails with the default error of the interface.\<close>

definition obj_read :: "timespec \<Rightarrow> devices \<Rightarrow> nat \<Rightarrow> fd_obj \<Rightarrow> fs \<Rightarrow> u8 list io_result \<times> fs" where
  "obj_read t dev n f fs =
     (case fs_files fs f of
        Rom_Open pos i \<Rightarrow>
          (case fs_inodes fs i of
             Rom_Inode data attr \<Rightarrow>
               let (bytes, pos1) = rom_read n pos data
               in (Inr bytes, set_file f (Rom_Open pos1 i) (set_inode i (Rom_Inode data (attr\<lparr>st_atim := t\<rparr>)) fs))
           | _ \<Rightarrow> (Inl Nosys, fs))
      | Ram_Open pos i \<Rightarrow>
          (case fs_inodes fs i of
             Ram_Inode data attr \<Rightarrow>
               let (bytes, pos1) = ram_read n pos data
               in (Inr bytes, set_file f (Ram_Open pos1 i) (set_inode i (Ram_Inode data (attr\<lparr>st_atim := t\<rparr>)) fs))
           | _ \<Rightarrow> (Inl Nosys, fs))
      | Random_Open \<Rightarrow> (dev_random dev n, fs)
      | Stdin_Open \<Rightarrow> (stdin_read dev n, fs)
      | _ \<Rightarrow> (Inl Nosys, fs))"

definition obj_write :: "timespec \<Rightarrow> devices \<Rightarrow> u8 list \<Rightarrow> fd_obj \<Rightarrow> fs \<Rightarrow> nat io_result \<times> fs" where
  "obj_write t dev buf f fs =
     (case fs_files fs f of
        Ram_Open pos i \<Rightarrow>
          (case fs_inodes fs i of
             Ram_Inode data attr \<Rightarrow>
               let (data1, attr1, pos1) = ram_write t buf pos data attr
               in (Inr (length buf), set_file f (Ram_Open pos1 i) (set_inode i (Ram_Inode data1 attr1) fs))
           | _ \<Rightarrow> (Inl Nosys, fs))
      | Stdout_Open \<Rightarrow> (dev_console_write dev buf, fs)
      | Stderr_Open \<Rightarrow> (dev_console_write dev buf, fs)
      | _ \<Rightarrow> (Inl Nosys, fs))"

definition obj_lseek :: "int \<Rightarrow> seek_whence \<Rightarrow> fd_obj \<Rightarrow> fs \<Rightarrow> nat io_result \<times> fs" where
  "obj_lseek offset whence f fs =
     (case fs_files fs f of
        Rom_Open pos i \<Rightarrow>
          (case fs_inodes fs i of
             Rom_Inode data attr \<Rightarrow>
               (case rom_lseek offset whence pos data of
                  Inl e \<Rightarrow> (Inl e, fs)
                | Inr p \<Rightarrow> (Inr p, set_file f (Rom_Open p i) fs))
           | _ \<Rightarrow> (Inl Inval, fs))
      | Ram_Open pos i \<Rightarrow>
          (case fs_inodes fs i of
             Ram_Inode data attr \<Rightarrow>
               (case ram_lseek offset whence pos data attr of
                  Inl e \<Rightarrow> (Inl e, fs)
                | Inr (p, data1, attr1) \<Rightarrow> (Inr p, set_file f (Ram_Open p i) (set_inode i (Ram_Inode data1 attr1) fs)))
           | _ \<Rightarrow> (Inl Inval, fs))
      | Dir_Open idx i \<Rightarrow>
          (case dir_lseek offset whence of
             Inl e \<Rightarrow> (Inl e, fs)
           | Inr p \<Rightarrow> (Inr p, set_file f (Dir_Open p i) fs))
      | _ \<Rightarrow> (Inl Inval, fs))"

definition obj_fstat :: "fd_obj \<Rightarrow> fs \<Rightarrow> file_attr io_result" where
  "obj_fstat f fs =
     (case fs_files fs f of
        Rom_Open _ i \<Rightarrow> get_file_attributes (fs_inodes fs i)
      | Ram_Open _ i \<Rightarrow> get_file_attributes (fs_inodes fs i)
      | Stdin_Open \<Rightarrow> Inr (file_attr_default\<lparr>st_mode := S_IFCHR\<rparr>)
      | Stdout_Open \<Rightarrow> Inr (file_attr_default\<lparr>st_mode := S_IFCHR\<rparr>)
      | Stderr_Open \<Rightarrow> Inr (file_attr_default\<lparr>st_mode := S_IFCHR\<rparr>)
      | _ \<Rightarrow> Inl Inval)"

definition obj_isatty :: "fd_obj \<Rightarrow> fs \<Rightarrow> bool" where
  "obj_isatty f fs \<longleftrightarrow> fs_files fs f \<in> {Stdin_Open, Stdout_Open, Stderr_Open}"

definition obj_poll :: "devices \<Rightarrow> 16 word \<Rightarrow> fd_obj \<Rightarrow> fs \<Rightarrow> 16 word io_result" where
  "obj_poll dev event f fs =
     (case fs_files fs f of
        Rom_Open pos i \<Rightarrow> (case fs_inodes fs i of Rom_Inode data _ \<Rightarrow> Inr (rom_poll event pos data) | _ \<Rightarrow> Inr 0)
      | Ram_Open pos i \<Rightarrow> (case fs_inodes fs i of Ram_Inode data _ \<Rightarrow> Inr (ram_poll event pos data) | _ \<Rightarrow> Inr 0)
      | Stdin_Open \<Rightarrow>
          (case dev_console_ready dev of
             Inl e \<Rightarrow> Inl e
           | Inr ready \<Rightarrow> Inr (event AND (if ready then POLL_READ else 0)))
      | Stdout_Open \<Rightarrow> Inr (event AND POLL_WRITE)
      | Stderr_Open \<Rightarrow> Inr (event AND POLL_WRITE)
      | _ \<Rightarrow> Inr 0)"

definition obj_truncate :: "nat \<Rightarrow> fd_obj \<Rightarrow> fs \<Rightarrow> unit io_result \<times> fs" where
  "obj_truncate n f fs =
     (case fs_files fs f of
        Ram_Open _ i \<Rightarrow>
          (case fs_inodes fs i of
             Ram_Inode data attr \<Rightarrow> (Inr (), set_inode i (Ram_Inode (resize n data) (attr\<lparr>st_size := int n\<rparr>)) fs)
           | _ \<Rightarrow> (Inl Nosys, fs))
      | _ \<Rightarrow> (Inl Nosys, fs))"

definition obj_chmod :: "u32 \<Rightarrow> fd_obj \<Rightarrow> fs \<Rightarrow> unit io_result \<times> fs" where
  "obj_chmod mode f fs =
     (case fs_files fs f of
        Ram_Open _ i \<Rightarrow>
          (case fs_inodes fs i of
             Ram_Inode data attr \<Rightarrow> (Inr (), set_inode i (Ram_Inode data (attr\<lparr>st_mode := mode\<rparr>)) fs)
           | _ \<Rightarrow> (Inl Nosys, fs))
      | _ \<Rightarrow> (Inl Nosys, fs))"

text \<open>\<open>getdents\<close>; the reader of \<open>opendir\<close> is not implemented and panics.\<close>

definition obj_getdents :: "nat \<Rightarrow> fd_obj \<Rightarrow> fs \<Rightarrow> (((nat \<times> string) list \<times> nat) io_result \<times> fs) option" where
  "obj_getdents buf_len f fs =
     (case fs_files fs f of
        Dir_Open idx i \<Rightarrow>
          (case fs_inodes fs i of
             Dir_Inode es attr \<Rightarrow> do {
               (res, idx1) \<leftarrow> dir_getdents buf_len idx (map fst es);
               Some (res, set_file f (Dir_Open idx1 i) fs)
             }
           | _ \<Rightarrow> Some (Inl Inval, fs))
      | Reader_Open _ \<Rightarrow> None
      | _ \<Rightarrow> Some (Inl Inval, fs))"

end
