(* ===== verification/Vfs.thy ===== *)
theory Vfs
  imports Mem_Fs
begin

text \<open>
  The file interface of the kernel: \<^verbatim>\<open>src/fs/mod.rs\<close> and the descriptor functions of \<^verbatim>\<open>src/fd/mod.rs\<close>. A name
  is made absolute with the working directory, looked up from the root (inode 0), and an opened object is
  entered into the descriptor table of the current task.
\<close>

unbundle bit_operations_syntax

section \<open>The mounted file system\<close>

definition ROOT :: inum where
  "ROOT = 0"

definition filesystem_new :: "timespec \<Rightarrow> fs" where
  "filesystem_new t = \<lparr>fs_inodes = (\<lambda>_. Dev_Inode)(ROOT := mem_directory_new t 0x1ff), fs_next = 1,
     fs_files = (\<lambda>_. Random_Open)(0 := Stdin_Open, 1 := Stdout_Open, 2 := Stderr_Open), fs_next_file = 3\<rparr>"

text \<open>\<^verbatim>\<open>path.strip_prefix('/').unwrap_or(path)\<close>.\<close>

definition strip_slash :: "string \<Rightarrow> string" where
  "strip_slash path = (case path of [] \<Rightarrow> [] | c # cs \<Rightarrow> if c = CHR ''/'' then cs else path)"

definition filesystem_open :: "timespec \<Rightarrow> string \<Rightarrow> u32 \<Rightarrow> u32 \<Rightarrow> fs \<Rightarrow> fd_obj io_result \<times> fs" where
  "filesystem_open t path opt mode fs = traverse_open t opt mode ROOT (strip_slash path) fs"

definition filesystem_unlink :: "string \<Rightarrow> fs \<Rightarrow> unit io_result \<times> fs" where
  "filesystem_unlink path fs = traverse_unlink ROOT (strip_slash path) fs"

definition filesystem_rmdir :: "string \<Rightarrow> fs \<Rightarrow> unit io_result \<times> fs" where
  "filesystem_rmdir path fs = traverse_rmdir ROOT (strip_slash path) fs"

definition filesystem_mkdir :: "timespec \<Rightarrow> string \<Rightarrow> u32 \<Rightarrow> fs \<Rightarrow> (unit io_result \<times> fs) option" where
  "filesystem_mkdir t path mode fs = traverse_mkdir t mode ROOT (strip_slash path) fs"

definition filesystem_readdir :: "string \<Rightarrow> fs \<Rightarrow> string list io_result" where
  "filesystem_readdir path fs = traverse_readdir ROOT (strip_slash path) fs"

definition filesystem_opendir :: "string \<Rightarrow> fs \<Rightarrow> fd_obj io_result \<times> fs" where
  "filesystem_opendir path fs =
     (case filesystem_readdir path fs of
        Inl e \<Rightarrow> (Inl e, fs)
      | Inr names \<Rightarrow> map_prod Inr id (add_file (Reader_Open names) fs))"

definition filesystem_stat :: "string \<Rightarrow> fs \<Rightarrow> file_attr io_result" where
  "filesystem_stat path fs = traverse_stat ROOT (strip_slash path) fs"

definition filesystem_lstat :: "string \<Rightarrow> fs \<Rightarrow> file_attr io_result" where
  "filesystem_lstat path fs = traverse_lstat ROOT (strip_slash path) fs"

definition filesystem_mount :: "string \<Rightarrow> inum \<Rightarrow> fs \<Rightarrow> (unit io_result \<times> fs) option" where
  "filesystem_mount path obj fs = traverse_mount obj ROOT (strip_slash path) fs"

definition filesystem_create_file :: "timespec \<Rightarrow> string \<Rightarrow> u8 list \<Rightarrow> u32 \<Rightarrow> fs \<Rightarrow> unit io_result \<times> fs" where
  "filesystem_create_file t path data mode fs = traverse_create_file t data mode ROOT (strip_slash path) fs"

section \<open>Names relative to the working directory\<close>

record vfs =
  v_fs :: "fs option"
  v_cwd :: "string option"
  v_umask :: u32
  v_maps :: objmap_store
  v_map :: objmap_ref

definition with_relative_filename :: "string option \<Rightarrow> string \<Rightarrow> string io_result" where
  "with_relative_filename cwd name =
     (if name \<noteq> [] \<and> hd name = CHR ''/'' then Inr name
      else case cwd of None \<Rightarrow> Inl Badf | Some dir \<Rightarrow> Inr (dir @ ''/'' @ name))"

text \<open>The pattern of all functions: resolve the name, then require the file system.\<close>

definition on_fs :: "string \<Rightarrow> vfs \<Rightarrow> (string \<Rightarrow> fs \<Rightarrow> 'a io_result \<times> vfs) \<Rightarrow> 'a io_result \<times> vfs" where
  "on_fs name v body =
     (case with_relative_filename (v_cwd v) name of
        Inl e \<Rightarrow> (Inl e, v)
      | Inr path \<Rightarrow> (case v_fs v of None \<Rightarrow> (Inl Inval, v) | Some fs \<Rightarrow> body path fs))"

definition upd_fs :: "vfs \<Rightarrow> 'a io_result \<times> fs \<Rightarrow> 'a io_result \<times> vfs" where
  "upd_fs v r = (fst r, v\<lparr>v_fs := Some (snd r)\<rparr>)"

definition create_file :: "timespec \<Rightarrow> string \<Rightarrow> u8 list \<Rightarrow> u32 \<Rightarrow> vfs \<Rightarrow> unit io_result \<times> vfs" where
  "create_file t name data mode v = on_fs name v (\<lambda>path fs. upd_fs v (filesystem_create_file t path data mode fs))"

definition remove_dir :: "string \<Rightarrow> vfs \<Rightarrow> unit io_result \<times> vfs" where
  "remove_dir name v = on_fs name v (\<lambda>path fs. upd_fs v (filesystem_rmdir path fs))"

definition unlink :: "string \<Rightarrow> vfs \<Rightarrow> unit io_result \<times> vfs" where
  "unlink name v = on_fs name v (\<lambda>path fs. upd_fs v (filesystem_unlink path fs))"

definition create_dir :: "timespec \<Rightarrow> string \<Rightarrow> u32 \<Rightarrow> vfs \<Rightarrow> (unit io_result \<times> vfs) option" where
  "create_dir t name mode v =
     (case with_relative_filename (v_cwd v) name of
        Inl e \<Rightarrow> Some (Inl e, v)
      | Inr path \<Rightarrow>
          (case v_fs v of
             None \<Rightarrow> Some (Inl Inval, v)
           | Some fs \<Rightarrow> map_option (upd_fs v) (filesystem_mkdir t path (mode AND v_umask v) fs)))"

definition readdir :: "string \<Rightarrow> vfs \<Rightarrow> string list io_result" where
  "readdir name v = fst (on_fs name v (\<lambda>path fs. (filesystem_readdir path fs, v)))"

definition read_stat :: "string \<Rightarrow> vfs \<Rightarrow> file_attr io_result" where
  "read_stat name v = fst (on_fs name v (\<lambda>path fs. (filesystem_stat path fs, v)))"

definition read_lstat :: "string \<Rightarrow> vfs \<Rightarrow> file_attr io_result" where
  "read_lstat name v = fst (on_fs name v (\<lambda>path fs. (filesystem_lstat path fs, v)))"

definition truncate_name :: "timespec \<Rightarrow> string \<Rightarrow> nat \<Rightarrow> vfs \<Rightarrow> unit io_result \<times> vfs" where
  "truncate_name t name n v = on_fs name v (\<lambda>path fs.
     case filesystem_open t path O_TRUNC 0 fs of
       (Inl e, fs1) \<Rightarrow> (Inl Badf, v\<lparr>v_fs := Some fs1\<rparr>)
     | (Inr f, fs1) \<Rightarrow> upd_fs v (obj_truncate n f fs1))"

text \<open>The mask is combined with the mode by \<^verbatim>\<open>bitand\<close>.\<close>

definition vfs_open :: "timespec \<Rightarrow> string \<Rightarrow> u32 \<Rightarrow> u32 \<Rightarrow> vfs \<Rightarrow> raw_fd io_result \<times> vfs" where
  "vfs_open t name flags mode v = on_fs name v (\<lambda>path fs.
     case filesystem_open t path flags (mode AND v_umask v) fs of
       (Inl e, fs1) \<Rightarrow> (Inl e, v\<lparr>v_fs := Some fs1\<rparr>)
     | (Inr f, fs1) \<Rightarrow>
         let (fd, maps) = insert_object (v_maps v) (v_map v) f
         in (fd, v\<lparr>v_fs := Some fs1, v_maps := maps\<rparr>))"

definition get_cwd :: "vfs \<Rightarrow> string io_result" where
  "get_cwd v = (case v_cwd v of None \<Rightarrow> Inl Noent | Some dir \<Rightarrow> Inr dir)"

definition set_cwd :: "string \<Rightarrow> vfs \<Rightarrow> unit io_result \<times> vfs" where
  "set_cwd dir v =
     (if dir \<noteq> [] \<and> hd dir = CHR ''/'' then (Inr (), v\<lparr>v_cwd := Some dir\<rparr>)
      else case v_cwd v of
        None \<Rightarrow> (Inl Badf, v)
      | Some old \<Rightarrow> (Inr (), v\<lparr>v_cwd := Some (old @ ''/'' @ dir)\<rparr>))"

definition umask :: "u32 \<Rightarrow> vfs \<Rightarrow> u32 \<times> vfs" where
  "umask new_mask v = (v_umask v, v\<lparr>v_umask := new_mask\<rparr>)"

definition vfs_opendir :: "string \<Rightarrow> vfs \<Rightarrow> raw_fd io_result \<times> vfs" where
  "vfs_opendir name v =
     (case v_fs v of
        None \<Rightarrow> (Inl Inval, v)
      | Some fs \<Rightarrow>
          (case filesystem_opendir name fs of
             (Inl e, fs1) \<Rightarrow> (Inl e, v\<lparr>v_fs := Some fs1\<rparr>)
           | (Inr f, fs1) \<Rightarrow>
               let (fd, maps) = insert_object (v_maps v) (v_map v) f
               in (fd, v\<lparr>v_fs := Some fs1, v_maps := maps\<rparr>)))"

definition file_attributes :: "string \<Rightarrow> vfs \<Rightarrow> file_attr io_result" where
  "file_attributes path v = (case v_fs v of None \<Rightarrow> Inl Inval | Some fs \<Rightarrow> filesystem_lstat path fs)"

text \<open>\<open>Metadata\<close>.\<close>

definition metadata_is_file :: "file_attr \<Rightarrow> bool" where
  "metadata_is_file a = contains_flag (st_mode a) S_IFREG"

definition metadata_is_dir :: "file_attr \<Rightarrow> bool" where
  "metadata_is_dir a = contains_flag (st_mode a) S_IFDIR"

definition metadata_len :: "file_attr \<Rightarrow> nat option" where
  "metadata_len a = (if 0 \<le> st_size a then Some (nat (st_size a)) else None)"

text \<open>\<open>File::create\<close>, \<open>File::create_new\<close> and \<open>File::open\<close>.\<close>

definition File_create :: "timespec \<Rightarrow> string \<Rightarrow> vfs \<Rightarrow> raw_fd io_result \<times> vfs" where
  "File_create t path v = vfs_open t path (O_CREAT OR O_TRUNC OR 1) 0x1b6 v"

definition File_create_new :: "timespec \<Rightarrow> string \<Rightarrow> vfs \<Rightarrow> raw_fd io_result \<times> vfs" where
  "File_create_new t path v = vfs_open t path (O_CREAT OR O_EXCL OR 2) 0x1b6 v"

definition File_open :: "timespec \<Rightarrow> string \<Rightarrow> vfs \<Rightarrow> raw_fd io_result \<times> vfs" where
  "File_open t path v = vfs_open t path 2 0x1b6 v"

section \<open>Operations on descriptors\<close>

definition on_object :: "raw_fd \<Rightarrow> vfs \<Rightarrow> (fd_obj \<Rightarrow> fs \<Rightarrow> 'a io_result \<times> fs) \<Rightarrow> 'a io_result \<times> vfs" where
  "on_object fd v body =
     (case get_object (v_maps v) (v_map v) fd of
        Inl e \<Rightarrow> (Inl e, v)
      | Inr f \<Rightarrow> (case v_fs v of None \<Rightarrow> (Inl Nosys, v) | Some fs \<Rightarrow> upd_fs v (body f fs)))"

definition fd_read :: "timespec \<Rightarrow> devices \<Rightarrow> raw_fd \<Rightarrow> nat \<Rightarrow> vfs \<Rightarrow> u8 list io_result \<times> vfs" where
  "fd_read t dev fd n v = on_object fd v (\<lambda>f fs. if n = 0 then (Inr [], fs) else obj_read t dev n f fs)"

definition fd_write :: "timespec \<Rightarrow> devices \<Rightarrow> raw_fd \<Rightarrow> u8 list \<Rightarrow> vfs \<Rightarrow> nat io_result \<times> vfs" where
  "fd_write t dev fd buf v = on_object fd v (\<lambda>f fs. if buf = [] then (Inr 0, fs) else obj_write t dev buf f fs)"

definition fd_lseek :: "raw_fd \<Rightarrow> int \<Rightarrow> seek_whence \<Rightarrow> vfs \<Rightarrow> nat io_result \<times> vfs" where
  "fd_lseek fd offset whence v = on_object fd v (obj_lseek offset whence)"

definition fd_chmod :: "raw_fd \<Rightarrow> u32 \<Rightarrow> vfs \<Rightarrow> unit io_result \<times> vfs" where
  "fd_chmod fd mode v = on_object fd v (obj_chmod mode)"

definition fd_truncate :: "raw_fd \<Rightarrow> nat \<Rightarrow> vfs \<Rightarrow> unit io_result \<times> vfs" where
  "fd_truncate fd n v = on_object fd v (obj_truncate n)"

text \<open>The listing of a directory, as the system call \<open>sys_getdents64\<close> performs it.\<close>

definition sys_getdents64 :: "raw_fd \<Rightarrow> nat \<Rightarrow> vfs \<Rightarrow> (((nat \<times> string) list \<times> nat) io_result \<times> vfs) option" where
  "sys_getdents64 fd count v =
     (if count = 0 then Some (Inl Inval, v)
      else case get_object (v_maps v) (v_map v) fd of
        Inl e \<Rightarrow> Some (Inl Inval, v)
      | Inr f \<Rightarrow> (case v_fs v of None \<Rightarrow> Some (Inl Nosys, v) | Some fs \<Rightarrow> map_option (upd_fs v) (obj_getdents count f fs)))"

definition fd_isatty :: "raw_fd \<Rightarrow> vfs \<Rightarrow> bool io_result" where
  "fd_isatty fd v = fst (on_object fd v (\<lambda>f fs. (Inr (obj_isatty f fs), fs)))"

definition fd_fstat :: "raw_fd \<Rightarrow> vfs \<Rightarrow> file_attr io_result" where
  "fd_fstat fd v = fst (on_object fd v (\<lambda>f fs. (obj_fstat f fs, fs)))"

text \<open>One round of \<open>poll\<close>: descriptors that are not open or fail report no event; the call is pending while no
  descriptor reports one. \<open>poll_result\<close> is what the caller gets when the round that ends the wait has answered
  \<open>round\<close>, or when the time is over.\<close>

definition poll_revents :: "devices \<Rightarrow> vfs \<Rightarrow> raw_fd \<times> 16 word \<Rightarrow> 16 word" where
  "poll_revents dev v pfd =
     (case get_object (v_maps v) (v_map v) (fst pfd) of
        Inl e \<Rightarrow> 0
      | Inr f \<Rightarrow>
          (case v_fs v of
             None \<Rightarrow> 0
           | Some fs \<Rightarrow> (case obj_poll dev (snd pfd) f fs of Inl e \<Rightarrow> 0 | Inr e \<Rightarrow> e)))"

definition poll_fds :: "devices \<Rightarrow> (raw_fd \<times> 16 word) list \<Rightarrow> vfs \<Rightarrow> (nat \<times> 16 word list) option" where
  "poll_fds dev fds v =
     (let revents = map (poll_revents dev v) fds;
          counter = length (filter (\<lambda>e. e \<noteq> 0) revents)
      in if 0 < counter then Some (counter, revents) else None)"

definition poll_result :: "bool \<Rightarrow> nat io_result \<Rightarrow> nat io_result" where
  "poll_result has_timeout round =
     (case round of Inl e \<Rightarrow> if has_timeout \<and> e = Again then Inr 0 else Inl e | Inr n \<Rightarrow> Inr n)"

section \<open>Access checks\<close>

definition can_access :: "u32 \<Rightarrow> u32 \<Rightarrow> bool" where
  "can_access opt perm =
     (let has = contains_flag perm in
      \<not> (contains_flag opt 4 \<and> \<not> has 0x100 \<and> \<not> has 0x20 \<and> \<not> has 0x4) \<and>
      \<not> (contains_flag opt 2 \<and> \<not> has 0x80 \<and> \<not> has 0x10 \<and> \<not> has 0x2) \<and>
      \<not> (contains_flag opt 1 \<and> \<not> has 0x40 \<and> \<not> has 0x8 \<and> \<not> has 0x1))"

section \<open>Start of the system\<close>

text \<open>The file \<open>/proc/version\<close>; its text is written piece by piece, here at once, and the temporary
  \<open>File\<close> is closed when it is dropped.\<close>

definition write_version :: "timespec \<Rightarrow> devices \<Rightarrow> u8 list \<Rightarrow> vfs \<Rightarrow> vfs" where
  "write_version t dv version v =
     (case File_create t ''/proc/version'' v of
        (Inl e, v1) \<Rightarrow> v1
      | (Inr fd, v1) \<Rightarrow>
          let v2 = snd (fd_write t dv fd version v1)
          in v2\<lparr>v_maps := snd (remove_object (v_maps v2) (v_map v2) fd)\<rparr>)"

text \<open>\<open>init\<close> without the optional drivers: \<open>/tmp\<close>, \<open>/proc\<close> and \<open>/proc/version\<close> are created, the working directory
  is \<open>/tmp\<close>, and the device directory is mounted.\<close>

definition vfs_init :: "timespec \<Rightarrow> devices \<Rightarrow> u8 list \<Rightarrow> vfs \<Rightarrow> vfs option" where
  "vfs_init t dv version v = do {
     (r1, fs1) \<leftarrow> filesystem_mkdir t ''/tmp'' 0x1ff (filesystem_new t);
     guard (\<not> isl r1);
     (r2, fs2) \<leftarrow> filesystem_mkdir t ''/proc'' 0x1ff fs1;
     guard (\<not> isl r2);
     let v1 = (write_version t dv version (v\<lparr>v_fs := Some fs2\<rparr>))\<lparr>v_cwd := Some ''/tmp''\<rparr>;
     fs3 \<leftarrow> v_fs v1;
     let (dev, fs4) = add_inode Dev_Inode fs3;
     (r5, fs5) \<leftarrow> filesystem_mount ''/dev'' dev fs4;
     guard (\<not> isl r5);
     Some (v1\<lparr>v_fs := Some fs5\<rparr>)
   }"

end
