(* ===== verification/Dir_Tree.thy ===== *)
theory Dir_Tree
  imports Mem_Fs "HOL-Library.Sublist"
begin

text \<open>
  The names of the in-memory file system as a tree. A directory is a finite map (locale \<open>directory\<close>); a path is a
  list of names; every operation of \<^verbatim>\<open>src/fs/mem.rs\<close> that takes a path first walks to the parent of its last
  name (locale \<open>traversal\<close>). \<open>fs_ok\<close> is the invariant of the tree, and the lemmas on one changed entry say how
  the tree changes.
\<close>

section \<open>Directories as finite maps\<close>

text \<open>What the tree relies on of a directory: a lookup after an insertion and a removal.\<close>

locale directory =
  fixes get :: "'d \<Rightarrow> string \<Rightarrow> inum option"
    and ins :: "string \<Rightarrow> inum \<Rightarrow> 'd \<Rightarrow> 'd"
    and del :: "string \<Rightarrow> 'd \<Rightarrow> 'd"
    and ok :: "'d \<Rightarrow> bool"
  assumes get_ins: "ok d \<Longrightarrow> get (ins s n d) = (get d)(s \<mapsto> n)"
    and get_del: "ok d \<Longrightarrow> get (del s d) = (get d)(s := None)"
    and ok_ins: "ok d \<Longrightarrow> ok (ins s n d)"
    and ok_del: "ok d \<Longrightarrow> ok (del s d)"
begin

lemma del_ins: "ok d \<Longrightarrow> get d s = None \<Longrightarrow> get (del s (ins s n d)) = get d"
  by (simp add: get_del get_ins ok_ins fun_upd_idem)

lemma ins_ran: "ok d \<Longrightarrow> get (ins s n d) x = Some m \<Longrightarrow> m = n \<or> get d x = Some m"
  by (simp add: get_ins split: if_splits)

lemma del_ran: "ok d \<Longrightarrow> get (del s d) x = Some m \<Longrightarrow> get d x = Some m"
  by (simp add: get_del split: if_splits)

end

lemma sorted_key_split:
  assumes "dir_sorted es"
  shows "(\<forall>e \<in> set (takeWhile (\<lambda>e. fst e < s) es). fst e < s) \<and> (\<forall>e \<in> set (dropWhile (\<lambda>e. fst e \<le> s) es). s < fst e) \<and>
    (\<forall>e \<in> set es. fst e < s \<longrightarrow> e \<in> set (takeWhile (\<lambda>e. fst e < s) es)) \<and>
    (\<forall>e \<in> set es. s < fst e \<longrightarrow> e \<in> set (dropWhile (\<lambda>e. fst e \<le> s) es))"
  using assms
proof (induction es)
  case (Cons e es)
  then have less: "\<forall>x \<in> set es. fst e < fst x" and es: "dir_sorted es" by (auto simp: dir_sorted_def)
  from less have "fst e < s \<or> s \<le> fst e" "\<forall>x \<in> set es. s \<le> fst e \<longrightarrow> s < fst x" by auto
  with Cons.IH [OF es] less show ?case
    by (auto dest: set_takeWhileD split: if_splits)
qed simp

lemma dir_sorted_insert:
  assumes "dir_sorted es"
  shows "dir_sorted (dir_insert s n es)"
proof -
  let ?a = "takeWhile (\<lambda>e. fst e < s) es" and ?b = "dropWhile (\<lambda>e. fst e \<le> s) es"
  have "sorted_wrt (<) (map fst ?a)" "sorted_wrt (<) (map fst ?b)"
    using assms unfolding dir_sorted_def
    by (metis sorted_wrt_append takeWhile_dropWhile_id map_append)+
  moreover have "\<forall>x \<in> set ?a. fst x < s" "\<forall>x \<in> set ?b. s < fst x" using sorted_key_split [OF assms, of s] by auto
  ultimately show ?thesis
    unfolding dir_sorted_def dir_insert_def by (auto simp: sorted_wrt_append dest: less_trans)
qed

lemma dir_get_unique: "dir_sorted es \<Longrightarrow> dir_get es s = Some n \<longleftrightarrow> (s, n) \<in> set es"
  unfolding dir_get_def by (intro map_of_eq_Some_iff) (auto simp: dir_sorted_def strict_sorted_iff)

lemma dir_insert_set:
  assumes "dir_sorted es"
  shows "set (dir_insert s n es) = insert (s, n) {e \<in> set es. fst e \<noteq> s}"
  using sorted_key_split [OF assms, of s]
  by (auto simp: dir_insert_def dest: set_takeWhileD set_dropWhileD linorder_neqE)

interpretation dirs: directory dir_get dir_insert dir_remove dir_sorted
proof (unfold_locales, goal_cases)
  case (1 d s n)
  have "dir_get (dir_insert s n d) x = Some m \<longleftrightarrow> ((dir_get d)(s \<mapsto> n)) x = Some m" for x m
    using 1 by (auto simp: dir_get_unique dir_sorted_insert dir_insert_set)
  then show ?case by (metis option.exhaust ext)
next
  case (2 d s)
  have "dir_get (dir_remove s d) x = ((dir_get d)(s := None)) x" for x
    by (induction d) (auto simp: dir_get_def dir_remove_def)
  then show ?case by blast
next
  case 3
  then show ?case by (rule dir_sorted_insert)
next
  case 4
  then show ?case by (simp add: dir_sorted_def dir_remove_def sorted_wrt_map sorted_wrt_filter)
qed

section \<open>Paths as lists of names\<close>

function components :: "string \<Rightarrow> string list" where
  "components path = (case split_path path of (c, rest) \<Rightarrow> if rest = [] then [c] else c # components rest)"
  by auto
termination
  by (relation "measure length") (auto dest: split_path_length)

declare components.simps [simp del]

definition parent :: "string \<Rightarrow> string list" where
  "parent path = butlast (components path)"

definition leaf :: "string \<Rightarrow> string" where
  "leaf path = last (components path)"

lemma components_ne [simp]: "components path \<noteq> []"
  by (subst components.simps) (simp split: prod.splits)

lemma components_split: "components path = parent path @ [leaf path]"
  by (simp add: parent_def leaf_def)

lemma parent_leaf_step:
  assumes "split_path path = (c, rest)"
  shows "rest = [] \<Longrightarrow> parent path = [] \<and> leaf path = c"
    and "rest \<noteq> [] \<Longrightarrow> parent path = c # parent rest \<and> leaf path = leaf rest"
  using assms by (simp_all add: parent_def leaf_def components.simps [of path])

lemma split_path_no_slash: "CHR ''/'' \<notin> set s \<Longrightarrow> split_path s = (s, [])"
proof -
  have "CHR ''/'' \<notin> set s \<Longrightarrow> split_once s = None" by (induction s) auto
  then show "CHR ''/'' \<notin> set s \<Longrightarrow> split_path s = (s, [])" by (simp add: split_path_def)
qed

lemma split_once_no_slash: "split_once s = Some (c, r) \<Longrightarrow> CHR ''/'' \<notin> set c"
  by (induction s arbitrary: c) (auto split: if_splits option.splits)

lemma split_once_None: "split_once s = None \<Longrightarrow> CHR ''/'' \<notin> set s"
  by (induction s) (auto split: if_splits option.splits)

lemma split_path_fst: "split_path s = (c, r) \<Longrightarrow> CHR ''/'' \<notin> set c"
  by (auto simp: split_path_def split_once_None split: option.splits dest: split_once_no_slash)

lemma components_no_slash: "c \<in> set (components path) \<Longrightarrow> CHR ''/'' \<notin> set c"
proof (induction path rule: components.induct)
  case (1 path)
  obtain a r where a: "split_path path = (a, r)" by (cases "split_path path")
  with 1 split_path_fst [OF a] show ?case
    by (auto simp: components.simps [of path] split: if_splits)
qed

lemma split_path_leaf [simp]: "split_path (leaf path) = (leaf path, [])"
  by (intro split_path_no_slash components_no_slash [of _ path]) (simp add: leaf_def)

section \<open>The tree of names\<close>

definition entry :: "fs \<Rightarrow> inum \<Rightarrow> string \<Rightarrow> inum option" where
  "entry fs d s = (case fs_inodes fs d of Dir_Inode es _ \<Rightarrow> dir_get es s | _ \<Rightarrow> None)"

fun walk :: "fs \<Rightarrow> inum \<Rightarrow> string list \<Rightarrow> inum option" where
  "walk fs d [] = Some d"
| "walk fs d (c # cs) = (case entry fs d c of None \<Rightarrow> None | Some n \<Rightarrow> walk fs n cs)"

lemma walk_append: "walk fs d (cs @ cs') = (case walk fs d cs of None \<Rightarrow> None | Some n \<Rightarrow> walk fs n cs')"
  by (induction cs arbitrary: d) (auto split: option.splits)

lemma walk_snoc: "walk fs d (cs @ [c]) = (case walk fs d cs of None \<Rightarrow> None | Some n \<Rightarrow> entry fs n c)"
  by (auto simp: walk_append split: option.splits)

text \<open>An operation that descends through directories by the components of a path ends at the parent of its
  last component, whatever the operation does there.\<close>

locale traversal =
  fixes trav :: "inum \<Rightarrow> string \<Rightarrow> fs \<Rightarrow> 'r"
  assumes descend: "fs_inodes fs d = Dir_Inode es attr \<Longrightarrow> split_path path = (c, rest) \<Longrightarrow> rest \<noteq> [] \<Longrightarrow>
      dir_get es c = Some n \<Longrightarrow> get_kind (fs_inodes fs n) = Directory_Kind \<Longrightarrow> trav d path fs = trav n rest fs"
    and last_component: "fs_inodes fs d = Dir_Inode es attr \<Longrightarrow> split_path path = (c, []) \<Longrightarrow> trav d path fs = trav d c fs"
begin

lemma at_parent:
  assumes "walk fs d (parent path) = Some p" and "fs_inodes fs p = Dir_Inode es attr"
  shows "trav d path fs = trav p (leaf path) fs"
  using assms(1)
proof (induction path arbitrary: d rule: components.induct)
  case (1 path)
  obtain c rest where s: "split_path path = (c, rest)" by (cases "split_path path")
  show ?case
  proof (cases "rest = []")
    case True
    with parent_leaf_step(1) [OF s] "1.prems" assms(2) last_component [of fs d es attr path c] s show ?thesis by simp
  next
    case False
    note pl = parent_leaf_step(2) [OF s False]
    with "1.prems" obtain n where n: "entry fs d c = Some n" "walk fs n (parent rest) = Some p"
      by (auto split: option.splits)
    then obtain es' attr' where d: "fs_inodes fs d = Dir_Inode es' attr'" "dir_get es' c = Some n"
      by (auto simp: entry_def split: inode.splits)
    have "get_kind (fs_inodes fs n) = Directory_Kind"
      using n(2) assms(2) by (cases "parent rest") (auto simp: get_kind_def entry_def split: inode.splits option.splits)
    from descend [OF d(1) s False d(2) this] "1.IH" [OF s [symmetric] False n(2)] pl show ?thesis by simp
  qed
qed

end

lemma split_path_again: "split_path path = (c, r) \<Longrightarrow> split_path c = (c, [])"
  by (intro split_path_no_slash split_path_fst)

interpretation t_open: traversal "traverse_open t opt mode" for t opt mode
  by unfold_locales (simp_all add: traverse_open.simps split_path_again)

interpretation t_unlink: traversal traverse_unlink
  by unfold_locales (simp_all add: traverse_unlink.simps split_path_again)

interpretation t_rmdir: traversal traverse_rmdir
  by unfold_locales (simp_all add: traverse_rmdir.simps split_path_again)

interpretation t_stat: traversal traverse_stat
  by unfold_locales (simp_all add: traverse_stat.simps split_path_again)

interpretation t_create: traversal "traverse_create_file t data mode" for t data mode
  by unfold_locales (simp_all add: traverse_create_file.simps split_path_again)

interpretation t_mkdir: traversal "traverse_mkdir t mode" for t mode
  by unfold_locales (simp_all add: traverse_mkdir.simps split_path_again)

interpretation t_mount: traversal "traverse_mount obj" for obj
  by unfold_locales (simp_all add: traverse_mount.simps split_path_again)

section \<open>Well-formed file systems\<close>

text \<open>Inode numbers grow from a directory to its entries and no inode has two names, so the names form a tree
  rooted at inode 0. The size of a file is the number of its bytes.\<close>

definition inode_ok :: "inum \<Rightarrow> inum \<Rightarrow> inode \<Rightarrow> bool" where
  "inode_ok next i node =
     (case node of
        Rom_Inode data attr \<Rightarrow> st_size attr = int (length data)
      | Ram_Inode data attr \<Rightarrow> st_size attr = int (length data)
      | Dir_Inode es attr \<Rightarrow> i < next \<and> dir_sorted es \<and> (\<forall>(s, n) \<in> set es. i < n \<and> n < next)
      | Dev_Inode \<Rightarrow> True)"

fun same_kind :: "inode \<Rightarrow> inode \<Rightarrow> bool" where
  "same_kind (Rom_Inode _ _) (Rom_Inode _ _) = True"
| "same_kind (Ram_Inode _ _) (Ram_Inode _ _) = True"
| "same_kind (Dir_Inode _ _) (Dir_Inode _ _) = True"
| "same_kind Dev_Inode Dev_Inode = True"
| "same_kind _ _ = False"

definition file_ok :: "fs \<Rightarrow> open_file \<Rightarrow> bool" where
  "file_ok fs f =
     (case f of
        Rom_Open _ i \<Rightarrow> i < fs_next fs \<and> (\<exists>data attr. fs_inodes fs i = Rom_Inode data attr)
      | Ram_Open _ i \<Rightarrow> i < fs_next fs \<and> (\<exists>data attr. fs_inodes fs i = Ram_Inode data attr)
      | Dir_Open _ i \<Rightarrow> i < fs_next fs \<and> (\<exists>es attr. fs_inodes fs i = Dir_Inode es attr)
      | _ \<Rightarrow> True)"

definition fs_ok :: "fs \<Rightarrow> bool" where
  "fs_ok fs \<longleftrightarrow>
     (\<exists>es attr. fs_inodes fs 0 = Dir_Inode es attr) \<and> (\<forall>i. inode_ok (fs_next fs) i (fs_inodes fs i)) \<and>
     (\<forall>f. file_ok fs (fs_files fs f)) \<and>
     (\<forall>d s d' s' n. entry fs d s = Some n \<and> entry fs d' s' = Some n \<longrightarrow> d = d' \<and> s = s')"

lemma fs_okD:
  assumes "fs_ok fs"
  shows "inode_ok (fs_next fs) i (fs_inodes fs i)" and "file_ok fs (fs_files fs f)"
    and "entry fs d s = Some n \<Longrightarrow> entry fs d' s' = Some n \<Longrightarrow> d = d' \<and> s = s'"
    and "fs_inodes fs d = Dir_Inode es attr \<Longrightarrow> dir_sorted es \<and> d < fs_next fs"
    and "entry fs d s = Some n \<Longrightarrow> d < n \<and> n < fs_next fs"
proof -
  show ok: "inode_ok (fs_next fs) i (fs_inodes fs i)" and "file_ok fs (fs_files fs f)"
    and "entry fs d s = Some n \<Longrightarrow> entry fs d' s' = Some n \<Longrightarrow> d = d' \<and> s = s'" for i
    using assms unfolding fs_ok_def by blast+
  show "fs_inodes fs d = Dir_Inode es attr \<Longrightarrow> dir_sorted es \<and> d < fs_next fs"
    using ok [of d] by (simp add: inode_ok_def)
  show "entry fs d s = Some n \<Longrightarrow> d < n \<and> n < fs_next fs"
    using ok [of d] by (auto simp: entry_def inode_ok_def dir_get_unique split: inode.splits)
qed

lemma same_kindE:
  assumes "same_kind a b"
  obtains data attr data' attr' where "a = Rom_Inode data attr" "b = Rom_Inode data' attr'"
  | data attr data' attr' where "a = Ram_Inode data attr" "b = Ram_Inode data' attr'"
  | es attr es' attr' where "a = Dir_Inode es attr" "b = Dir_Inode es' attr'"
  | "a = Dev_Inode" "b = Dev_Inode"
  using assms that by (cases a; cases b) auto

text \<open>Replacing an inode by one of its kind keeps every open file; the tree only changes through the entries
  of that inode.\<close>

lemma entry_set_inode: "entry (set_inode i node fs) d = (if d = i then (\<lambda>s. case node of Dir_Inode es _ \<Rightarrow> dir_get es s | _ \<Rightarrow> None) else entry fs d)"
  by (auto simp: entry_def set_inode_def fun_eq_iff)

lemma fs_ok_set_inode:
  assumes ok: "fs_ok fs" and kind: "same_kind (fs_inodes fs i) node" and node: "inode_ok (fs_next fs) i node"
    and tree: "\<And>s n. entry (set_inode i node fs) i s = Some n \<Longrightarrow> entry fs i s = Some n \<or>
      (\<forall>d s'. entry fs d s' \<noteq> Some n) \<and> (\<forall>s'. entry (set_inode i node fs) i s' = Some n \<longrightarrow> s' = s)"
  shows "fs_ok (set_inode i node fs)"
proof -
  let ?fs = "set_inode i node fs"
  have inodes: "fs_inodes ?fs = (fs_inodes fs)(i := node)" "fs_next ?fs = fs_next fs" "fs_files ?fs = fs_files fs"
    by (simp_all add: set_inode_def)
  have same: "entry ?fs d = entry fs d" if "d \<noteq> i" for d using that by (simp add: entry_set_inode)
  have "\<exists>es attr. fs_inodes ?fs 0 = Dir_Inode es attr"
    using ok kind by (auto simp: fs_ok_def inodes elim: same_kindE)
  moreover have "inode_ok (fs_next ?fs) j (fs_inodes ?fs j)" for j
    using node fs_okD(1) [OF ok, of j] by (simp add: inodes)
  moreover have "file_ok ?fs (fs_files ?fs f)" for f
    using fs_okD(2) [OF ok, of f] kind
    by (auto simp: file_ok_def inodes elim: same_kindE split: open_file.splits)
  moreover have "d = d' \<and> s = s'" if e: "entry ?fs d s = Some n" "entry ?fs d' s' = Some n" for d s d' s' n
    using e tree [of s n] tree [of s' n] same fs_okD(3) [OF ok, of d s n d' s']
    by (metis fs_okD(3) [OF ok])
  ultimately show ?thesis unfolding fs_ok_def by blast
qed

lemma fs_ok_set_contents:
  assumes "fs_ok fs" and "same_kind (fs_inodes fs i) node" and "inode_ok (fs_next fs) i node"
    and "get_kind node = File_Kind"
  shows "fs_ok (set_inode i node fs)" and "walk (set_inode i node fs) = walk fs"
proof -
  have none: "entry (set_inode i node fs) i s = None" "entry fs i s = None" for s
    using assms(2,4) by (auto simp: entry_set_inode entry_def get_kind_def elim: same_kindE)
  then show "fs_ok (set_inode i node fs)" by (intro fs_ok_set_inode assms) simp
  have "entry (set_inode i node fs) = entry fs"
    using none by (auto simp: fun_eq_iff entry_set_inode)
  then have "walk (set_inode i node fs) d cs = walk fs d cs" for d cs
    by (induction cs arbitrary: d) (auto split: option.splits)
  then show "walk (set_inode i node fs) = walk fs" by blast
qed

lemma file_ok_cong: "fs_next fs' = fs_next fs \<Longrightarrow> fs_inodes fs' = fs_inodes fs \<Longrightarrow> file_ok fs' f = file_ok fs f"
  by (cases f) (simp_all add: file_ok_def)

lemma entry_cong: "fs_inodes fs' = fs_inodes fs \<Longrightarrow> entry fs' = entry fs"
  by (simp add: entry_def fun_eq_iff)

lemma fs_ok_files:
  assumes "fs_ok fs" and "fs_inodes fs' = fs_inodes fs" and "fs_next fs' = fs_next fs"
    and "fs_files fs' = (fs_files fs)(n := f)" and "file_ok fs f"
  shows "fs_ok fs'"
  using assms file_ok_cong [OF assms(3,2)] entry_cong [OF assms(2)] by (simp add: fs_ok_def)

lemma fs_ok_set_file: "fs_ok fs \<Longrightarrow> file_ok fs f \<Longrightarrow> fs_ok (set_file n f fs)"
  by (rule fs_ok_files [of fs _ n f]) (simp_all add: set_file_def)

lemma fs_ok_add_file: "fs_ok fs \<Longrightarrow> file_ok fs f \<Longrightarrow> fs_ok (snd (add_file f fs))"
  by (rule fs_ok_files [of fs _ "fs_next_file fs" f]) (simp_all add: add_file_def)

lemma fs_ok_add_inode:
  assumes ok: "fs_ok fs" and node: "inode_ok (Suc (fs_next fs)) (fs_next fs) node"
    and empty: "\<forall>es attr. node = Dir_Inode es attr \<longrightarrow> es = []"
  shows "fs_ok (snd (add_inode node fs))" and "entry (snd (add_inode node fs)) = entry fs"
    and "entry fs d s \<noteq> Some (fs_next fs)"
proof -
  let ?fs = "snd (add_inode node fs)"
  have new: "fs_inodes ?fs = (fs_inodes fs)(fs_next fs := node)" "fs_next ?fs = Suc (fs_next fs)" "fs_files ?fs = fs_files fs"
    by (simp_all add: add_inode_def)
  have "entry fs (fs_next fs) s = None" for s
    using fs_okD(4) [OF ok, of "fs_next fs"] by (auto simp: entry_def split: inode.splits)
  then have "entry ?fs d s = entry fs d s" for d s
    using empty by (auto simp: entry_def new dir_get_def split: inode.splits)
  then show e: "entry ?fs = entry fs" by blast
  have old: "fs_inodes ?fs i = fs_inodes fs i" if "i < fs_next fs" for i using that by (simp add: new)
  have "0 < fs_next fs" using ok fs_okD(4) [OF ok, of 0] unfolding fs_ok_def by blast
  with ok have "\<exists>es attr. fs_inodes ?fs 0 = Dir_Inode es attr" by (auto simp: fs_ok_def new)
  moreover have "inode_ok (fs_next ?fs) i (fs_inodes ?fs i)" for i
    using node fs_okD(1) [OF ok, of i] by (auto simp: inode_ok_def new less_SucI split: inode.splits)
  moreover have "file_ok ?fs (fs_files ?fs f)" for f
    using fs_okD(2) [OF ok, of f] by (auto simp: file_ok_def new split: open_file.splits)
  ultimately show "fs_ok ?fs" using fs_okD(3) [OF ok] unfolding fs_ok_def e by blast
  show "entry fs d s \<noteq> Some (fs_next fs)" using fs_okD(5) [OF ok, of d s] by auto
qed

section \<open>Changing one entry\<close>

lemma entry_set_dir: "entry (set_inode d (Dir_Inode es attr) fs) = (entry fs)(d := dir_get es)"
  by (auto simp: entry_set_inode fun_eq_iff)

lemma entry_dir: "fs_inodes fs d = Dir_Inode es attr \<Longrightarrow> entry fs d = dir_get es"
  by (simp add: entry_def fun_eq_iff)

lemma fs_ok_insert:
  assumes ok: "fs_ok fs" and d: "fs_inodes fs d = Dir_Inode es attr" and n: "d < n" "n < fs_next fs"
    and new: "\<And>d s. entry fs d s \<noteq> Some n"
  shows "fs_ok (set_inode d (Dir_Inode (dir_insert c n es) attr) fs)"
    and "entry (set_inode d (Dir_Inode (dir_insert c n es) attr) fs) = (entry fs)(d := (entry fs d)(c \<mapsto> n))"
proof -
  let ?node = "Dir_Inode (dir_insert c n es) attr"
  have es: "dir_sorted es" "d < fs_next fs" using fs_okD(4) [OF ok d] by auto
  show e: "entry (set_inode d ?node fs) = (entry fs)(d := (entry fs d)(c \<mapsto> n))"
    using es by (simp add: entry_set_dir dirs.get_ins entry_dir [OF d])
  have "inode_ok (fs_next fs) d ?node"
    using fs_okD(1) [OF ok, of d] n d es
    by (auto simp: inode_ok_def dir_insert_set dirs.ok_ins)
  then show "fs_ok (set_inode d ?node fs)"
    using d new by (intro fs_ok_set_inode ok) (auto simp: e split: if_splits)
qed

lemma fs_ok_remove:
  assumes ok: "fs_ok fs" and d: "fs_inodes fs d = Dir_Inode es attr"
  shows "fs_ok (set_inode d (Dir_Inode (dir_remove c es) attr) fs)"
    and "entry (set_inode d (Dir_Inode (dir_remove c es) attr) fs) = (entry fs)(d := (entry fs d)(c := None))"
proof -
  let ?node = "Dir_Inode (dir_remove c es) attr"
  have es: "dir_sorted es" using fs_okD(4) [OF ok d] by auto
  show e: "entry (set_inode d ?node fs) = (entry fs)(d := (entry fs d)(c := None))"
    using es by (simp add: entry_set_dir dirs.get_del entry_dir [OF d])
  have "inode_ok (fs_next fs) d ?node"
    using fs_okD(1) [OF ok, of d] d es
    by (auto simp: inode_ok_def dirs.ok_del) (auto simp: dir_remove_def)
  then show "fs_ok (set_inode d ?node fs)"
    using d by (intro fs_ok_set_inode ok) (auto simp: e split: if_splits)
qed

lemma walk_inj:
  assumes ok: "fs_ok fs"
  shows "walk fs 0 a = Some m \<Longrightarrow> walk fs 0 b = Some m \<Longrightarrow> a = b"
proof (induction a arbitrary: b m rule: rev_induct)
  case Nil
  then show ?case
    by (cases b rule: rev_cases) (auto simp: walk_snoc dest: fs_okD(5) [OF ok] split: option.splits)
next
  case (snoc x xs)
  then obtain d where d: "walk fs 0 xs = Some d" "entry fs d x = Some m"
    by (auto simp: walk_snoc split: option.splits)
  from fs_okD(5) [OF ok this(2)] snoc.prems(2) obtain ys y where b: "b = ys @ [y]"
    by (cases b rule: rev_cases) auto
  with snoc.prems(2) obtain d' where d': "walk fs 0 ys = Some d'" "entry fs d' y = Some m"
    by (auto simp: walk_snoc split: option.splits)
  with fs_okD(3) [OF ok d(2) d'(2)] snoc.IH [OF d(1)] b show ?case by auto
qed

lemma walk_insert:
  assumes ok: "fs_ok fs" and p: "walk fs 0 p = Some d" and none: "entry fs d c = None"
    and e: "entry fs' = (entry fs)(d := (entry fs d)(c \<mapsto> n))" and n: "d \<noteq> n" "\<And>s. entry fs n s = None"
  shows "walk fs' 0 = (walk fs 0)(p @ [c] \<mapsto> n)"
proof
  fix cs
  show "walk fs' 0 cs = ((walk fs 0)(p @ [c] \<mapsto> n)) cs"
  proof (induction cs rule: rev_induct)
    case (snoc x xs)
    show ?case
    proof (cases "xs = p @ [c]")
      case True
      with snoc have "walk fs' 0 xs = Some n" by simp
      with n have "walk fs' 0 (xs @ [x]) = None" by (simp add: walk_snoc e)
      moreover have "walk fs 0 (xs @ [x]) = None" using True p none by (simp add: walk_append)
      ultimately show ?thesis using True by simp
    next
      case False
      with snoc have xs: "walk fs' 0 xs = walk fs 0 xs" by simp
      show ?thesis
      proof (cases "walk fs 0 xs = Some d")
        case True
        with walk_inj [OF ok True p] xs show ?thesis by (simp add: walk_snoc e)
      next
        case False
        with p have "xs \<noteq> p" by auto
        with False xs show ?thesis by (auto simp: walk_snoc e split: option.splits)
      qed
    qed
  qed simp
qed

lemma walk_remove:
  assumes ok: "fs_ok fs" and p: "walk fs 0 p = Some d"
    and e: "entry fs' = (entry fs)(d := (entry fs d)(c := None))"
  shows "walk fs' 0 cs = (if prefix (p @ [c]) cs then None else walk fs 0 cs)"
proof (induction cs rule: rev_induct)
  case (snoc x xs)
  show ?case
  proof (cases "prefix (p @ [c]) xs")
    case True
    with snoc show ?thesis by (simp add: walk_snoc prefix_snoc)
  next
    case False
    with snoc have xs: "walk fs' 0 xs = walk fs 0 xs" by simp
    show ?thesis
    proof (cases "walk fs 0 xs = Some d")
      case True
      with walk_inj [OF ok True p] xs False show ?thesis by (auto simp: walk_snoc e prefix_snoc)
    next
      case ne: False
      with p have "xs \<noteq> p" by auto
      with ne xs False show ?thesis by (auto simp: walk_snoc e prefix_snoc split: option.splits)
    qed
  qed
qed simp

lemma walk_below_file:
  assumes "walk fs 0 p = Some n" and "\<And>s. entry fs n s = None" and "prefix p cs" and "cs \<noteq> p"
  shows "walk fs 0 cs = None"
proof -
  obtain r where "cs = p @ r" using assms(3) by (auto simp: prefix_def)
  with assms show ?thesis by (cases r) (auto simp: walk_append)
qed

end
