(* ===== verification/Fs_Steps.thy ===== *)
theory Fs_Steps
  imports Dir_Tree
begin

text \<open>
  Every operation of the in-memory file system keeps the tree of names, the kinds and sizes of files and the open
  files consistent, \<open>mkdir\<close> and \<open>mount\<close> end, and what is written to a file is read back.
\<close>

section \<open>Creating and removing names\<close>

text \<open>A new inode, entered into a directory: the common end of \<open>open\<close>, \<open>mkdir\<close> and \<open>create_file\<close>.\<close>

definition link_new :: "inode \<Rightarrow> string \<Rightarrow> inum \<Rightarrow> (string \<times> inum) list \<Rightarrow> file_attr \<Rightarrow> fs \<Rightarrow> fs" where
  "link_new node c d es attr fs =
     set_inode d (Dir_Inode (dir_insert c (fs_next fs) es) attr) (snd (add_inode node fs))"

lemma link_new_simps [simp]:
  "fs_files (link_new node c d es attr fs) = fs_files fs"
  "fs_next_file (link_new node c d es attr fs) = fs_next_file fs"
  "fs_next (link_new node c d es attr fs) = Suc (fs_next fs)"
  "fs_inodes (link_new node c d es attr fs) =
     (fs_inodes fs)(fs_next fs := node, d := Dir_Inode (dir_insert c (fs_next fs) es) attr)"
  by (simp_all add: link_new_def set_inode_def add_inode_def)

lemma link_new_ok:
  assumes ok: "fs_ok fs" and d: "fs_inodes fs d = Dir_Inode es attr"
    and node: "inode_ok (Suc (fs_next fs)) (fs_next fs) node" "\<forall>es attr. node = Dir_Inode es attr \<longrightarrow> es = []"
  shows "fs_ok (link_new node c d es attr fs)"
    and "entry (link_new node c d es attr fs) = (entry fs)(d := (entry fs d)(c \<mapsto> fs_next fs))"
    and "d < fs_next fs"
proof -
  note add = fs_ok_add_inode [OF ok node]
  let ?fs = "snd (add_inode node fs)"
  show lt: "d < fs_next fs" using fs_okD(4) [OF ok d] by simp
  then have "fs_inodes ?fs d = Dir_Inode es attr" "fs_next fs < fs_next ?fs" by (simp_all add: add_inode_def d)
  from fs_ok_insert [OF add(1) this(1) lt this(2), of c] add(2,3)
  show "fs_ok (link_new node c d es attr fs)"
    and "entry (link_new node c d es attr fs) = (entry fs)(d := (entry fs d)(c \<mapsto> fs_next fs))"
    by (simp_all add: link_new_def)
qed

lemma new_nodes_ok [simp]:
  "inode_ok (Suc n) n (ram_file_new t mode)" "inode_ok (Suc n) n (rom_file_new t data mode)"
  "inode_ok (Suc n) n (mem_directory_new t mode)" "inode_ok (Suc n) n Dev_Inode"
  "\<forall>es attr. ram_file_new t mode = Dir_Inode es attr \<longrightarrow> es = []"
  "\<forall>es attr. rom_file_new t data mode = Dir_Inode es attr \<longrightarrow> es = []"
  "\<forall>es attr. mem_directory_new t mode = Dir_Inode es attr \<longrightarrow> es = []"
  by (simp_all add: ram_file_new_def rom_file_new_def mem_directory_new_def inode_ok_def dir_sorted_def
      file_attr_default_def)

lemma open_created_ok:
  assumes "fs_ok fs" and "fs_inodes fs d = Dir_Inode es attr"
  shows "fs_ok (snd (add_file (Ram_Open 0 (fs_next fs)) (link_new (ram_file_new t mode) c d es attr fs)))"
proof (rule fs_ok_add_file)
  show "fs_ok (link_new (ram_file_new t mode) c d es attr fs)" by (rule link_new_ok(1) [OF assms new_nodes_ok(1,5)])
  show "file_ok (link_new (ram_file_new t mode) c d es attr fs) (Ram_Open 0 (fs_next fs))"
    using link_new_ok(3) [OF assms new_nodes_ok(1,5)]
    by (auto simp: file_ok_def ram_file_new_def)
qed

lemma node_get_object_ok:
  assumes "fs_ok fs" and "n < fs_next fs"
  shows "fs_ok (snd (node_get_object n fs))"
proof (cases "fs_inodes fs n")
  case (Rom_Inode data attr)
  then show ?thesis using assms fs_ok_add_file [of fs "Rom_Open 0 n"] by (simp add: node_get_object_def file_ok_def)
next
  case (Ram_Inode data attr)
  then show ?thesis using assms fs_ok_add_file [of fs "Ram_Open 0 n"] by (simp add: node_get_object_def file_ok_def)
next
  case (Dir_Inode es attr)
  then show ?thesis using assms fs_ok_add_file [of fs "Dir_Open 0 n"] by (simp add: node_get_object_def file_ok_def)
next
  case Dev_Inode
  then show ?thesis using assms by (simp add: node_get_object_def)
qed

text \<open>The new object of an \<open>open\<close> is the next one; nothing else about open files changes.\<close>

definition opens :: "fs \<Rightarrow> fd_obj io_result \<times> fs \<Rightarrow> bool" where
  "opens fs r \<longleftrightarrow>
     (case r of
        (Inl e, fs') \<Rightarrow> fs' = fs
      | (Inr f, fs') \<Rightarrow> fs_ok fs' \<and> f = fs_next_file fs \<and> fs_next_file fs' = Suc f \<and>
          (\<forall>g. g \<noteq> f \<longrightarrow> fs_files fs' g = fs_files fs g))"

lemma opens_add_file: "fs_ok (snd (add_file f fs')) \<Longrightarrow> fs_files fs' = fs_files fs \<Longrightarrow> fs_next_file fs' = fs_next_file fs \<Longrightarrow>
    opens fs (map_prod Inr id (add_file f fs'))"
  by (simp add: opens_def add_file_def)

lemma node_get_object_opens: "fs_ok fs \<Longrightarrow> n < fs_next fs \<Longrightarrow> opens fs (node_get_object n fs)"
  using node_get_object_ok [of fs n]
  by (auto simp: node_get_object_def opens_def add_file_def split: inode.splits)

lemma traverse_open_leaf:
  assumes "fs_inodes fs d = Dir_Inode es attr" and "split_path path = (c, [])"
  shows "traverse_open t opt mode d path fs =
    (case dir_get es c of
       None \<Rightarrow> if contains_flag opt O_CREAT
         then map_prod Inr id (add_file (Ram_Open 0 (fs_next fs)) (link_new (ram_file_new t mode) c d es attr fs))
         else (Inl Noent, fs)
     | Some n \<Rightarrow> if contains_flag opt O_DIRECTORY \<and> get_kind (fs_inodes fs n) \<noteq> Directory_Kind then (Inl Notdir, fs)
         else node_get_object n fs)"
  using assms node_kind.exhaust [of "get_kind (fs_inodes fs x)" for x]
  by (subst traverse_open.simps) (auto simp: Let_def link_new_def add_inode_def split: option.splits prod.splits)

lemma traverse_open_opens:
  assumes "fs_ok fs"
  shows "opens fs (traverse_open t opt mode d path fs)"
  using assms
proof (induction t opt mode d path fs rule: traverse_open.induct)
  case (1 t opt mode d path fs)
  show ?case
  proof (cases "fs_inodes fs d")
    case d: (Dir_Inode es attr)
    obtain c rest where s: "split_path path = (c, rest)" by (cases "split_path path")
    have lt: "n < fs_next fs" if "dir_get es c = Some n" for n
      using fs_okD(5) [OF "1.prems", of d c n] that d by (simp add: entry_dir)
    show ?thesis
    proof (cases "rest = []")
      case True
      with d s lt "1.prems" open_created_ok [OF "1.prems" d] show ?thesis
        by (subst traverse_open_leaf [OF d])
          (auto simp: opens_def [of fs "(Inl _, _)"] split: option.splits intro!: opens_add_file node_get_object_opens)
    next
      case False
      with 1 d s show ?thesis
        by (subst traverse_open.simps) (auto simp: opens_def [of fs "(Inl _, _)"] split: option.splits)
    qed
  next
    case Dev_Inode
    then show ?thesis using "1.prems" fs_ok_add_file [OF "1.prems", of Random_Open]
      by (subst traverse_open.simps) (auto simp: file_ok_def opens_def [of fs "(Inl _, _)"] intro!: opens_add_file)
  qed (subst traverse_open.simps, simp add: opens_def)+
qed

text \<open>The other operations keep the set of open objects.\<close>

definition keeps :: "fs \<Rightarrow> fs \<Rightarrow> bool" where
  "keeps fs fs' \<longleftrightarrow> fs_ok fs' \<and> fs_next_file fs' = fs_next_file fs"

lemma keeps_set_dir_remove: "fs_ok fs \<Longrightarrow> fs_inodes fs d = Dir_Inode es attr \<Longrightarrow>
    keeps fs (set_inode d (Dir_Inode (dir_remove c es) attr) fs)"
  by (simp add: keeps_def fs_ok_remove) (simp add: set_inode_def)

lemma keeps_refl: "fs_ok fs \<Longrightarrow> keeps fs fs"
  by (simp add: keeps_def)

lemma keeps_trans: "keeps fs fs1 \<Longrightarrow> keeps fs1 fs2 \<Longrightarrow> keeps fs fs2"
  by (simp add: keeps_def)

lemma keeps_link_new:
  assumes "fs_ok fs" and "fs_inodes fs d = Dir_Inode es attr"
  shows "keeps fs (link_new (rom_file_new t data mode) c d es attr fs)"
    and "keeps fs (link_new (mem_directory_new t mode) c d es attr fs)"
  using link_new_ok(1) [OF assms new_nodes_ok(2,6)] link_new_ok(1) [OF assms new_nodes_ok(3,7)]
  by (simp_all add: keeps_def)

lemma traverse_unlink_keeps: "fs_ok fs \<Longrightarrow> keeps fs (snd (traverse_unlink d path fs))"
proof (induction d path fs rule: traverse_unlink.induct)
  case (1 d path fs)
  then show ?case
    by (subst traverse_unlink.simps)
      (auto simp: keeps_refl keeps_set_dir_remove split: inode.splits prod.splits option.splits)
qed

lemma traverse_rmdir_keeps: "fs_ok fs \<Longrightarrow> keeps fs (snd (traverse_rmdir d path fs))"
proof (induction d path fs rule: traverse_rmdir.induct)
  case (1 d path fs)
  then show ?case
    by (subst traverse_rmdir.simps)
      (auto simp: keeps_refl keeps_set_dir_remove split: inode.splits prod.splits option.splits)
qed

lemma traverse_create_file_keeps: "fs_ok fs \<Longrightarrow> keeps fs (snd (traverse_create_file t data mode d path fs))"
proof (induction t data mode d path fs rule: traverse_create_file.induct)
  case (1 t data mode d path fs)
  then show ?case
    using keeps_link_new(1) [OF "1.prems", of d]
    by (subst traverse_create_file.simps)
      (auto simp: keeps_refl link_new_def add_inode_def split: inode.splits prod.splits option.splits)
qed

text \<open>The recursion of \<open>mkdir\<close> and \<open>mount\<close> does not consume the path, but it ends, since inode numbers grow.\<close>

lemma traverse_mkdir_keeps:
  assumes "fs_ok fs"
  shows "\<exists>r fs'. traverse_mkdir t mode d path fs = Some (r, fs') \<and> keeps fs fs'"
proof (induction "fs_next fs - d" arbitrary: d path rule: less_induct)
  case less
  show ?case
  proof (cases "fs_inodes fs d")
    case d: (Dir_Inode es attr)
    obtain c rest where s: "split_path path = (c, rest)" by (cases "split_path path")
    show ?thesis
    proof (cases "dir_get es c")
      case None
      with d s assms keeps_link_new(2) [OF assms d] show ?thesis
        by (subst traverse_mkdir.simps) (auto simp: keeps_refl link_new_def add_inode_def)
    next
      case (Some n)
      with d have "entry fs d c = Some n" by (simp add: entry_dir)
      from fs_okD(5) [OF assms this] less [of n rest] d s Some show ?thesis
        by (subst traverse_mkdir.simps) auto
    qed
  qed (subst traverse_mkdir.simps, simp add: keeps_refl assms)+
qed

lemma traverse_mount_keeps:
  assumes "fs_ok fs" and "obj < fs_next fs" and "\<And>d s. entry fs d s \<noteq> Some obj"
    and "\<And>d es attr. fs_inodes fs d = Dir_Inode es attr \<Longrightarrow> d < obj"
  shows "\<exists>r fs'. traverse_mount obj d path fs = Some (r, fs') \<and> keeps fs fs'"
proof (induction "fs_next fs - d" arbitrary: d path rule: less_induct)
  case less
  show ?case
  proof (cases "fs_inodes fs d")
    case d: (Dir_Inode es attr)
    obtain c rest where s: "split_path path = (c, rest)" by (cases "split_path path")
    show ?thesis
    proof (cases "dir_get es c")
      case None
      have "keeps fs (set_inode d (Dir_Inode (dir_insert c obj es) attr) fs)"
        using fs_ok_insert(1) [OF assms(1) d assms(4) [OF d] assms(2,3)]
        by (simp add: keeps_def) (simp add: set_inode_def)
      with None d s assms(1) show ?thesis
        by (subst traverse_mount.simps) (auto simp: keeps_refl)
    next
      case (Some n)
      with d have "entry fs d c = Some n" by (simp add: entry_dir)
      from fs_okD(5) [OF assms(1) this] less [of n rest] d s Some show ?thesis
        by (subst traverse_mount.simps) auto
    qed
  qed (subst traverse_mount.simps, simp add: keeps_refl assms(1))+
qed

section \<open>Reading and writing\<close>

lemma resize_length [simp]: "length (resize n data) = n"
  by (simp add: resize_def)

text \<open>The contents after a write: zeros up to the position when it is behind the end, the bytes, and what follows.\<close>

definition written :: "u8 list \<Rightarrow> nat \<Rightarrow> u8 list \<Rightarrow> u8 list" where
  "written buf pos data = resize pos data @ buf @ drop (pos + length buf) data"

lemma written_length [simp]: "length (written buf pos data) = max (length data) (pos + length buf)"
  by (simp add: written_def)

lemma ram_write_spec:
  assumes "st_size attr = int (length data)"
  shows "ram_write t buf pos data attr =
    (written buf pos data,
     attr\<lparr>st_size := int (length (written buf pos data)), st_atim := t, st_mtim := t, st_ctim := t\<rparr>, pos + length buf)"
proof (cases "length data < pos + length buf")
  case True
  then have "take pos (resize (pos + length buf) data) = resize pos data"
    by (auto simp: resize_def min_def replicate_append_same [symmetric] take_replicate)
  with True show ?thesis by (simp add: ram_write_def written_def)
next
  case False
  with assms show ?thesis by (simp add: ram_write_def written_def resize_def)
qed

lemma ram_read_spec: "ram_read n pos data = (take n (drop pos data), pos + min n (length data - pos))"
  by (auto simp: ram_read_def min_def)

lemma rom_read_spec: "rom_read n pos data = (take n (drop pos data), pos + min n (length data - pos))"
  by (auto simp: rom_read_def min_def)

lemma read_written: "take (length buf) (drop pos (written buf pos data)) = buf"
  by (simp add: written_def)

lemma keeps_set_ram:
  assumes "fs_ok fs" and "fs_inodes fs i = Ram_Inode data attr" and "st_size attr' = int (length data')"
  shows "keeps fs (set_inode i (Ram_Inode data' attr') fs)"
  using fs_ok_set_contents(1) [OF assms(1), of i "Ram_Inode data' attr'"] assms
  by (simp add: keeps_def inode_ok_def get_kind_def) (simp add: set_inode_def)

lemma keeps_set_rom:
  assumes "fs_ok fs" and "fs_inodes fs i = Rom_Inode data attr" and "st_size attr' = int (length data')"
  shows "keeps fs (set_inode i (Rom_Inode data' attr') fs)"
  using fs_ok_set_contents(1) [OF assms(1), of i "Rom_Inode data' attr'"] assms
  by (simp add: keeps_def inode_ok_def get_kind_def) (simp add: set_inode_def)

lemma keeps_set_file: "keeps fs fs' \<Longrightarrow> file_ok fs' f \<Longrightarrow> keeps fs (set_file n f fs')"
  using fs_ok_set_file [of fs' f n] by (simp add: keeps_def) (simp add: set_file_def)

text \<open>An open file names an inode of its kind, whose size is the number of its bytes.\<close>

lemma open_inode:
  assumes "fs_ok fs"
  shows "fs_files fs f = Ram_Open pos i \<Longrightarrow> \<exists>data attr. fs_inodes fs i = Ram_Inode data attr \<and> st_size attr = int (length data) \<and> i < fs_next fs"
    and "fs_files fs f = Rom_Open pos i \<Longrightarrow> \<exists>data attr. fs_inodes fs i = Rom_Inode data attr \<and> st_size attr = int (length data) \<and> i < fs_next fs"
    and "fs_files fs f = Dir_Open idx i \<Longrightarrow> \<exists>es attr. fs_inodes fs i = Dir_Inode es attr \<and> i < fs_next fs"
proof -
  show "fs_files fs f = Ram_Open pos i \<Longrightarrow> \<exists>data attr. fs_inodes fs i = Ram_Inode data attr \<and> st_size attr = int (length data) \<and> i < fs_next fs"
    using fs_okD(2) [OF assms, of f] fs_okD(1) [OF assms, of i] by (auto simp: file_ok_def inode_ok_def)
  show "fs_files fs f = Rom_Open pos i \<Longrightarrow> \<exists>data attr. fs_inodes fs i = Rom_Inode data attr \<and> st_size attr = int (length data) \<and> i < fs_next fs"
    using fs_okD(2) [OF assms, of f] fs_okD(1) [OF assms, of i] by (auto simp: file_ok_def inode_ok_def)
  show "fs_files fs f = Dir_Open idx i \<Longrightarrow> \<exists>es attr. fs_inodes fs i = Dir_Inode es attr \<and> i < fs_next fs"
    using fs_okD(2) [OF assms, of f] by (auto simp: file_ok_def)
qed

lemma obj_read_keeps:
  assumes ok: "fs_ok fs"
  shows "keeps fs (snd (obj_read t dev n f fs))"
proof (cases "fs_files fs f")
  case (Rom_Open pos i)
  from open_inode(2) [OF ok this] obtain data attr where
    i: "fs_inodes fs i = Rom_Inode data attr" "st_size attr = int (length data)" "i < fs_next fs" by blast
  with Rom_Open keeps_set_rom [OF ok i(1), of "attr\<lparr>st_atim := t\<rparr>" data] show ?thesis
    by (auto simp: obj_read_def rom_read_spec file_ok_def set_inode_def intro!: keeps_set_file)
next
  case (Ram_Open pos i)
  from open_inode(1) [OF ok this] obtain data attr where
    i: "fs_inodes fs i = Ram_Inode data attr" "st_size attr = int (length data)" "i < fs_next fs" by blast
  with Ram_Open keeps_set_ram [OF ok i(1), of "attr\<lparr>st_atim := t\<rparr>" data] show ?thesis
    by (auto simp: obj_read_def ram_read_spec file_ok_def set_inode_def intro!: keeps_set_file)
qed (simp_all add: obj_read_def keeps_refl ok)

lemma obj_write_ram:
  assumes ok: "fs_ok fs" and f: "fs_files fs f = Ram_Open pos i" and i: "fs_inodes fs i = Ram_Inode data attr"
  shows "obj_write t dev buf f fs = (Inr (length buf), set_file f (Ram_Open (pos + length buf) i)
    (set_inode i (Ram_Inode (written buf pos data) (attr\<lparr>st_size := int (length (written buf pos data)),
      st_atim := t, st_mtim := t, st_ctim := t\<rparr>)) fs))"
  using open_inode(1) [OF ok f] f i by (auto simp: obj_write_def ram_write_spec)

lemma obj_write_keeps:
  assumes ok: "fs_ok fs"
  shows "keeps fs (snd (obj_write t dev buf f fs))"
proof (cases "fs_files fs f")
  case (Ram_Open pos i)
  from open_inode(1) [OF ok this] obtain data attr where
    i: "fs_inodes fs i = Ram_Inode data attr" "st_size attr = int (length data)" "i < fs_next fs" by blast
  show ?thesis
    unfolding obj_write_ram [OF ok Ram_Open i(1)] snd_conv
    using i by (intro keeps_set_file keeps_set_ram [OF ok]) (auto simp: file_ok_def set_inode_def)
qed (simp_all add: obj_write_def keeps_refl ok)

lemma ram_lseek_size:
  "ram_lseek offset whence pos data attr = Inr (p, data', attr') \<Longrightarrow> st_size attr = int (length data) \<Longrightarrow>
     st_size attr' = int (length data')"
  by (auto simp: ram_lseek_def Let_def split: sum.splits if_splits)

lemma obj_lseek_keeps:
  assumes ok: "fs_ok fs"
  shows "keeps fs (snd (obj_lseek offset whence f fs))"
proof (cases "fs_files fs f")
  case (Rom_Open pos i)
  from open_inode(2) [OF ok this] obtain data attr where
    i: "fs_inodes fs i = Rom_Inode data attr" "i < fs_next fs" by blast
  with Rom_Open show ?thesis
    by (auto simp: obj_lseek_def file_ok_def keeps_refl ok split: sum.splits intro!: keeps_set_file)
next
  case (Ram_Open pos i)
  from open_inode(1) [OF ok this] obtain data attr where
    i: "fs_inodes fs i = Ram_Inode data attr" "st_size attr = int (length data)" "i < fs_next fs" by blast
  show ?thesis
  proof (cases "ram_lseek offset whence pos data attr")
    case (Inl e)
    with Ram_Open i show ?thesis by (simp add: obj_lseek_def keeps_refl ok)
  next
    case (Inr r)
    obtain p data' attr' where r: "r = (p, data', attr')" by (cases r) auto
    with Inr ram_lseek_size i(2) have "st_size attr' = int (length data')" by blast
    from keeps_set_ram [OF ok i(1) this] Inr r Ram_Open i show ?thesis
      by (auto simp: obj_lseek_def file_ok_def set_inode_def intro!: keeps_set_file)
  qed
next
  case (Dir_Open idx i)
  with open_inode(3) [OF ok this] show ?thesis
    by (auto simp: obj_lseek_def file_ok_def keeps_refl ok split: sum.splits intro!: keeps_set_file)
qed (simp_all add: obj_lseek_def keeps_refl ok)

lemma obj_truncate_keeps:
  assumes ok: "fs_ok fs"
  shows "keeps fs (snd (obj_truncate n f fs))"
proof (cases "fs_files fs f")
  case (Ram_Open pos i)
  from open_inode(1) [OF ok this] obtain data attr where i: "fs_inodes fs i = Ram_Inode data attr" by blast
  with Ram_Open show ?thesis by (auto simp: obj_truncate_def intro!: keeps_set_ram ok)
qed (simp_all add: obj_truncate_def keeps_refl ok)

lemma obj_chmod_keeps:
  assumes ok: "fs_ok fs"
  shows "keeps fs (snd (obj_chmod mode f fs))"
proof (cases "fs_files fs f")
  case (Ram_Open pos i)
  from open_inode(1) [OF ok this] obtain data attr where
    i: "fs_inodes fs i = Ram_Inode data attr" "st_size attr = int (length data)" by blast
  with Ram_Open show ?thesis by (auto simp: obj_chmod_def intro!: keeps_set_ram ok)
qed (simp_all add: obj_chmod_def keeps_refl ok)

lemma obj_getdents_keeps:
  assumes ok: "fs_ok fs" and run: "obj_getdents n f fs = Some (r, fs')"
  shows "keeps fs fs'"
proof (cases "fs_files fs f")
  case (Dir_Open idx i)
  with open_inode(3) [OF ok this] run show ?thesis
    by (auto simp: obj_getdents_def file_ok_def keeps_refl ok split: option.splits bind_splits intro!: keeps_set_file)
qed (use run keeps_refl [OF ok] in \<open>auto simp: obj_getdents_def\<close>)

lemmas obj_keeps = obj_read_keeps obj_write_keeps obj_lseek_keeps obj_truncate_keeps obj_chmod_keeps

end
