(* ===== verification/Vfs_Steps.thy ===== *)
theory Vfs_Steps
  imports Vfs Fs_Steps
begin

text \<open>
  The operations of the file interface (\<^verbatim>\<open>src/fs/mod.rs\<close>, \<^verbatim>\<open>src/fd/mod.rs\<close>) one by one: each keeps the invariant
  \<open>vfs_ok\<close>, and \<open>init\<close> establishes it without a panic.
\<close>

unbundle bit_operations_syntax

section \<open>Well-formed states\<close>

definition vfs_ok :: "vfs \<Rightarrow> bool" where
  "vfs_ok v \<longleftrightarrow>
     (case v_fs v of
        None \<Rightarrow> False
      | Some fs \<Rightarrow> fs_ok fs \<and> (\<forall>r fd f. v_maps v r fd = Some f \<longrightarrow> f < fs_next_file fs))"

lemma vfs_okE:
  assumes "vfs_ok v"
  obtains fs where "v_fs v = Some fs" "fs_ok fs" "\<And>r fd f. v_maps v r fd = Some f \<Longrightarrow> f < fs_next_file fs"
  using assms by (auto simp: vfs_ok_def split: option.splits)

lemma vfs_ok_keeps:
  assumes "vfs_ok v" and "v_fs v = Some fs" and "keeps fs fs'"
  shows "vfs_ok (v\<lparr>v_fs := Some fs'\<rparr>)"
  using assms by (auto simp: vfs_ok_def keeps_def)

lemma vfs_ok_on_fs:
  assumes ok: "vfs_ok v" and body: "\<And>path fs. v_fs v = Some fs \<Longrightarrow> fs_ok fs \<Longrightarrow> vfs_ok (snd (body path fs))"
  shows "vfs_ok (snd (on_fs name v body))"
  using ok by (auto simp: on_fs_def elim!: vfs_okE intro: body split: sum.splits)

lemma vfs_ok_upd_fs:
  assumes "vfs_ok v" and "v_fs v = Some fs" and "keeps fs (snd r)"
  shows "vfs_ok (snd (upd_fs v r))"
  using vfs_ok_keeps [OF assms] by (simp add: upd_fs_def)

lemma vfs_ok_on_object:
  assumes ok: "vfs_ok v" and body: "\<And>f fs. fs_ok fs \<Longrightarrow> keeps fs (snd (body f fs))"
  shows "vfs_ok (snd (on_object fd v body))"
  using ok by (auto simp: on_object_def elim!: vfs_okE intro!: vfs_ok_upd_fs [OF ok] body split: sum.splits)

text \<open>A table that only names open objects still does so after an insertion, a duplication or a removal.\<close>

lemma table_ran:
  shows "snd (insert_object os r f) s fd = Some g \<Longrightarrow> g = f \<or> os s fd = Some g"
    and "snd (dup_object os r a) s fd = Some g \<Longrightarrow> \<exists>s' fd'. os s' fd' = Some g"
    and "snd (dup_object2 os r a b) s fd = Some g \<Longrightarrow> \<exists>s' fd'. os s' fd' = Some g"
    and "snd (remove_object os r a) s fd = Some g \<Longrightarrow> os s fd = Some g"
  by (auto simp: insert_object_def dup_object_def dup_object2_def remove_object_def split: sum.splits option.splits if_splits)

lemma vfs_ok_tables:
  assumes "vfs_ok v" and "\<And>s fd g. maps s fd = Some g \<Longrightarrow> \<exists>s' fd'. v_maps v s' fd' = Some g"
  shows "vfs_ok (v\<lparr>v_maps := maps\<rparr>)"
  using assms by (auto simp: vfs_ok_def split: option.splits) blast

lemma vfs_ok_opens:
  assumes ok: "vfs_ok v" and fs: "v_fs v = Some fs" and o: "opens fs r"
  shows "vfs_ok (snd (case r of (Inl e, fs1) \<Rightarrow> (Inl e, v\<lparr>v_fs := Some fs1\<rparr>)
     | (Inr f, fs1) \<Rightarrow> let (fd, maps) = insert_object (v_maps v) (v_map v) f in (fd, v\<lparr>v_fs := Some fs1, v_maps := maps\<rparr>)))"
proof (cases "fst r")
  case (Inl e)
  with o fs ok show ?thesis by (auto simp: opens_def vfs_ok_def split: prod.splits)
next
  case (Inr f)
  then obtain fs1 where r: "r = (Inr f, fs1)" by (metis prod.collapse)
  with o have f: "fs_ok fs1" "f = fs_next_file fs" "fs_next_file fs1 = Suc f" by (auto simp: opens_def)
  have "g < Suc (fs_next_file fs)" if "snd (insert_object (v_maps v) (v_map v) f) s fd = Some g" for s fd g
    using table_ran(1) [OF that] ok fs f(2) by (auto simp: vfs_ok_def less_SucI)
  with f r show ?thesis by (auto simp: vfs_ok_def split: prod.splits)
qed

section \<open>Sequences of operations\<close>

datatype vfs_op =
    Op_create_file string "u8 list" u32
  | Op_remove_dir string
  | Op_unlink string
  | Op_create_dir string u32
  | Op_truncate string nat
  | Op_open string u32 u32
  | Op_opendir string
  | Op_set_cwd string
  | Op_umask u32
  | Op_read raw_fd nat
  | Op_write raw_fd "u8 list"
  | Op_lseek raw_fd int seek_whence
  | Op_chmod raw_fd u32
  | Op_ftruncate raw_fd nat
  | Op_getdents raw_fd nat
  | Op_dup raw_fd
  | Op_dup2 raw_fd raw_fd
  | Op_close raw_fd
  | Op_switch objmap_ref

text \<open>One operation of the running task, whose descriptor table is \<open>v_map v\<close>, or the switch to another task; \<open>None\<close> is a panic or an endless recursion.\<close>

fun vfs_step :: "timespec \<Rightarrow> devices \<Rightarrow> vfs_op \<Rightarrow> vfs \<Rightarrow> vfs option" where
  "vfs_step t dev (Op_create_file name data mode) v = Some (snd (create_file t name data mode v))"
| "vfs_step t dev (Op_remove_dir name) v = Some (snd (remove_dir name v))"
| "vfs_step t dev (Op_unlink name) v = Some (snd (unlink name v))"
| "vfs_step t dev (Op_create_dir name mode) v = map_option snd (create_dir t name mode v)"
| "vfs_step t dev (Op_truncate name n) v = Some (snd (truncate_name t name n v))"
| "vfs_step t dev (Op_open name flags mode) v = Some (snd (vfs_open t name flags mode v))"
| "vfs_step t dev (Op_opendir name) v = Some (snd (vfs_opendir name v))"
| "vfs_step t dev (Op_set_cwd dir) v = Some (snd (set_cwd dir v))"
| "vfs_step t dev (Op_umask new_mask) v = Some (snd (umask new_mask v))"
| "vfs_step t dev (Op_read fd n) v = Some (snd (fd_read t dev fd n v))"
| "vfs_step t dev (Op_write fd buf) v = Some (snd (fd_write t dev fd buf v))"
| "vfs_step t dev (Op_lseek fd off whence) v = Some (snd (fd_lseek fd off whence v))"
| "vfs_step t dev (Op_chmod fd mode) v = Some (snd (fd_chmod fd mode v))"
| "vfs_step t dev (Op_ftruncate fd n) v = Some (snd (fd_truncate fd n v))"
| "vfs_step t dev (Op_getdents fd n) v = map_option snd (sys_getdents64 fd n v)"
| "vfs_step t dev (Op_dup fd) v = Some (v\<lparr>v_maps := snd (dup_object (v_maps v) (v_map v) fd)\<rparr>)"
| "vfs_step t dev (Op_dup2 fd fd2) v = Some (v\<lparr>v_maps := snd (dup_object2 (v_maps v) (v_map v) fd fd2)\<rparr>)"
| "vfs_step t dev (Op_close fd) v = Some (v\<lparr>v_maps := snd (remove_object (v_maps v) (v_map v) fd)\<rparr>)"
| "vfs_step t dev (Op_switch r) v = Some (v\<lparr>v_map := r\<rparr>)"

lemma vfs_ok_other [simp]:
  "vfs_ok (v\<lparr>v_cwd := dir\<rparr>) = vfs_ok v" "vfs_ok (v\<lparr>v_umask := new_mask\<rparr>) = vfs_ok v"
  "vfs_ok (v\<lparr>v_map := r\<rparr>) = vfs_ok v"
  by (simp_all add: vfs_ok_def split: option.split)

lemma vfs_open_ok: "vfs_ok v \<Longrightarrow> vfs_ok (snd (vfs_open t name flags mode v))"
  unfolding vfs_open_def filesystem_open_def
  by (rule vfs_ok_on_fs, assumption, rule vfs_ok_opens, assumption, assumption, rule traverse_open_opens)

lemma truncate_name_ok:
  assumes ok: "vfs_ok v"
  shows "vfs_ok (snd (truncate_name t name n v))"
  unfolding truncate_name_def
proof (rule vfs_ok_on_fs [OF ok])
  fix path fs
  assume fs: "v_fs v = Some fs" "fs_ok fs"
  let ?r = "filesystem_open t path O_TRUNC 0 fs"
  have o: "opens fs ?r" unfolding filesystem_open_def by (rule traverse_open_opens [OF fs(2)])
  show "vfs_ok (snd (case ?r of (Inl e, fs1) \<Rightarrow> (Inl Badf, v\<lparr>v_fs := Some fs1\<rparr>)
      | (Inr f, fs1) \<Rightarrow> upd_fs v (obj_truncate n f fs1)))"
  proof (cases "fst ?r")
    case (Inl e)
    with o fs ok show ?thesis by (auto simp: opens_def vfs_ok_def split: prod.splits)
  next
    case (Inr f)
    then obtain fs1 where r: "?r = (Inr f, fs1)" by (metis prod.collapse)
    with o have f: "fs_ok fs1" "fs_next_file fs1 = Suc (fs_next_file fs)" by (auto simp: opens_def)
    with obj_truncate_keeps [OF f(1), of n f] ok fs show ?thesis
      by (auto simp: r vfs_ok_def upd_fs_def keeps_def less_SucI)
  qed
qed

lemma vfs_opendir_ok:
  assumes ok: "vfs_ok v"
  shows "vfs_ok (snd (vfs_opendir name v))"
proof -
  obtain fs where fs: "v_fs v = Some fs" "fs_ok fs" using ok by (rule vfs_okE)
  have "opens fs (filesystem_opendir name fs)"
    using fs_ok_add_file [OF fs(2)]
    by (auto simp: filesystem_opendir_def opens_def [of fs "(Inl _, _)"] file_ok_def split: sum.splits intro!: opens_add_file)
  from vfs_ok_opens [OF ok fs(1) this] show ?thesis by (simp add: vfs_opendir_def fs(1))
qed

lemma create_dir_ok:
  assumes ok: "vfs_ok v"
  shows "\<exists>r v'. create_dir t name mode v = Some (r, v') \<and> vfs_ok v'"
proof (cases "with_relative_filename (v_cwd v) name")
  case (Inl e)
  with ok show ?thesis by (simp add: create_dir_def)
next
  case (Inr path)
  obtain fs where fs: "v_fs v = Some fs" "fs_ok fs" using ok by (rule vfs_okE)
  obtain r fs' where "filesystem_mkdir t path (mode AND v_umask v) fs = Some (r, fs')" "keeps fs fs'"
    unfolding filesystem_mkdir_def using traverse_mkdir_keeps [OF fs(2)] by blast
  with Inr fs vfs_ok_keeps [OF ok fs(1)] show ?thesis by (auto simp: create_dir_def upd_fs_def)
qed

lemma sys_getdents64_ok:
  assumes ok: "vfs_ok v" and run: "sys_getdents64 fd n v = Some (r, v')"
  shows "vfs_ok v'"
proof -
  obtain fs where fs: "v_fs v = Some fs" "fs_ok fs" using ok by (rule vfs_okE)
  with run ok vfs_ok_keeps [OF ok fs(1) obj_getdents_keeps [OF fs(2)]] show ?thesis
    by (auto simp: sys_getdents64_def upd_fs_def split: if_splits sum.splits)
qed

lemma vfs_step_ok:
  assumes ok: "vfs_ok v"
  shows "case vfs_step t dev op v of Some v' \<Rightarrow> vfs_ok v'
    | None \<Rightarrow> \<exists>fd n. op = Op_getdents fd n \<and> sys_getdents64 fd n v = None"
proof (cases op)
  case (Op_create_dir name mode)
  with create_dir_ok [OF ok, of t name mode] show ?thesis by auto
next
  case (Op_getdents fd n)
  with sys_getdents64_ok [OF ok, of fd n] show ?thesis by (auto split: option.splits)
qed (use ok in \<open>auto simp: create_file_def remove_dir_def unlink_def set_cwd_def umask_def fd_read_def fd_write_def
    fd_lseek_def fd_chmod_def fd_truncate_def filesystem_create_file_def filesystem_rmdir_def filesystem_unlink_def
    keeps_refl vfs_open_ok truncate_name_ok vfs_opendir_ok
    split: option.splits
    intro!: vfs_ok_on_fs vfs_ok_upd_fs vfs_ok_on_object obj_keeps traverse_create_file_keeps traverse_rmdir_keeps
      traverse_unlink_keeps vfs_ok_tables dest: table_ran\<close>)

section \<open>Names at the parent directory\<close>

lemma open_missing:
  assumes "walk fs 0 (parent path) = Some d" and "fs_inodes fs d = Dir_Inode es attr"
    and "entry fs d (leaf path) = None"
  shows "traverse_open t opt mode 0 path fs =
    (if contains_flag opt O_CREAT
     then (Inr (fs_next_file fs), snd (add_file (Ram_Open 0 (fs_next fs)) (link_new (ram_file_new t mode) (leaf path) d es attr fs)))
     else (Inl Noent, fs))"
  using assms
  by (simp add: t_open.at_parent [OF assms(1,2)] traverse_open_leaf [OF assms(2) split_path_leaf] entry_dir)
    (simp add: add_file_def)

lemma open_existing:
  assumes "walk fs 0 (parent path) = Some d" and "fs_inodes fs d = Dir_Inode es attr"
    and "entry fs d (leaf path) = Some n"
  shows "traverse_open t opt mode 0 path fs =
    (if contains_flag opt O_DIRECTORY \<and> get_kind (fs_inodes fs n) \<noteq> Directory_Kind then (Inl Notdir, fs)
     else node_get_object n fs)"
  using assms
  by (simp add: t_open.at_parent [OF assms(1,2)] traverse_open_leaf [OF assms(2) split_path_leaf] entry_dir)

lemma unlink_existing:
  assumes "walk fs 0 (parent path) = Some d" and "fs_inodes fs d = Dir_Inode es attr"
    and "entry fs d (leaf path) = Some n"
  shows "traverse_unlink 0 path fs =
    (if get_kind (fs_inodes fs n) \<noteq> File_Kind then (Inl Isdir, fs)
     else (Inr (), set_inode d (Dir_Inode (dir_remove (leaf path) es) attr) fs))"
  using assms by (simp add: t_unlink.at_parent [OF assms(1,2)] traverse_unlink.simps [of d "leaf path"] entry_dir)

lemma mkdir_missing:
  assumes "walk fs 0 (parent path) = Some d" and "fs_inodes fs d = Dir_Inode es attr"
    and "entry fs d (leaf path) = None"
  shows "traverse_mkdir t mode 0 path fs = Some (Inr (), link_new (mem_directory_new t mode) (leaf path) d es attr fs)"
  using assms by (simp add: t_mkdir.at_parent [OF assms(1,2)] traverse_mkdir.simps [of _ _ d "leaf path"] entry_dir link_new_def add_inode_def)

lemma mount_missing:
  assumes "walk fs 0 (parent path) = Some d" and "fs_inodes fs d = Dir_Inode es attr"
    and "entry fs d (leaf path) = None"
  shows "traverse_mount obj 0 path fs = Some (Inr (), set_inode d (Dir_Inode (dir_insert (leaf path) obj es) attr) fs)"
  using assms by (simp add: t_mount.at_parent [OF assms(1,2)] traverse_mount.simps [of _ d "leaf path"] entry_dir)

lemma entry_add_file [simp]: "entry (snd (add_file f fs)) = entry fs"
  by (rule entry_cong) (simp add: add_file_def)

lemma entry_set_file [simp]: "entry (set_file n f fs) = entry fs"
  by (rule entry_cong) (simp add: set_file_def)

lemma walk_cong: "entry fs' = entry fs \<Longrightarrow> walk fs' d cs = walk fs d cs"
  by (induction cs arbitrary: d) (auto split: option.splits)

lemma entry_set_ram: "fs_inodes fs i = Ram_Inode data attr \<Longrightarrow> entry (set_inode i (Ram_Inode data' attr') fs) = entry fs"
  by (auto simp: entry_set_inode entry_def fun_eq_iff)

lemma entry_obj_write:
  assumes "fs_ok fs"
  shows "entry (snd (obj_write t dev buf f fs)) = entry fs"
proof (cases "fs_files fs f")
  case (Ram_Open pos i)
  with open_inode(1) [OF assms this] show ?thesis by (auto simp: obj_write_ram [OF assms] entry_set_ram)
qed (simp_all add: obj_write_def)

section \<open>Start of the system\<close>

lemma filesystem_new_ok: "fs_ok (filesystem_new t)" "entry (filesystem_new t) d s = None"
  by (auto simp: filesystem_new_def ROOT_def fs_ok_def inode_ok_def file_ok_def entry_def mem_directory_new_def dir_sorted_def
      dir_get_def)

lemma short_path:
  assumes "CHR ''/'' \<notin> set c" and "CHR ''/'' \<notin> set e" and "e \<noteq> []"
  shows "parent c = []" "leaf c = c" "parent (c @ CHR ''/'' # e) = [c]" "leaf (c @ CHR ''/'' # e) = e"
proof -
  have "split_once (c @ CHR ''/'' # e) = Some (c, e)" using assms(1) by (induction c) auto
  then have s: "split_path (c @ CHR ''/'' # e) = (c, e)" by (simp add: split_path_def)
  show "parent c = []" "leaf c = c"
    using parent_leaf_step(1) [OF split_path_no_slash [OF assms(1)]] by simp_all
  show "parent (c @ CHR ''/'' # e) = [c]" "leaf (c @ CHR ''/'' # e) = e"
    using parent_leaf_step(1) [OF split_path_no_slash [OF assms(2)]] parent_leaf_step(2) [OF s assms(3)] by simp_all
qed

lemma boot_paths [simp]:
  "parent ''tmp'' = []" "leaf ''tmp'' = ''tmp''" "parent ''proc'' = []" "leaf ''proc'' = ''proc''"
  "parent ''dev'' = []" "leaf ''dev'' = ''dev''" "parent ''proc/version'' = [''proc'']" "leaf ''proc/version'' = ''version''"
  using short_path [of "''tmp''" "''x''"] short_path [of "''proc''" "''version''"] short_path [of "''dev''" "''x''"] by simp_all

lemma fd_write_entry:
  assumes "vfs_ok v" and "v_fs v = Some fs"
  shows "\<exists>fs'. v_fs (snd (fd_write t dev fd buf v)) = Some fs' \<and> entry fs' = entry fs"
  using assms entry_obj_write [of fs t dev buf]
  by (auto simp: fd_write_def on_object_def upd_fs_def elim!: vfs_okE split: sum.splits)

lemma vfs_fd_write_ok: "vfs_ok v \<Longrightarrow> vfs_ok (snd (fd_write t dev fd buf v))"
  unfolding fd_write_def by (rule vfs_ok_on_object) (auto simp: keeps_refl obj_write_keeps)

text \<open>The two first directories of the boot.\<close>

lemma boot_directories:
  "\<exists>fs1 fs2. filesystem_mkdir t ''/tmp'' 0x1ff (filesystem_new t) = Some (Inr (), fs1) \<and>
     filesystem_mkdir t ''/proc'' 0x1ff fs1 = Some (Inr (), fs2) \<and> keeps (filesystem_new t) fs2 \<and>
     entry fs2 0 = [''tmp'' \<mapsto> 1, ''proc'' \<mapsto> 2] \<and> entry fs2 2 = Map.empty \<and> (\<exists>es attr. fs_inodes fs2 2 = Dir_Inode es attr)"
proof -
  let ?fs0 = "filesystem_new t"
  obtain es attr where d0: "fs_inodes ?fs0 0 = Dir_Inode es attr" using filesystem_new_ok(1) [of t] by (auto simp: fs_ok_def)
  let ?n = "mem_directory_new t 0x1ff"
  let ?fs1 = "link_new ?n ''tmp'' 0 es attr ?fs0"
  note ok1 = link_new_ok(1,2) [OF filesystem_new_ok(1) d0 new_nodes_ok(3,7), where c = "''tmp''"]
  have n0: "fs_next ?fs0 = 1" by (simp add: filesystem_new_def)
  have m1: "filesystem_mkdir t ''/tmp'' 0x1ff ?fs0 = Some (Inr (), ?fs1)"
    using mkdir_missing [of ?fs0 "''tmp''" 0 es attr t "0x1ff"] d0 filesystem_new_ok(2)
    by (simp add: filesystem_mkdir_def strip_slash_def ROOT_def)
  have d1: "fs_inodes ?fs1 0 = Dir_Inode (dir_insert ''tmp'' 1 es) attr" by (simp add: n0)
  have e1: "entry ?fs1 0 = [''tmp'' \<mapsto> 1]" unfolding ok1(2) using filesystem_new_ok(2) by (simp add: n0 fun_eq_iff)
  let ?fs2 = "link_new ?n ''proc'' 0 (dir_insert ''tmp'' 1 es) attr ?fs1"
  note ok2 = link_new_ok(1,2) [OF ok1(1) d1 new_nodes_ok(3,7), where c = "''proc''"]
  have m2: "filesystem_mkdir t ''/proc'' 0x1ff ?fs1 = Some (Inr (), ?fs2)"
    using mkdir_missing [of ?fs1 "''proc''" 0 _ attr t "0x1ff"] d1 e1
    by (simp add: filesystem_mkdir_def strip_slash_def ROOT_def)
  have e2: "entry ?fs2 0 = [''tmp'' \<mapsto> 1, ''proc'' \<mapsto> 2]" unfolding ok2(2) e1 by (simp add: n0 numeral_2_eq_2)
  have d2: "fs_inodes ?fs2 2 = ?n" by (simp add: n0)
  then have "entry ?fs2 2 = Map.empty" by (simp add: entry_def mem_directory_new_def dir_get_def fun_eq_iff)
  with m1 m2 e2 d2 ok2(1) show ?thesis
    by (intro exI [of _ ?fs1] exI [of _ ?fs2]) (simp add: keeps_def mem_directory_new_def)
qed

text \<open>The state in which \<open>init\<close> runs: descriptor tables that name the standard streams.\<close>

definition boot_vfs :: "objmap_ref \<Rightarrow> vfs" where
  "boot_vfs r = \<lparr>v_fs = None, v_cwd = None, v_umask = 0x1ff, v_maps = (\<lambda>_. new_object_map nat), v_map = r\<rparr>"

lemma boot_tables: "new_object_map nat fd = Some f \<Longrightarrow> f < 3"
  by (auto simp: new_object_map_def split: if_splits)

lemma version_file:
  assumes ok: "vfs_ok v1" and fs: "v_fs v1 = Some fs2" and root: "entry fs2 0 ''proc'' = Some 2" "entry fs2 2 = Map.empty"
    and d: "fs_inodes fs2 2 = Dir_Inode es attr"
  shows "vfs_ok (snd (File_create t ''/proc/version'' v1)) \<and>
    (\<exists>fs3. v_fs (snd (File_create t ''/proc/version'' v1)) = Some fs3 \<and> entry fs3 0 = entry fs2 0)"
proof -
  have ok2: "fs_ok fs2" using ok fs by (simp add: vfs_ok_def)
  have flag: "contains_flag (O_CREAT OR O_TRUNC OR 1) O_CREAT" by (simp add: contains_flag_def O_CREAT_def O_TRUNC_def)
  let ?mode = "0x1b6 AND v_umask v1"
  let ?l = "link_new (ram_file_new t ?mode) ''version'' 2 es attr fs2"
  have w: "walk fs2 0 (parent ''proc/version'') = Some 2" using root by simp
  have "filesystem_open t ''/proc/version'' (O_CREAT OR O_TRUNC OR 1) ?mode fs2 =
      (Inr (fs_next_file fs2), snd (add_file (Ram_Open 0 (fs_next fs2)) ?l))"
    using open_missing [OF w d, of t "O_CREAT OR O_TRUNC OR 1" ?mode] root(2) flag
    by (simp add: filesystem_open_def strip_slash_def ROOT_def)
  moreover have "entry ?l 0 = entry fs2 0"
    by (simp add: link_new_ok(2) [OF ok2 d new_nodes_ok(1,5)])
  ultimately have "\<exists>fs3. v_fs (snd (File_create t ''/proc/version'' v1)) = Some fs3 \<and> entry fs3 0 = entry fs2 0"
    using fs by (auto simp: File_create_def vfs_open_def on_fs_def with_relative_filename_def split: prod.splits)
  with vfs_open_ok [OF ok] show ?thesis by (simp add: File_create_def)
qed

lemma write_version_ok:
  assumes "vfs_ok v1" and "v_fs v1 = Some fs2" and "entry fs2 0 ''proc'' = Some 2" and "entry fs2 2 = Map.empty"
    and "fs_inodes fs2 2 = Dir_Inode es attr"
  shows "vfs_ok (write_version t dev version v1) \<and>
    (\<exists>fs3. v_fs (write_version t dev version v1) = Some fs3 \<and> entry fs3 0 = entry fs2 0)"
proof -
  note ok2 = version_file [OF assms, of t]
  show ?thesis
  proof (cases "fst (File_create t ''/proc/version'' v1)")
    case (Inl e)
    with ok2 show ?thesis by (auto simp: write_version_def split: prod.splits)
  next
    case (Inr fd)
    then obtain v2 where v2: "File_create t ''/proc/version'' v1 = (Inr fd, v2)" by (metis prod.collapse)
    with ok2 obtain fs3 where ok: "vfs_ok v2" and fs3: "v_fs v2 = Some fs3" "entry fs3 0 = entry fs2 0" by auto
    let ?v = "snd (fd_write t dev fd version v2)"
    have "vfs_ok (?v\<lparr>v_maps := snd (remove_object (v_maps ?v) (v_map ?v) fd)\<rparr>)"
      by (rule vfs_ok_tables [OF vfs_fd_write_ok [OF ok]]) (auto dest: table_ran(4))
    with fd_write_entry [OF ok fs3(1), of t dev fd version] fs3 v2 show ?thesis
      by (auto simp: write_version_def Let_def)
  qed
qed

lemma vfs_init_ok: "\<exists>v. vfs_init t dev version (boot_vfs r) = Some v \<and> vfs_ok v"
proof -
  obtain fs1 fs2 es attr where m: "filesystem_mkdir t ''/tmp'' 0x1ff (filesystem_new t) = Some (Inr (), fs1)"
      "filesystem_mkdir t ''/proc'' 0x1ff fs1 = Some (Inr (), fs2)" and k: "keeps (filesystem_new t) fs2"
    and e: "entry fs2 0 = [''tmp'' \<mapsto> 1, ''proc'' \<mapsto> 2]" "entry fs2 2 = Map.empty" "fs_inodes fs2 2 = Dir_Inode es attr"
    using boot_directories [of t] by blast
  define v1 where "v1 = write_version t dev version ((boot_vfs r)\<lparr>v_fs := Some fs2\<rparr>)"
  have "vfs_ok ((boot_vfs r)\<lparr>v_fs := Some fs2\<rparr>)"
    using k by (auto simp: vfs_ok_def keeps_def boot_vfs_def filesystem_new_def dest: boot_tables)
  from write_version_ok [OF this, of fs2 es attr t dev version] e obtain fs3 where
    fs3: "vfs_ok v1" "v_fs v1 = Some fs3" "fs_ok fs3" "entry fs3 0 ''dev'' = None"
    by (auto simp: v1_def vfs_ok_def)
  note add = fs_ok_add_inode [OF fs3(3), of Dev_Inode]
  let ?fs4 = "snd (add_inode Dev_Inode fs3)"
  obtain es0 attr0 where d0: "fs_inodes ?fs4 0 = Dir_Inode es0 attr0" using add(1) by (auto simp: fs_ok_def)
  let ?fs5 = "set_inode 0 (Dir_Inode (dir_insert ''dev'' (fs_next fs3) es0) attr0) ?fs4"
  have mount: "filesystem_mount ''/dev'' (fs_next fs3) ?fs4 = Some (Inr (), ?fs5)"
    using mount_missing [of ?fs4 "''dev''" 0 es0 attr0 "fs_next fs3"] d0 fs3(4) add(2)
    by (simp add: filesystem_mount_def strip_slash_def ROOT_def)
  have "0 < fs_next fs3" using fs3(3) fs_okD(4) [OF fs3(3), of 0] unfolding fs_ok_def by blast
  then have "fs_ok ?fs5" using add d0 by (intro fs_ok_insert(1)) (auto simp: add_inode_def)
  with fs3 have "vfs_ok (v1\<lparr>v_cwd := Some ''/tmp'', v_fs := Some ?fs5\<rparr>)"
    by (auto simp: vfs_ok_def set_inode_def add_inode_def)
  moreover have "vfs_init t dev version (boot_vfs r) = Some (v1\<lparr>v_cwd := Some ''/tmp'', v_fs := Some ?fs5\<rparr>)"
    using fs3(2) mount by (simp add: vfs_init_def m v1_def Let_def add_inode_def)
  ultimately show ?thesis by blast
qed

end
