(* ===== verification/File_System.thy ===== *)
theory File_System
  imports Vfs_Steps
begin

text \<open>
  The properties of the file system as its users see it: consistency over every sequence of operations, reading back
  what was written, the effect of creating and unlinking names, and the listing of directories.
\<close>

unbundle bit_operations_syntax

section \<open>Properties\<close>

inductive vfs_reachable :: "vfs \<Rightarrow> bool" where
  boot: "vfs_init t dev version (boot_vfs r) = Some v \<Longrightarrow> vfs_reachable v"
| step: "vfs_reachable v \<Longrightarrow> vfs_step t dev op v = Some v' \<Longrightarrow> vfs_reachable v'"

lemma vfs_reachable_ok: "vfs_reachable v \<Longrightarrow> vfs_ok v"
proof (induction rule: vfs_reachable.induct)
  case (boot t dev version r v)
  then show ?case using vfs_init_ok [of t dev version r] by simp
next
  case (step v t dev op v')
  then show ?case using vfs_step_ok [of v op t dev] by simp
qed

lemma getdents_loop_panics: "getdents_loop n off names = None \<Longrightarrow> \<exists>name \<in> set names. 2 ^ 16 \<le> align8 (dirent_len name)"
  by (induction n off names rule: getdents_loop.induct)
    (auto simp: Let_def guard_def not_less split: if_splits bind_splits)

lemma getdents_panics:
  assumes ok: "vfs_ok v" and none: "sys_getdents64 fd n v = None"
  shows "\<exists>f fs. get_object (v_maps v) (v_map v) fd = Inr f \<and> v_fs v = Some fs \<and>
    ((\<exists>names. fs_files fs f = Reader_Open names) \<or>
     (\<exists>idx i es attr name. fs_files fs f = Dir_Open idx i \<and> fs_inodes fs i = Dir_Inode es attr \<and>
        name \<in> fst ` set es \<and> 2 ^ 16 \<le> align8 (dirent_len name)))"
proof -
  obtain fs where fs: "v_fs v = Some fs" "fs_ok fs" using ok by (rule vfs_okE)
  with none obtain f where f: "get_object (v_maps v) (v_map v) fd = Inr f" "obj_getdents n f fs = None"
    by (auto simp: sys_getdents64_def split: if_splits sum.splits)
  show ?thesis
  proof (cases "fs_files fs f")
    case (Dir_Open idx i)
    with open_inode(3) [OF fs(2) this] f(2) obtain es attr where
      i: "fs_inodes fs i = Dir_Inode es attr" "dir_getdents n idx (map fst es) = None"
      by (auto simp: obj_getdents_def split: bind_splits)
    then have "getdents_loop n 0 (drop idx (map fst es)) = None"
      by (auto simp: dir_getdents_def Let_def split: if_splits bind_splits)
    from getdents_loop_panics [OF this] obtain name where
      "name \<in> fst ` set es" "2 ^ 16 \<le> align8 (dirent_len name)" by (metis in_set_dropD set_map)
    with Dir_Open f fs i show ?thesis by blast
  qed (use f fs in \<open>auto simp: obj_getdents_def\<close>)
qed


definition demo_devices :: devices where
  "demo_devices = \<lparr>dev_random = (\<lambda>n. Inr (replicate n 7)), dev_console_ready = Inr False,
     dev_console_read = (\<lambda>n. Inr [13]), dev_console_echo = (\<lambda>_. Inr ()), dev_console_write = (\<lambda>buf. Inr (length buf))\<rparr>"


text \<open>C36: Written data. After a write to a regular file, seeking back to where the write began and reading as many
  bytes gives exactly the bytes written. The file is as long as before or up to the end of the write, the bytes
  before and behind the written ones are kept (bytes of a gap behind the old end are zero), the size in
  the attributes is the length, and no other file and no other open file changes.\<close>

theorem written_data_is_read_back:
  assumes ok: "vfs_ok v" and fd: "get_object (v_maps v) (v_map v) fd = Inr f" and fs: "v_fs v = Some fs"
    and f: "fs_files fs f = Ram_Open pos i" and buf: "buf \<noteq> []"
  shows "\<exists>v1 v2 v3 fs3 data attr attr3.
    fd_write t dev fd buf v = (Inr (length buf), v1) \<and> fd_lseek fd (int pos) Seek_Set v1 = (Inr pos, v2) \<and>
    fd_read t' dev fd (length buf) v2 = (Inr buf, v3) \<and> v_fs v3 = Some fs3 \<and>
    fs_inodes fs i = Ram_Inode data attr \<and>
    fs_inodes fs3 i = Ram_Inode (resize pos data @ buf @ drop (pos + length buf) data) attr3 \<and>
    fd_fstat fd v3 = Inr attr3 \<and> st_size attr3 = int (max (length data) (pos + length buf)) \<and>
    (\<forall>j. j \<noteq> i \<longrightarrow> fs_inodes fs3 j = fs_inodes fs j) \<and> (\<forall>g. g \<noteq> f \<longrightarrow> fs_files fs3 g = fs_files fs g)"
proof -
  have "fs_ok fs" using ok fs by (simp add: vfs_ok_def)
  from open_inode(1) [OF this f] obtain data attr where
    i: "fs_inodes fs i = Ram_Inode data attr" "st_size attr = int (length data)" by blast
  let ?d = "written buf pos data"
  let ?a = "attr\<lparr>st_size := int (length ?d), st_atim := t, st_mtim := t, st_ctim := t\<rparr>"
  let ?fs1 = "set_file f (Ram_Open (pos + length buf) i) (set_inode i (Ram_Inode ?d ?a) fs)"
  let ?fs2 = "set_file f (Ram_Open pos i) (set_inode i (Ram_Inode ?d ?a) ?fs1)"
  let ?fs3 = "set_file f (Ram_Open (pos + length buf) i) (set_inode i (Ram_Inode ?d (?a\<lparr>st_atim := t'\<rparr>)) ?fs2)"
  have w: "fd_write t dev fd buf v = (Inr (length buf), v\<lparr>v_fs := Some ?fs1\<rparr>)"
    using fd fs buf obj_write_ram [OF \<open>fs_ok fs\<close> f i(1)] by (simp add: fd_write_def on_object_def upd_fs_def)
  have "ram_lseek (int pos) Seek_Set (pos + length buf) ?d ?a = Inr (pos, ?d, ?a)"
    by (simp add: ram_lseek_def seek_target_def)
  then have s: "fd_lseek fd (int pos) Seek_Set (v\<lparr>v_fs := Some ?fs1\<rparr>) = (Inr pos, v\<lparr>v_fs := Some ?fs2\<rparr>)"
    using fd by (simp add: fd_lseek_def on_object_def upd_fs_def obj_lseek_def) (simp add: set_file_def set_inode_def)
  have r: "fd_read t' dev fd (length buf) (v\<lparr>v_fs := Some ?fs2\<rparr>) = (Inr buf, v\<lparr>v_fs := Some ?fs3\<rparr>)"
    using fd buf
    by (simp add: fd_read_def on_object_def upd_fs_def obj_read_def ram_read_spec set_file_def set_inode_def)
      (simp add: read_written)
  show ?thesis
    using w s r i fd
    by (intro exI [of _ "v\<lparr>v_fs := Some ?fs1\<rparr>"] exI [of _ "v\<lparr>v_fs := Some ?fs2\<rparr>"] exI [of _ "v\<lparr>v_fs := Some ?fs3\<rparr>"]
        exI [of _ ?fs3] exI [of _ data] exI [of _ attr] exI [of _ "?a\<lparr>st_atim := t'\<rparr>"])
      (simp add: fd_fstat_def on_object_def upd_fs_def obj_fstat_def get_file_attributes_def set_file_def set_inode_def written_def)
qed

text \<open>A file system with a directory \<open>d\<close> and a file \<open>f\<close> of three bytes, which descriptor 3 has open at its second byte;
  descriptor 4 is the root directory.\<close>

definition demo_fs :: fs where
  "demo_fs = \<lparr>fs_inodes = (\<lambda>_. Dev_Inode)(0 := Dir_Inode [(''d'', 2), (''f'', 1)] file_attr_default,
      1 := Ram_Inode [1, 2, 3] (file_attr_default\<lparr>st_size := 3\<rparr>), 2 := Dir_Inode [] file_attr_default),
    fs_next = 3,
    fs_files = (\<lambda>_. Random_Open)(0 := Stdin_Open, 1 := Stdout_Open, 2 := Stderr_Open, 3 := Ram_Open 1 1, 4 := Dir_Open 0 0),
    fs_next_file = 5\<rparr>"

definition demo_vfs :: vfs where
  "demo_vfs = \<lparr>v_fs = Some demo_fs, v_cwd = Some ''/d'', v_umask = 0x1ff,
     v_maps = (\<lambda>_. (new_object_map nat)(3 \<mapsto> 3, 4 \<mapsto> 4)), v_map = 0\<rparr>"

lemma demo_entry: "entry demo_fs d s = (if d = 0 then [''d'' \<mapsto> 2, ''f'' \<mapsto> 1] s else None)"
  by (simp add: entry_def demo_fs_def dir_get_def)

lemma demo_fs_ok: "fs_ok demo_fs"
proof -
  have "dir_sorted [(''d'', 2), (''f'', 1)]" by code_simp
  then have "inode_ok 3 j (fs_inodes demo_fs j)" for j
    by (simp add: demo_fs_def inode_ok_def dir_sorted_def file_attr_default_def)
  moreover have "file_ok demo_fs (fs_files demo_fs g)" for g
    by (simp add: demo_fs_def file_ok_def)
  moreover have "fs_next demo_fs = 3" "fs_inodes demo_fs 0 = Dir_Inode [(''d'', 2), (''f'', 1)] file_attr_default"
    by (simp_all add: demo_fs_def)
  ultimately show ?thesis
    unfolding fs_ok_def by (auto simp: demo_entry split: if_splits)
qed

lemma demo_vfs_ok: "vfs_ok demo_vfs"
  using demo_fs_ok boot_tables
  by (auto simp: vfs_ok_def demo_vfs_def less_trans [of _ 3 5]) (auto simp: demo_fs_def dest!: boot_tables)

lemma demo_objects: "get_object (v_maps demo_vfs) (v_map demo_vfs) 3 = Inr 3" "get_object (v_maps demo_vfs) (v_map demo_vfs) 4 = Inr 4"
    "v_fs demo_vfs = Some demo_fs" "fs_files demo_fs 3 = Ram_Open 1 1" "fs_files demo_fs 4 = Dir_Open 0 0"
    "fs_inodes demo_fs 1 = Ram_Inode [1, 2, 3] (file_attr_default\<lparr>st_size := 3\<rparr>)"
    "fs_inodes demo_fs 0 = Dir_Inode [(''d'', 2), (''f'', 1)] file_attr_default"
  by (simp_all add: demo_vfs_def demo_fs_def get_object_def)

theorem written_data_is_read_back_witness:
  "\<exists>v1 v2 v3 fs3 attr3.
    fd_write timespec_default demo_devices 3 [8, 9, 10] demo_vfs = (Inr 3, v1) \<and> fd_lseek 3 1 Seek_Set v1 = (Inr 1, v2) \<and>
    fd_read timespec_default demo_devices 3 3 v2 = (Inr [8, 9, 10], v3) \<and> v_fs v3 = Some fs3 \<and>
    fs_inodes fs3 1 = Ram_Inode [1, 8, 9, 10] attr3 \<and> st_size attr3 = 4"
  using written_data_is_read_back [OF demo_vfs_ok demo_objects(1,3,4),
      of "[8, 9, 10]" timespec_default demo_devices timespec_default] demo_objects(6)
  by (auto simp: resize_def numeral_3_eq_3)

lemma open_creates_name:
  assumes ok: "fs_ok fs" and w: "walk fs 0 (parent path) = Some d" and d: "fs_inodes fs d = Dir_Inode es attr"
    and none: "entry fs d (leaf path) = None" and flag: "contains_flag opt O_CREAT"
  shows "\<exists>fs1 attr1. traverse_open t opt mode 0 path fs = (Inr (fs_next_file fs), fs1) \<and>
    walk fs1 0 = (walk fs 0)(components path \<mapsto> fs_next fs) \<and>
    fs_files fs1 = (fs_files fs)(fs_next_file fs := Ram_Open 0 (fs_next fs)) \<and>
    fs_inodes fs1 (fs_next fs) = Ram_Inode [] attr1 \<and> (\<forall>i. i \<noteq> d \<and> i \<noteq> fs_next fs \<longrightarrow> fs_inodes fs1 i = fs_inodes fs i)"
proof -
  let ?l = "link_new (ram_file_new t mode) (leaf path) d es attr fs"
  let ?fs1 = "snd (add_file (Ram_Open 0 (fs_next fs)) ?l)"
  note l = link_new_ok(2) [OF ok d new_nodes_ok(1,5), of t mode "leaf path"] link_new_ok(3) [OF ok d new_nodes_ok(1,5)]
  have "entry fs (fs_next fs) s = None" for s
    using fs_okD(4) [OF ok, of "fs_next fs"] by (auto simp: entry_def split: inode.splits)
  then have "walk ?l 0 = (walk fs 0)(components path \<mapsto> fs_next fs)"
    using walk_insert [OF ok w none l(1)] l(2) by (simp add: components_split)
  moreover have "walk ?fs1 0 = walk ?l 0" by (intro ext walk_cong) simp
  ultimately show ?thesis
    using open_missing [OF w d none, of t opt mode] flag l(2)
    by (auto simp: add_file_def ram_file_new_def)
qed

lemma unlink_removes_name:
  assumes ok: "fs_ok fs" and w: "walk fs 0 (parent path) = Some d" and d: "fs_inodes fs d = Dir_Inode es attr"
    and n: "entry fs d (leaf path) = Some n" and isfile: "get_kind (fs_inodes fs n) = File_Kind"
  shows "\<exists>fs1. traverse_unlink 0 path fs = (Inr (), fs1) \<and> walk fs1 0 = (walk fs 0)(components path := None) \<and>
    fs_files fs1 = fs_files fs \<and> (\<forall>i. i \<noteq> d \<longrightarrow> fs_inodes fs1 i = fs_inodes fs i) \<and>
    (\<forall>t opt mode. \<not> contains_flag opt O_CREAT \<longrightarrow> traverse_open t opt mode 0 path fs1 = (Inl Noent, fs1))"
proof -
  let ?fs1 = "set_inode d (Dir_Inode (dir_remove (leaf path) es) attr) fs"
  note rm = fs_ok_remove [OF ok d, of "leaf path"]
  have below: "walk fs 0 cs = None" if "prefix (components path) cs" "cs \<noteq> components path" for cs
    using that n w isfile
    by (intro walk_below_file [of fs "components path" n])
      (auto simp: components_split walk_snoc entry_def get_kind_def split: inode.splits)
  have walk1: "walk ?fs1 0 = (walk fs 0)(components path := None)"
    using walk_remove [OF ok w rm(2)] below by (auto simp: components_split fun_eq_iff)
  have "parent path \<noteq> components path" by (simp add: components_split)
  then have "walk ?fs1 0 (parent path) = Some d" using w walk1 by simp
  moreover have "fs_inodes ?fs1 d = Dir_Inode (dir_remove (leaf path) es) attr" by (simp add: set_inode_def)
  moreover have "entry ?fs1 d (leaf path) = None" by (simp add: rm(2))
  ultimately have "traverse_open t opt mode 0 path ?fs1 = (Inl Noent, ?fs1)" if "\<not> contains_flag opt O_CREAT" for t opt mode
    using open_missing that by simp
  with unlink_existing [OF w d n] isfile walk1 show ?thesis by (auto simp: set_inode_def)
qed

text \<open>C37: Creating and removing names. Opening a name that does not exist, with \<open>O_CREAT\<close> and in a directory that exists,
  adds exactly that name to the tree, with a new empty file behind it. Unlinking the name of a file removes exactly that name:
  opening it again fails with \<open>Noent\<close>, every other name leads to the same file as before, and the files that are
  open, also the unlinked one, keep their contents and positions. Unlinking the name just created restores all names.\<close>

theorem names_follow_create_and_unlink:
  assumes ok: "fs_ok fs" and path: "path = strip_slash name" and w: "walk fs 0 (parent path) = Some d"
    and d: "fs_inodes fs d = Dir_Inode es attr" and flag: "contains_flag opt O_CREAT"
  shows "case entry fs d (leaf path) of
      None \<Rightarrow>
        (\<exists>fs1 fs2 attr1. filesystem_open t name opt mode fs = (Inr (fs_next_file fs), fs1) \<and>
          walk fs1 0 = (walk fs 0)(components path \<mapsto> fs_next fs) \<and>
          fs_files fs1 = (fs_files fs)(fs_next_file fs := Ram_Open 0 (fs_next fs)) \<and>
          fs_inodes fs1 (fs_next fs) = Ram_Inode [] attr1 \<and>
          (\<forall>i. i \<noteq> d \<and> i \<noteq> fs_next fs \<longrightarrow> fs_inodes fs1 i = fs_inodes fs i) \<and>
          filesystem_unlink name fs1 = (Inr (), fs2) \<and> walk fs2 0 = walk fs 0)
    | Some n \<Rightarrow> get_kind (fs_inodes fs n) = File_Kind \<longrightarrow>
        (\<exists>fs1. filesystem_unlink name fs = (Inr (), fs1) \<and> walk fs1 0 = (walk fs 0)(components path := None) \<and>
          fs_files fs1 = fs_files fs \<and> (\<forall>i. i \<noteq> d \<longrightarrow> fs_inodes fs1 i = fs_inodes fs i) \<and>
          (\<forall>opt'. \<not> contains_flag opt' O_CREAT \<longrightarrow> filesystem_open t name opt' mode fs1 = (Inl Noent, fs1)))"
proof (cases "entry fs d (leaf path)")
  case None
  obtain fs1 attr1 where o: "traverse_open t opt mode 0 path fs = (Inr (fs_next_file fs), fs1)"
      "walk fs1 0 = (walk fs 0)(components path \<mapsto> fs_next fs)"
      "fs_files fs1 = (fs_files fs)(fs_next_file fs := Ram_Open 0 (fs_next fs))"
      "fs_inodes fs1 (fs_next fs) = Ram_Inode [] attr1"
      "\<forall>i. i \<noteq> d \<and> i \<noteq> fs_next fs \<longrightarrow> fs_inodes fs1 i = fs_inodes fs i"
    using open_creates_name [OF ok w d None flag] by blast
  have ok1: "fs_ok fs1" using traverse_open_opens [OF ok, of t opt mode 0 path] by (simp add: o(1) opens_def)
  have "parent path \<noteq> components path" by (simp add: components_split)
  with w o(2) have w1: "walk fs1 0 (parent path) = Some d" by simp
  have e1: "entry fs1 d (leaf path) = Some (fs_next fs)"
    using o(2) w1 by (metis components_split fun_upd_same option.case(2) walk_snoc)
  then obtain es1 attr1' where "fs_inodes fs1 d = Dir_Inode es1 attr1'" by (auto simp: entry_def split: inode.splits)
  from unlink_removes_name [OF ok1 w1 this e1] o(4) obtain fs2 where
    "traverse_unlink 0 path fs1 = (Inr (), fs2)" "walk fs2 0 = (walk fs1 0)(components path := None)"
    by (auto simp: get_kind_def)
  moreover have "walk fs 0 (components path) = None" using w None by (simp add: components_split walk_snoc)
  ultimately show ?thesis
    using None o path by (auto simp: filesystem_open_def filesystem_unlink_def ROOT_def fun_upd_idem)
next
  case (Some n)
  with unlink_removes_name [OF ok w d Some] path show ?thesis
    by (auto simp: filesystem_open_def filesystem_unlink_def ROOT_def)
qed

theorem names_follow_create_and_unlink_witness:
  "(\<exists>fs1. filesystem_open timespec_default ''/g'' O_CREAT 0 demo_fs = (Inr 5, fs1) \<and> walk fs1 0 [''g''] = Some 3 \<and>
      walk fs1 0 [''f''] = Some 1) \<and>
   (\<exists>fs1. filesystem_unlink ''/f'' demo_fs = (Inr (), fs1) \<and> walk fs1 0 [''f''] = None \<and> walk fs1 0 [''d''] = Some 2 \<and>
      fs_inodes fs1 1 = fs_inodes demo_fs 1)"
proof -
  have p: "parent ''g'' = []" "leaf ''g'' = ''g''" "parent ''f'' = []" "leaf ''f'' = ''f''" "components ''g'' = [''g'']"
      "components ''f'' = [''f'']"
    using short_path [of "''g''" "''x''"] short_path [of "''f''" "''x''"] components_split by auto
  have n: "fs_next demo_fs = 3" "fs_next_file demo_fs = 5" by (simp_all add: demo_fs_def)
  have c: "contains_flag O_CREAT O_CREAT" by (simp add: contains_flag_def)
  have wf: "walk demo_fs 0 [''f''] = Some 1" "walk demo_fs 0 [''d''] = Some 2" by (simp_all add: demo_entry)
  show ?thesis
    using names_follow_create_and_unlink [OF demo_fs_ok refl, of "''/g''" 0 _ _ O_CREAT timespec_default 0]
      names_follow_create_and_unlink [OF demo_fs_ok refl, of "''/f''" 0 _ _ O_CREAT timespec_default 0]
      demo_objects(6,7) c wf
    by (auto simp: strip_slash_def p n demo_entry get_kind_def simp del: walk.simps(2))
qed

text \<open>\<open>O_EXCL\<close> and \<open>O_TRUNC\<close> are ignored. \<open>File::create_new\<close>, documented to fail when the file exists, and \<open>File::create\<close>,
  documented to truncate it, both open the existing file, with its contents unchanged.\<close>

theorem create_ignores_excl_and_trunc:
  assumes ok: "vfs_ok v" and fs: "v_fs v = Some fs" and w: "walk fs 0 (components path) = Some n"
    and n: "fs_inodes fs n = Ram_Inode data attr" and fd: "new_fd (v_maps v (v_map v)) = Inr fd"
    and opener: "opener = File_create_new \<or> opener = File_create"
  shows "\<exists>v1 fs1. opener t (CHR ''/'' # path) v = (Inr fd, v1) \<and> v_fs v1 = Some fs1 \<and>
    get_object (v_maps v1) (v_map v1) fd = Inr (fs_next_file fs) \<and> fs_files fs1 (fs_next_file fs) = Ram_Open 0 n \<and>
    fs_inodes fs1 = fs_inodes fs"
proof -
  obtain d where d: "walk fs 0 (parent path) = Some d" "entry fs d (leaf path) = Some n"
    using w by (auto simp: components_split walk_snoc split: option.splits)
  then obtain es attr' where es: "fs_inodes fs d = Dir_Inode es attr'" by (auto simp: entry_def split: inode.splits)
  have opt: "\<not> contains_flag (O_CREAT OR O_EXCL OR 2) O_DIRECTORY" "\<not> contains_flag (O_CREAT OR O_TRUNC OR 1) O_DIRECTORY"
    by (simp_all add: contains_flag_def O_CREAT_def O_EXCL_def O_TRUNC_def O_DIRECTORY_def)
  have "filesystem_open t (CHR ''/'' # path) o' mode fs = (Inr (fs_next_file fs), snd (add_file (Ram_Open 0 n) fs))"
    if "\<not> contains_flag o' O_DIRECTORY" for o' mode
    using open_existing [OF d(1) es d(2)] n that
    by (simp add: filesystem_open_def strip_slash_def ROOT_def node_get_object_def add_file_def)
  note this [OF opt(1)] this [OF opt(2)]
  with opener fs fd show ?thesis
    by (auto simp: File_create_new_def File_create_def vfs_open_def on_fs_def with_relative_filename_def insert_object_def
        get_object_def add_file_def)
qed

theorem create_ignores_excl_and_trunc_witness:
  "\<exists>v1 fs1. File_create_new timespec_default ''/f'' demo_vfs = (Inr 5, v1) \<and> v_fs v1 = Some fs1 \<and>
    fs_files fs1 5 = Ram_Open 0 1 \<and> fs_inodes fs1 1 = Ram_Inode [1, 2, 3] (file_attr_default\<lparr>st_size := 3\<rparr>)"
proof -
  have "components ''f'' = [''f'']" using short_path [of "''f''" "''x''"] components_split by auto
  then have w: "walk demo_fs 0 (components ''f'') = Some 1" by (simp add: demo_entry)
  have n: "fs_next_file demo_fs = 5" by (simp add: demo_fs_def)
  have "new_fd (v_maps demo_vfs (v_map demo_vfs)) = Inr 5"
  proof (rule new_fd_free)
    show "\<forall>x. 0 \<le> x \<and> x < 5 \<longrightarrow> v_maps demo_vfs (v_map demo_vfs) x \<noteq> None"
    proof (intro allI impI)
      fix x :: int
      assume "0 \<le> x \<and> x < 5"
      then have "x \<in> {0, 1, 2, 3, 4}" by auto
      then show "v_maps demo_vfs (v_map demo_vfs) x \<noteq> None" by (auto simp: demo_vfs_def new_object_map_def)
    qed
  qed (simp_all add: demo_vfs_def new_object_map_def)
  from create_ignores_excl_and_trunc [OF demo_vfs_ok demo_objects(3) w demo_objects(6) this, of File_create_new timespec_default]
    demo_objects(6) n show ?thesis by auto
qed

text \<open>The loop of a program that lists a directory: calls with a buffer of \<open>count\<close> bytes until one returns 0 bytes.\<close>

fun list_dir :: "nat \<Rightarrow> raw_fd \<Rightarrow> nat \<Rightarrow> vfs \<Rightarrow> string list option" where
  "list_dir 0 fd count v = None"
| "list_dir (Suc fuel) fd count v =
     (case sys_getdents64 fd count v of
        Some (Inr (entries, ret), v1) \<Rightarrow>
          if ret = 0 then Some [] else map_option ((@) (map snd entries)) (list_dir fuel fd count v1)
      | _ \<Rightarrow> None)"

lemma getdents_loop_prefix:
  assumes "\<forall>name \<in> set names. align8 (dirent_len name) < 2 ^ 16"
  shows "\<exists>entries ret. getdents_loop count off names = Some (entries, ret) \<and> map snd entries = take (length entries) names \<and>
    length entries \<le> length names \<and> off \<le> ret \<and> (entries \<noteq> [] \<longrightarrow> off < ret)"
  using assms
proof (induction count off names rule: getdents_loop.induct)
  case (2 count off name names)
  let ?next = "align8 (off + dirent_len name)"
  have less: "off < ?next" by (simp add: align8_def dirent_len_def)
  show ?case
  proof (cases "count < ?next")
    case False
    with "2.IH" [OF refl False] "2.prems" obtain entries ret where
      "getdents_loop count ?next names = Some (entries, ret)" "map snd entries = take (length entries) names"
      "length entries \<le> length names" "?next \<le> ret" by (auto simp: guard_def)
    with False less "2.prems" show ?thesis by (auto simp: Let_def guard_def)
  qed simp
qed simp

lemma dir_getdents_chunk:
  assumes fit: "\<forall>name \<in> set names. align8 (dirent_len name) < 2 ^ 16 \<and> align8 (dirent_len name) \<le> count" and idx: "idx \<le> length names"
  shows "\<exists>entries ret. dir_getdents count idx names = Some (Inr (entries, ret), idx + length entries) \<and>
    map snd entries = take (length entries) (drop idx names) \<and> idx + length entries \<le> length names \<and>
    (ret = 0 \<longleftrightarrow> idx = length names) \<and> (idx < length names \<longrightarrow> entries \<noteq> [])"
proof -
  have "\<forall>name \<in> set (drop idx names). align8 (dirent_len name) < 2 ^ 16" using fit by (auto dest: in_set_dropD)
  from getdents_loop_prefix [OF this, of count 0] obtain entries ret where
    run: "getdents_loop count 0 (drop idx names) = Some (entries, ret)"
    and e: "map snd entries = take (length entries) (drop idx names)" "length entries \<le> length (drop idx names)"
      "entries \<noteq> [] \<longrightarrow> 0 < ret" by auto
  show ?thesis
  proof (cases "idx < length names")
    case True
    then obtain name rest where rest: "drop idx names = name # rest" by (metis Cons_nth_drop_Suc)
    then have "name \<in> set names" by (metis in_set_dropD list.set_intros(1))
    with fit run rest have "entries \<noteq> []" by (auto simp: Let_def guard_def split: if_splits bind_splits)
    moreover have "idx + length entries \<le> length names" using e(2) True by simp
    ultimately show ?thesis using run e True by (auto simp: dir_getdents_def)
  next
    case False
    with idx run e show ?thesis by (auto simp: dir_getdents_def)
  qed
qed

lemma list_dir_from:
  assumes fit: "\<forall>name \<in> fst ` set es. align8 (dirent_len name) < 2 ^ 16 \<and> align8 (dirent_len name) \<le> count" and "0 < count"
    and "get_object (v_maps v) (v_map v) fd = Inr f" and "v_fs v = Some fs"
    and "fs_files fs f = Dir_Open idx i" and "fs_inodes fs i = Dir_Inode es attr"
    and "idx \<le> length es" and "length es - idx < fuel"
  shows "list_dir fuel fd count v = Some (drop idx (map fst es))"
  using assms(3-)
proof (induction fuel arbitrary: v fs idx)
  case (Suc fuel)
  let ?names = "map fst es"
  from dir_getdents_chunk [of ?names count idx] fit Suc.prems(5) obtain entries ret where
    run: "dir_getdents count idx ?names = Some (Inr (entries, ret), idx + length entries)"
    and e: "map snd entries = take (length entries) (drop idx ?names)" "idx + length entries \<le> length es"
      "ret = 0 \<longleftrightarrow> idx = length es" "idx < length es \<longrightarrow> entries \<noteq> []" by auto
  let ?fs = "set_file f (Dir_Open (idx + length entries) i) fs"
  have call: "sys_getdents64 fd count v = Some (Inr (entries, ret), v\<lparr>v_fs := Some ?fs\<rparr>)"
    using Suc.prems \<open>0 < count\<close> run by (simp add: sys_getdents64_def obj_getdents_def upd_fs_def)
  show ?case
  proof (cases "idx = length es")
    case True
    with call e(3) show ?thesis by simp
  next
    case False
    with Suc.prems(5) e(4) have "entries \<noteq> []" by simp
    then have "length es - (idx + length entries) < fuel"
      using Suc.prems(5,6) False by (cases entries) auto
    with Suc.prems e have "list_dir fuel fd count (v\<lparr>v_fs := Some ?fs\<rparr>) = Some (drop (idx + length entries) ?names)"
      by (intro Suc.IH [of _ ?fs]) (auto simp: set_file_def)
    with call e False show ?thesis
      by simp (metis append_take_drop_id drop_drop add.commute drop_map take_map)
  qed
qed simp

text \<open>C38: Listing a directory. When the buffer has room for every single entry of the directory, calling \<open>getdents64\<close> until
  it returns 0 lists exactly the names of the directory, each once and in order, however the entries are spread over the calls;
  at most one call more than there are names is needed.\<close>

theorem getdents_lists_directory:
  assumes "get_object (v_maps v) (v_map v) fd = Inr f" and "v_fs v = Some fs" and "fs_files fs f = Dir_Open 0 i"
    and "fs_inodes fs i = Dir_Inode es attr" and "0 < count"
    and "\<forall>name \<in> fst ` set es. align8 (dirent_len name) < 2 ^ 16 \<and> align8 (dirent_len name) \<le> count"
  shows "list_dir (Suc (length es)) fd count v = Some (map fst es) \<and> traverse_readdir i [] fs = Inr (map fst es)"
  using list_dir_from [OF assms(6,5,1-4), of "Suc (length es)"] assms(4)
  by (simp add: traverse_readdir.simps del: list_dir.simps)

theorem getdents_lists_directory_witness:
  "list_dir 3 4 24 demo_vfs = Some [''d'', ''f'']"
  using getdents_lists_directory [OF demo_objects(2,3,5,7), of 24]
  by (simp add: align8_def dirent_len_def numeral_3_eq_3 del: list_dir.simps)

end
