(* ===== verification/Interrupts.thy ===== *)
theory Interrupts
  imports Core_Steps
begin

text \<open>
  The interrupt path of the aarch64 port (\<^verbatim>\<open>src/arch/aarch64/kernel/interrupts.rs\<close> and the counters of
  \<^verbatim>\<open>src/arch/aarch64/kernel/core_local.rs\<close>): the table of handlers, \<open>do_irq\<close> and \<open>do_fiq\<close> around the wake-up and the
  scheduler of \<^verbatim>\<open>src/scheduler/mod.rs\<close>, the nesting counters and the priority ceiling. The contract of the code an interrupt
  calls is the locale \<open>service\<close>.
\<close>

section \<open>State\<close>

text \<open>The cargo features that change the interrupt path, and whether debug assertions are compiled in.\<close>

record features =
  pmr_band :: bool
  pmr_coop_net :: bool
  debug_assertions :: bool

datatype irq_handler =
    Timer_Handler
  | Uart_Handler
  | Coop_Wake_Handler
  | Rt_Bridge_Handler
  | Driver_Handler nat

type_synonym handler_map = "u8 \<rightharpoonup> irq_handler list"

text \<open>The per-core part of the state: the kernel as the scheduler sees it, the counters of \<open>CoreLocal\<close>, the interrupts the
  controller has handed out and not completed (innermost first), its priority mask, and the flags of the bridge between the
  bands. The nesting counters are bounded by the number of interrupt priorities, far below their width.\<close>

record irq_state =
  irq_kernel :: kernel
  rt_nest_depth :: nat
  in_irq :: bool
  eoi_inflight :: nat
  gic_active :: "u32 list"
  gic_pmr :: u8
  sgi_pending :: "u8 list"
  irq_counters :: "u8 \<Rightarrow> u64"
  coop_wake_pending :: bool
  coop_triggered :: bool
  band_waker :: bool
  coop_woken :: nat

section \<open>Counters and the interrupt controller\<close>

definition inc_rt_nest_depth :: "irq_state \<Rightarrow> irq_state" where
  "inc_rt_nest_depth s = s\<lparr>rt_nest_depth := rt_nest_depth s + 1\<rparr>"

definition dec_rt_nest_depth :: "irq_state \<Rightarrow> irq_state option" where
  "dec_rt_nest_depth s = (if rt_nest_depth s = 0 then None else Some (s\<lparr>rt_nest_depth := rt_nest_depth s - 1\<rparr>))"

definition eoi_inflight_inc :: "irq_state \<Rightarrow> irq_state" where
  "eoi_inflight_inc s = s\<lparr>eoi_inflight := eoi_inflight s + 1\<rparr>"

definition eoi_inflight_dec :: "irq_state \<Rightarrow> irq_state option" where
  "eoi_inflight_dec s = (if eoi_inflight s = 0 then None else Some (s\<lparr>eoi_inflight := eoi_inflight s - 1\<rparr>))"

definition increment_irq_counter :: "u8 \<Rightarrow> irq_state \<Rightarrow> irq_state" where
  "increment_irq_counter v s = s\<lparr>irq_counters := (irq_counters s)(v := irq_counters s v + 1)\<rparr>"

text \<open>Acknowledging makes an interrupt active; ending it (in one or in two writes) makes it inactive.\<close>

definition gic_acknowledge :: "u32 \<Rightarrow> irq_state \<Rightarrow> irq_state" where
  "gic_acknowledge irqid s = s\<lparr>gic_active := irqid # gic_active s\<rparr>"

definition end_interrupt :: "u32 \<Rightarrow> irq_state \<Rightarrow> irq_state" where
  "end_interrupt irqid s = s\<lparr>gic_active := remove1 irqid (gic_active s)\<rparr>"

definition eoi_complete :: "u32 \<Rightarrow> irq_state \<Rightarrow> irq_state option" where
  "eoi_complete irqid s = eoi_inflight_dec (end_interrupt irqid s)"

definition pend_sgi_to_self :: "u8 \<Rightarrow> irq_state \<Rightarrow> irq_state" where
  "pend_sgi_to_self intid s = s\<lparr>sgi_pending := sgi_pending s @ [intid]\<rparr>"

definition irq_enter :: "features \<Rightarrow> irq_state \<Rightarrow> irq_state" where
  "irq_enter ft s = (if pmr_band ft then (inc_rt_nest_depth s)\<lparr>in_irq := True\<rparr> else s)"

definition irq_exit :: "features \<Rightarrow> irq_state \<Rightarrow> irq_state option" where
  "irq_exit ft s = (if pmr_band ft then dec_rt_nest_depth (s\<lparr>in_irq := False\<rparr>) else Some s)"

section \<open>Handlers\<close>

definition PPI_START :: u8 where
  "PPI_START = 16"

definition SPI_START :: u8 where
  "SPI_START = 32"

definition SGI_RESCHED :: u8 where
  "SGI_RESCHED = 1"

definition SGI_COOP_WAKE :: u8 where
  "SGI_COOP_WAKE = 13"

definition SGI_RT_BRIDGE :: u8 where
  "SGI_RT_BRIDGE = 12"

text \<open>The priority ceiling: raising saves the mask and lowers its value; dropping the guard restores it.\<close>

definition pmr_raise :: "features \<Rightarrow> u8 \<Rightarrow> irq_state \<Rightarrow> (u8 \<times> irq_state) option" where
  "pmr_raise ft new_ceiling s = do {
     let cur = gic_pmr s;
     guard (debug_assertions ft \<longrightarrow> new_ceiling \<le> cur);
     Some (cur, s\<lparr>gic_pmr := new_ceiling\<rparr>)
   }"

definition pmr_drop :: "features \<Rightarrow> u8 \<Rightarrow> irq_state \<Rightarrow> irq_state option" where
  "pmr_drop ft saved s = do {
     let cur = gic_pmr s;
     guard (debug_assertions ft \<longrightarrow> cur = saved);
     Some (s\<lparr>gic_pmr := saved\<rparr>)
   }"

definition wake_coop_future :: "irq_state \<Rightarrow> irq_state" where
  "wake_coop_future s =
     (let s1 = pend_sgi_to_self SGI_COOP_WAKE s
      in if band_waker s1 then s1\<lparr>band_waker := False, coop_woken := Suc (coop_woken s1)\<rparr> else s1)"

definition timer_handler :: "u64 \<Rightarrow> irq_state \<Rightarrow> irq_state option" where
  "timer_handler now s = do {
     ts \<leftarrow> clear_active_and_set_next now (cs_timers (k_sched (irq_kernel s)));
     Some (s\<lparr>irq_kernel := with_sched (cs_timers_update (\<lambda>_. ts)) (irq_kernel s)\<rparr>)
   }"

definition coop_wake_handler :: "irq_state \<Rightarrow> irq_state" where
  "coop_wake_handler s = s\<lparr>coop_wake_pending := True\<rparr>"

definition rt_bridge_handler :: "features \<Rightarrow> irq_state \<Rightarrow> irq_state option" where
  "rt_bridge_handler ft s = do {
     (saved, s1) \<leftarrow> pmr_raise ft 0x20 s;
     let s2 = wake_coop_future (s1\<lparr>coop_triggered := True\<rparr>);
     pmr_drop ft saved s2
   }"

text \<open>One handler of a queue. \<open>drv\<close> stands for the handlers of the device drivers and of the UART.\<close>

definition run_handler ::
    "features \<Rightarrow> (irq_handler \<Rightarrow> irq_state \<Rightarrow> irq_state option) \<Rightarrow> u64 \<Rightarrow> irq_handler \<Rightarrow> irq_state \<Rightarrow> irq_state option" where
  "run_handler ft drv now handler s =
     (case handler of
        Timer_Handler \<Rightarrow> timer_handler now s
      | Coop_Wake_Handler \<Rightarrow> Some (coop_wake_handler s)
      | Rt_Bridge_Handler \<Rightarrow> rt_bridge_handler ft s
      | _ \<Rightarrow> drv handler s)"

primrec run_queue :: "(irq_handler \<Rightarrow> 's \<Rightarrow> 's option) \<Rightarrow> irq_handler list \<Rightarrow> 's \<Rightarrow> 's option" where
  "run_queue run [] s = Some s"
| "run_queue run (handler # queue) s = run handler s \<bind> run_queue run queue"

text \<open>\<open>install_handlers\<close>: the handlers of the drivers, shifted to the shared interrupts, then those of the kernel at the
  end of the queue of their vector. The sums of interrupt numbers are checked.\<close>

definition push_handler :: "u8 \<Rightarrow> irq_handler \<Rightarrow> handler_map \<Rightarrow> handler_map" where
  "push_handler v handler m = m(v \<mapsto> (case m v of Some queue \<Rightarrow> queue @ [handler] | None \<Rightarrow> [handler]))"

primrec shift_handlers :: "(u8 \<times> irq_handler list) list \<Rightarrow> handler_map option" where
  "shift_handlers [] = Some Map.empty"
| "shift_handlers (kv # old) = do {
     m \<leftarrow> shift_handlers old;
     guard (fst kv \<le> 255 - SPI_START);
     Some (m(fst kv + SPI_START \<mapsto> snd kv))
   }"

definition install_handlers :: "features \<Rightarrow> u32 \<Rightarrow> u32 \<Rightarrow> (u8 \<times> irq_handler list) list \<Rightarrow> handler_map option" where
  "install_handlers ft timer_irq uart_irq old = do {
     m \<leftarrow> shift_handlers old;
     guard (timer_irq + ucast PPI_START < 256 \<and> timer_irq < 256);
     guard (uart_irq + ucast SPI_START < 256 \<and> uart_irq < 256);
     let m1 = push_handler (ucast timer_irq + PPI_START) Timer_Handler m;
     let m2 = push_handler (ucast uart_irq + SPI_START) Uart_Handler m1;
     let m3 = (if pmr_band ft \<or> pmr_coop_net ft then push_handler SGI_COOP_WAKE Coop_Wake_Handler m2 else m2);
     Some (if pmr_band ft then push_handler SGI_RT_BRIDGE Rt_Bridge_Handler m3 else m3)
   }"

section \<open>The interrupt entry points\<close>

text \<open>The common middle of \<open>do_irq\<close> and \<open>do_fiq\<close>: count, run the handlers, move expired tasks to the ready queue, complete
  the interrupt and, on return to thread mode, call the scheduler. The result is the task whose stack pointer the
  exit path saves, if it switches. \<open>clock\<close> holds the readings of the timer handler, of the wake-up and of the scheduler.\<close>

definition serve_interrupt ::
    "features \<Rightarrow> platform \<Rightarrow> (irq_handler \<Rightarrow> irq_state \<Rightarrow> irq_state option) \<Rightarrow> handler_map \<Rightarrow> u64 \<times> u64 \<times> u64 \<Rightarrow> u32 \<Rightarrow> irq_state \<Rightarrow>
     (tref option \<times> irq_state) option" where
  "serve_interrupt ft pf drv handlers clock irqid s = do {
     let (now, now1, now2) = clock;
     guard (irqid < 256);
     let vector = ucast irqid;
     let s1 = increment_irq_counter vector (irq_enter ft s);
     s2 \<leftarrow> run_queue (run_handler ft drv now) (case handlers vector of Some queue \<Rightarrow> queue | None \<Rightarrow> []) s1;
     k \<leftarrow> wake_pending_tasks now1 (irq_kernel s2);
     let s3 = s2\<lparr>irq_kernel := k\<rparr>;
     s4 \<leftarrow> (if pmr_coop_net ft then eoi_complete irqid s3 else Some (end_interrupt irqid s3));
     s5 \<leftarrow> irq_exit ft s4;
     if rt_nest_depth s5 = 0
     then do {
       (res, k1) \<leftarrow> scheduler id pf now2 False (irq_kernel s5);
       Some (res, s5\<lparr>irq_kernel := k1\<rparr>)
     }
     else Some (None, s5)
   }"

definition irq_acknowledge :: "features \<Rightarrow> u32 \<Rightarrow> irq_state \<Rightarrow> irq_state" where
  "irq_acknowledge ft irqid s =
     (let s1 = gic_acknowledge irqid s in if pmr_coop_net ft then eoi_inflight_inc s1 else s1)"

definition do_irq ::
    "features \<Rightarrow> platform \<Rightarrow> (irq_handler \<Rightarrow> irq_state \<Rightarrow> irq_state option) \<Rightarrow> handler_map \<Rightarrow> u64 \<times> u64 \<times> u64 \<Rightarrow> u32 option \<Rightarrow> irq_state \<Rightarrow>
     (tref option \<times> irq_state) option" where
  "do_irq ft pf drv handlers clock ack s =
     (case ack of
        None \<Rightarrow> Some (None, s)
      | Some irqid \<Rightarrow> serve_interrupt ft pf drv handlers clock irqid (irq_acknowledge ft irqid s))"

text \<open>\<open>do_fiq\<close> does not count the acknowledgement.\<close>

definition do_fiq ::
    "features \<Rightarrow> platform \<Rightarrow> (irq_handler \<Rightarrow> irq_state \<Rightarrow> irq_state option) \<Rightarrow> handler_map \<Rightarrow> u64 \<times> u64 \<times> u64 \<Rightarrow> u32 option \<Rightarrow> irq_state \<Rightarrow>
     (tref option \<times> irq_state) option" where
  "do_fiq ft pf drv handlers clock ack s =
     (case ack of
        None \<Rightarrow> Some (None, s)
      | Some irqid \<Rightarrow> serve_interrupt ft pf drv handlers clock irqid (gic_acknowledge irqid s))"

section \<open>The core between the handlers and the wake-up\<close>

text \<open>After the timer handler has cleared the slot of the scheduler, the timer need not cover the deadlines of the blocked tasks
  until the wake-up has programmed it again; everything else of the invariant holds.\<close>

definition sched_mid :: "platform \<Rightarrow> kernel \<Rightarrow> bool" where
  "sched_mid pf k \<longleftrightarrow> armed (cs_timers (k_sched k)) \<and> (\<exists>ts. sched_ok pf (with_sched (cs_timers_update (\<lambda>_. ts)) k))"

lemma sched_mid_ok: "sched_ok pf k \<Longrightarrow> sched_mid pf k"
  using timer_covers_armed [OF core_okD(5)]
  by (auto simp: sched_mid_def intro!: exI [of _ "cs_timers (k_sched k)"])

lemma core_ok_timers:
  assumes "core_ok base h s slots" and "timer_covers (cs_blocked s) ts"
  shows "core_ok base h (s\<lparr>cs_timers := ts\<rparr>) slots"
proof -
  have "live h (s\<lparr>cs_timers := ts\<rparr>) = live h s" by (simp add: live_def cong: if_cong)
  with assms show ?thesis by (simp add: core_ok_def)
qed

lemma wake_pending_mid:
  assumes mid: "sched_mid pf k"
  shows "\<exists>k'. wake_pending_tasks now k = Some k' \<and> sched_ok pf k' \<and> k_current k' = k_current k \<and> k_core k' = k_core k \<and>
    cs_blocked (k_sched k') = filter (\<lambda>n. \<not> elapsed now n) (cs_blocked (k_sched k)) \<and>
    ready_set (k_sched k') = ready_set (k_sched k) \<union> bt_task ` {n \<in> set (cs_blocked (k_sched k)). elapsed now n}"
proof -
  obtain ts where ok: "sched_ok pf (with_sched (cs_timers_update (\<lambda>_. ts)) k)" and arm: "armed (cs_timers (k_sched k))"
    using mid by (auto simp: sched_mid_def)
  let ?k = "with_sched (cs_timers_update (\<lambda>_. ts)) k"
  obtain k0 where k0: "wake_pending_tasks now ?k = Some k0" "sched_ok pf k0" "k_current k0 = k_current k" "k_core k0 = k_core k"
      "cs_blocked (k_sched k0) = filter (\<lambda>n. \<not> elapsed now n) (cs_blocked (k_sched k))"
      "ready_set (k_sched k0) = ready_set (k_sched k) \<union> bt_task ` {n \<in> set (cs_blocked (k_sched k)). elapsed now n}"
    using wake_pending_ok [OF ok, of now] by auto
  then obtain h q ts0 where w: "wake_nodes (k_core k) (k_store k) (filter (elapsed now) (cs_blocked (k_sched k))) (cs_ready (k_sched k)) = Some (h, q)"
      "k0 = ?k\<lparr>k_store := h, k_sched := (k_sched ?k)\<lparr>cs_blocked := filter (\<lambda>n. \<not> elapsed now n) (cs_blocked (k_sched k)), cs_timers := ts0, cs_ready := q\<rparr>\<rparr>"
    by (auto simp: wake_pending_tasks_def bq_handle_waiting_tasks_def Let_def split: bind_splits)
  have "by_wakeup (filter (\<lambda>n. \<not> elapsed now n) (cs_blocked (k_sched k)))"
    using core_okD(4) [OF k0(2)] by (simp add: bq_ok_def k0(5))
  from rearm_front_covers [OF arm this] obtain ts' where
    ts': "rearm_front (filter (\<lambda>n. \<not> elapsed now n) (cs_blocked (k_sched k))) (cs_timers (k_sched k)) = Some ts'"
      "timer_covers (filter (\<lambda>n. \<not> elapsed now n) (cs_blocked (k_sched k))) ts'" by blast
  let ?k' = "with_sched (cs_timers_update (\<lambda>_. ts')) k0"
  have "sched_ok pf ?k'" using core_ok_timers [OF k0(2)] ts'(2) by (simp add: k0(5))
  moreover have "wake_pending_tasks now k = Some ?k'"
    using w ts'(1) by (simp add: wake_pending_tasks_def bq_handle_waiting_tasks_def Let_def)
  ultimately show ?thesis using k0(3-6) by (intro exI [of _ ?k']) simp
qed

section \<open>Services\<close>

text \<open>What an interrupt path relies on of the pieces of code it calls: from a state that satisfies the invariant they return, keep
  the invariant and leave alone what the path has to find again. Sequences of such pieces are such pieces.\<close>

locale service =
  fixes inv :: "'s \<Rightarrow> bool" and kept :: "'s \<Rightarrow> 's \<Rightarrow> bool"
  assumes kept_refl: "kept s s" and kept_trans: "kept s s1 \<Longrightarrow> kept s1 s2 \<Longrightarrow> kept s s2"
begin

definition serves :: "('s \<Rightarrow> 's option) \<Rightarrow> bool" where
  "serves f \<longleftrightarrow> (\<forall>s. inv s \<longrightarrow> (\<exists>s'. f s = Some s' \<and> inv s' \<and> kept s s'))"

lemma servesD: "serves f \<Longrightarrow> inv s \<Longrightarrow> \<exists>s'. f s = Some s' \<and> inv s' \<and> kept s s'"
  by (simp add: serves_def)

lemma serves_queue:
  assumes "\<forall>handler \<in> set queue. serves (run handler)"
  shows "serves (run_queue run queue)"
  using assms
proof (induction queue)
  case Nil
  then show ?case by (simp add: serves_def kept_refl)
next
  case (Cons handler queue)
  have "\<exists>s'. run_queue run (handler # queue) s = Some s' \<and> inv s' \<and> kept s s'" if "inv s" for s
  proof -
    from Cons.prems that obtain s1 where s1: "run handler s = Some s1" "inv s1" "kept s s1" by (auto simp: serves_def)
    with Cons obtain s2 where "run_queue run queue s1 = Some s2" "inv s2" "kept s1 s2" by (auto simp: serves_def)
    with s1 kept_trans show ?thesis by auto
  qed
  then show ?case by (simp add: serves_def)
qed

end

text \<open>Inside an interrupt: the counters agree with the controller.\<close>

definition irq_inside :: "features \<Rightarrow> platform \<Rightarrow> irq_state \<Rightarrow> bool" where
  "irq_inside ft pf s \<longleftrightarrow> sched_mid pf (irq_kernel s) \<and> gic_active s \<noteq> [] \<and>
     rt_nest_depth s = (if pmr_band ft then length (gic_active s) else 0) \<and>
     eoi_inflight s = (if pmr_coop_net ft then length (gic_active s) else 0)"

definition irq_kept :: "irq_state \<Rightarrow> irq_state \<Rightarrow> bool" where
  "irq_kept s s' \<longleftrightarrow> gic_active s' = gic_active s \<and> rt_nest_depth s' = rt_nest_depth s \<and> eoi_inflight s' = eoi_inflight s \<and>
     gic_pmr s' = gic_pmr s \<and> k_current (irq_kernel s') = k_current (irq_kernel s)"

interpretation irq: service "irq_inside ft pf" irq_kept for ft pf
  by unfold_locales (auto simp: irq_kept_def)

section \<open>The handlers of the kernel\<close>

lemma coop_wake_serves: "irq.serves ft pf (\<lambda>s. Some (coop_wake_handler s))"
  by (simp add: irq.serves_def irq_inside_def irq_kept_def coop_wake_handler_def)

lemma rt_bridge_serves:
  assumes "\<not> debug_assertions ft"
  shows "irq.serves ft pf (rt_bridge_handler ft)"
  using assms
  by (simp add: irq.serves_def rt_bridge_handler_def pmr_raise_def pmr_drop_def wake_coop_future_def pend_sgi_to_self_def
      irq_inside_def irq_kept_def Let_def)

lemma timer_handler_mid:
  assumes mid: "sched_mid pf (irq_kernel s)" and set: "earliest (timers (cs_timers (k_sched (irq_kernel s)))) \<noteq> u64_max"
  shows "\<exists>ts. timer_handler now s = Some (s\<lparr>irq_kernel := with_sched (cs_timers_update (\<lambda>_. ts)) (irq_kernel s)\<rparr>) \<and>
    sched_mid pf (with_sched (cs_timers_update (\<lambda>_. ts)) (irq_kernel s))"
proof -
  from mid obtain ts0 where "armed (cs_timers (k_sched (irq_kernel s)))"
      "sched_ok pf (with_sched (cs_timers_update (\<lambda>_. ts0)) (irq_kernel s))" by (auto simp: sched_mid_def)
  with clear_active_ok [OF this(1) set, of now] show ?thesis
    by (auto simp: timer_handler_def sched_mid_def)
qed

text \<open>The handlers of a vector are in order: each of them is a service, or the vector is that of the timer, no driver shares it
  and a timer is set, which is when the hardware raises it.\<close>

definition handlers_ready ::
    "features \<Rightarrow> platform \<Rightarrow> (irq_handler \<Rightarrow> irq_state \<Rightarrow> irq_state option) \<Rightarrow> handler_map \<Rightarrow> u64 \<Rightarrow> u32 \<Rightarrow> kernel \<Rightarrow> bool" where
  "handlers_ready ft pf drv handlers now irqid k =
     (case handlers (ucast irqid) of
        None \<Rightarrow> True
      | Some queue \<Rightarrow>
          (\<forall>handler \<in> set queue. irq.serves ft pf (run_handler ft drv now handler)) \<or>
          queue = [Timer_Handler] \<and> earliest (timers (cs_timers (k_sched k))) \<noteq> u64_max)"

lemma queue_runs:
  assumes ready: "handlers_ready ft pf drv handlers now irqid (irq_kernel s)" and inside: "irq_inside ft pf s"
  shows "\<exists>s'. run_queue (run_handler ft drv now) (case handlers (ucast irqid) of Some queue \<Rightarrow> queue | None \<Rightarrow> []) s = Some s' \<and>
    irq_inside ft pf s' \<and> irq_kept s s'"
proof (cases "handlers (ucast irqid)")
  case None
  with inside show ?thesis by (simp add: irq.kept_refl)
next
  case (Some queue)
  show ?thesis
  proof (cases "\<forall>handler \<in> set queue. irq.serves ft pf (run_handler ft drv now handler)")
    case True
    from irq.servesD [OF irq.serves_queue [OF this] inside] Some show ?thesis by simp
  next
    case False
    with ready Some have q: "queue = [Timer_Handler]" "earliest (timers (cs_timers (k_sched (irq_kernel s)))) \<noteq> u64_max"
      by (auto simp: handlers_ready_def)
    from timer_handler_mid [OF _ this(2), of pf now] inside obtain ts where
      "timer_handler now s = Some (s\<lparr>irq_kernel := with_sched (cs_timers_update (\<lambda>_. ts)) (irq_kernel s)\<rparr>)"
      "sched_mid pf (with_sched (cs_timers_update (\<lambda>_. ts)) (irq_kernel s))" by (auto simp: irq_inside_def)
    with inside q Some show ?thesis by (simp add: run_handler_def irq_inside_def irq_kept_def)
  qed
qed

section \<open>Serving an interrupt\<close>

text \<open>What an interrupt leaves behind: the controller and the counters as before it was taken, no expired task blocked, and the core
  consistent.\<close>

definition irq_served :: "features \<Rightarrow> platform \<Rightarrow> u64 \<Rightarrow> u32 list \<Rightarrow> irq_state \<Rightarrow> irq_state \<Rightarrow> bool" where
  "irq_served ft pf now old s s' \<longleftrightarrow> gic_active s' = old \<and> gic_pmr s' = gic_pmr s \<and>
     rt_nest_depth s' = (if pmr_band ft then length old else 0) \<and>
     eoi_inflight s' = (if pmr_coop_net ft then length old else 0) \<and> sched_ok pf (irq_kernel s') \<and>
     (\<forall>n \<in> set (cs_blocked (k_sched (irq_kernel s'))). \<not> elapsed now n)"

lemma serve_interrupt_middle:
  assumes mid: "sched_mid pf (irq_kernel s)" and active: "gic_active s = irqid # old"
    and depth: "rt_nest_depth s = (if pmr_band ft then length old else 0)"
    and inflight: "eoi_inflight s = (if pmr_coop_net ft then Suc (length old) else 0)"
    and small: "irqid < 256" and ready: "handlers_ready ft pf drv handlers now irqid (irq_kernel s)"
  shows "\<exists>s5. serve_interrupt ft pf drv handlers (now, now1, now2) irqid s =
      (if rt_nest_depth s5 = 0
       then do { (res, k1) \<leftarrow> scheduler id pf now2 False (irq_kernel s5); Some (res, s5\<lparr>irq_kernel := k1\<rparr>) }
       else Some (None, s5)) \<and>
    irq_served ft pf now1 old s s5 \<and> k_current (irq_kernel s5) = k_current (irq_kernel s)"
proof -
  let ?s1 = "increment_irq_counter (ucast irqid) (irq_enter ft s)"
  have s1: "irq_kernel ?s1 = irq_kernel s" "gic_active ?s1 = gic_active s" "gic_pmr ?s1 = gic_pmr s" "eoi_inflight ?s1 = eoi_inflight s"
      "rt_nest_depth ?s1 = (if pmr_band ft then Suc (length old) else 0)"
    using depth by (simp_all add: increment_irq_counter_def irq_enter_def inc_rt_nest_depth_def)
  then have "irq_inside ft pf ?s1" "handlers_ready ft pf drv handlers now irqid (irq_kernel ?s1)"
    using mid active inflight ready by (simp_all add: irq_inside_def)
  from queue_runs [OF this(2,1)] obtain s2 where
    s2: "run_queue (run_handler ft drv now) (case handlers (ucast irqid) of Some queue \<Rightarrow> queue | None \<Rightarrow> []) ?s1 = Some s2"
      "irq_inside ft pf s2" "irq_kept ?s1 s2" by blast
  then obtain k where k: "wake_pending_tasks now1 (irq_kernel s2) = Some k" "sched_ok pf k" "k_current k = k_current (irq_kernel s)"
      "\<forall>n \<in> set (cs_blocked (k_sched k)). \<not> elapsed now1 n"
    using wake_pending_mid [of pf "irq_kernel s2" now1] s1 by (auto simp: irq_inside_def irq_kept_def)
  let ?s3 = "s2\<lparr>irq_kernel := k\<rparr>"
  define s4 where "s4 = (end_interrupt irqid ?s3)\<lparr>eoi_inflight := (if pmr_coop_net ft then length old else 0)\<rparr>"
  have f2: "gic_active s2 = irqid # old" "eoi_inflight s2 = eoi_inflight s" "gic_pmr s2 = gic_pmr s"
      "rt_nest_depth s2 = (if pmr_band ft then Suc (length old) else 0)"
    using s2(3) s1 active by (auto simp: irq_kept_def)
  have s4: "(if pmr_coop_net ft then eoi_complete irqid ?s3 else Some (end_interrupt irqid ?s3)) = Some s4"
    using f2 inflight by (simp add: s4_def eoi_complete_def eoi_inflight_dec_def end_interrupt_def)
  define s5 where "s5 = (if pmr_band ft then s4\<lparr>in_irq := False, rt_nest_depth := length old\<rparr> else s4)"
  have s5: "irq_exit ft s4 = Some s5"
    using f2 by (simp add: s5_def s4_def irq_exit_def dec_rt_nest_depth_def end_interrupt_def)
  have "irq_served ft pf now1 old s s5" "k_current (irq_kernel s5) = k_current (irq_kernel s)"
    using k f2 by (simp_all add: irq_served_def s5_def s4_def end_interrupt_def)
  moreover have "serve_interrupt ft pf drv handlers (now, now1, now2) irqid s =
      (if rt_nest_depth s5 = 0
       then do { (res, k1) \<leftarrow> scheduler id pf now2 False (irq_kernel s5); Some (res, s5\<lparr>irq_kernel := k1\<rparr>) }
       else Some (None, s5))"
    using small s2(1) k(1) s4 s5 by (simp add: serve_interrupt_def Let_def)
  ultimately show ?thesis by blast
qed

lemma serve_outermost:
  assumes "sched_mid pf (irq_kernel s)" and "gic_active s = irqid # old" and outer: "\<not> pmr_band ft \<or> old = []"
    and "rt_nest_depth s = (if pmr_band ft then length old else 0)"
    and "eoi_inflight s = (if pmr_coop_net ft then Suc (length old) else 0)"
    and "irqid < 256" and "handlers_ready ft pf drv handlers now irqid (irq_kernel s)"
  shows "\<exists>res s'. serve_interrupt ft pf drv handlers (now, now1, now2) irqid s = Some (res, s') \<and> irq_served ft pf now1 old s s' \<and>
    (\<forall>r \<in> ready_set (k_sched (irq_kernel s')).
       t_prio (k_store (irq_kernel s') r) \<le> t_prio (k_store (irq_kernel s') (k_current (irq_kernel s')))) \<and>
    res = (if k_current (irq_kernel s') = k_current (irq_kernel s) then None else Some (k_current (irq_kernel s)))"
proof -
  obtain s5 where s5: "serve_interrupt ft pf drv handlers (now, now1, now2) irqid s =
      (if rt_nest_depth s5 = 0
       then do { (res, k1) \<leftarrow> scheduler id pf now2 False (irq_kernel s5); Some (res, s5\<lparr>irq_kernel := k1\<rparr>) }
       else Some (None, s5))"
      "irq_served ft pf now1 old s s5" "k_current (irq_kernel s5) = k_current (irq_kernel s)"
    using serve_interrupt_middle [OF assms(1,2,4-7)] by blast
  let ?k = "irq_kernel s5" and ?n = "next_task (k_store (irq_kernel s5)) (k_sched (irq_kernel s5))"
  have ok: "sched_ok pf ?k" using s5(2) by (simp add: irq_served_def)
  from scheduler_ok [OF ok, of id now2] obtain k1 where
    k1: "scheduler id pf now2 False ?k = Some (case ?n of None \<Rightarrow> None | Some r \<Rightarrow> if r = k_current ?k then None else Some (k_current ?k), k1)"
      "sched_ok pf k1" "scheduled ?k k1" "cs_blocked (k_sched k1) = cs_blocked (k_sched ?k)"
      "\<forall>x. t_prio (k_store k1 x) = t_prio (k_store ?k x)" by blast
  have res: "(case ?n of None \<Rightarrow> None | Some r \<Rightarrow> if r = k_current ?k then None else Some (k_current ?k)) =
      (if k_current k1 = k_current ?k then None else Some (k_current ?k))"
    using k1(3) by (cases ?n) (simp_all add: scheduled_def Let_def)
  have "rt_nest_depth s5 = 0" using s5(2) outer by (auto simp: irq_served_def)
  with s5(1) k1(1) res have "serve_interrupt ft pf drv handlers (now, now1, now2) irqid s =
      Some (if k_current k1 = k_current ?k then None else Some (k_current ?k), s5\<lparr>irq_kernel := k1\<rparr>)" by simp
  moreover have "irq_served ft pf now1 old s (s5\<lparr>irq_kernel := k1\<rparr>)"
    using s5(2) k1(2,4) by (simp add: irq_served_def)
  ultimately show ?thesis
    using scheduled_urgent [OF ok k1(3,5)] s5(3)
    by (intro exI [of _ "if k_current k1 = k_current ?k then None else Some (k_current ?k)"] exI [of _ "s5\<lparr>irq_kernel := k1\<rparr>"]) simp
qed

lemma irq_acknowledge_simps:
  "irq_kernel (irq_acknowledge ft irqid s) = irq_kernel s" "gic_active (irq_acknowledge ft irqid s) = irqid # gic_active s"
  "rt_nest_depth (irq_acknowledge ft irqid s) = rt_nest_depth s" "gic_pmr (irq_acknowledge ft irqid s) = gic_pmr s"
  "eoi_inflight (irq_acknowledge ft irqid s) = (if pmr_coop_net ft then Suc (eoi_inflight s) else eoi_inflight s)"
  by (simp_all add: irq_acknowledge_def Let_def gic_acknowledge_def eoi_inflight_inc_def)

section \<open>Properties\<close>


text \<open>C4: Nested interrupts (feature \<open>pmr-band\<close>). An interrupt that arrives while another one is being handled returns
  without switching tasks, whatever it made ready, and leaves counters, controller and priority mask as it found them; so the
  interrupted handler continues on the same task, and an interrupt is itself a service that handlers may be interleaved with.\<close>

theorem nested_interrupt_does_not_switch:
  assumes "pmr_band ft" and inside: "irq_inside ft pf s"
    and "irqid < 256" and "handlers_ready ft pf drv handlers now irqid (irq_kernel s)"
  shows "\<exists>s'. do_irq ft pf drv handlers (now, now1, now2) (Some irqid) s = Some (None, s') \<and> irq_inside ft pf s' \<and> irq_kept s s'"
proof -
  note e = irq_acknowledge_simps [of ft irqid s]
  let ?a = "irq_acknowledge ft irqid s"
  have mid: "sched_mid pf (irq_kernel ?a)" and act: "gic_active ?a = irqid # gic_active s"
    and dep: "rt_nest_depth ?a = (if pmr_band ft then length (gic_active s) else 0)"
    and inf: "eoi_inflight ?a = (if pmr_coop_net ft then Suc (length (gic_active s)) else 0)"
    and ready: "handlers_ready ft pf drv handlers now irqid (irq_kernel ?a)"
    using assms by (simp_all add: e irq_inside_def)
  from serve_interrupt_middle [OF mid act dep inf assms(3) ready, of now1 now2] obtain s5 where
    s5: "serve_interrupt ft pf drv handlers (now, now1, now2) irqid (irq_acknowledge ft irqid s) =
      (if rt_nest_depth s5 = 0
       then do { (res, k1) \<leftarrow> scheduler id pf now2 False (irq_kernel s5); Some (res, s5\<lparr>irq_kernel := k1\<rparr>) }
       else Some (None, s5))"
      "irq_served ft pf now1 (gic_active s) (irq_acknowledge ft irqid s) s5" "k_current (irq_kernel s5) = k_current (irq_kernel s)"
    unfolding e by blast
  have "irq_inside ft pf s5" "irq_kept s s5" "rt_nest_depth s5 \<noteq> 0"
    using s5(2,3) assms(1) inside by (auto simp: irq_served_def irq_kept_def irq_inside_def e sched_mid_ok)
  with s5(1) show ?thesis by (auto simp: do_irq_def)
qed

text \<open>A fast interrupt (feature \<open>pmr-coop-net\<close>). \<open>do_fiq\<close> completes the interrupt as if its acknowledgement had been counted, which it
  is not: from thread mode the counter is 0 and the kernel panics, whatever the handlers do.\<close>

lemma fiq_panics_under_split_completion:
  assumes "pmr_coop_net ft" and "eoi_inflight s = 0"
    and "\<And>s1 s2. run_queue (run_handler ft drv now) (case handlers (ucast irqid) of Some queue \<Rightarrow> queue | None \<Rightarrow> []) s1 = Some s2 \<Longrightarrow>
        eoi_inflight s2 = eoi_inflight s1"
  shows "do_fiq ft pf drv handlers (now, now1, now2) (Some irqid) s = None"
proof -
  let ?s1 = "increment_irq_counter (ucast irqid) (irq_enter ft (gic_acknowledge irqid s))"
  have "eoi_inflight ?s1 = 0"
    using assms(2) by (simp add: increment_irq_counter_def irq_enter_def inc_rt_nest_depth_def gic_acknowledge_def)
  then have "eoi_complete irqid (s2\<lparr>irq_kernel := k\<rparr>) = None"
    if "run_queue (run_handler ft drv now) (case handlers (ucast irqid) of Some queue \<Rightarrow> queue | None \<Rightarrow> []) ?s1 = Some s2" for s2 k
    using assms(3) [OF that] by (simp add: eoi_complete_def eoi_inflight_dec_def end_interrupt_def)
  with assms(1) show ?thesis
    by (auto simp: do_fiq_def serve_interrupt_def Let_def split: bind_splits)
qed

text \<open>The handler of the bridge between the bands panics in builds with debug assertions: the guard checks on drop that the mask still has the value
  it had before the guard itself changed it.\<close>

lemma rt_bridge_panics: "debug_assertions ft \<Longrightarrow> gic_pmr s \<noteq> 0x20 \<Longrightarrow> rt_bridge_handler ft s = None"
  by (auto simp: rt_bridge_handler_def pmr_raise_def pmr_drop_def wake_coop_future_def pend_sgi_to_self_def Let_def guard_def)

text \<open>The example core, with the handlers of a machine whose timer is private interrupt 11 and whose UART is shared interrupt 1.\<close>

definition demo_irq :: "u32 list \<Rightarrow> nat \<Rightarrow> irq_state" where
  "demo_irq active depth = \<lparr>irq_kernel = demo_kernel, rt_nest_depth = depth, in_irq = (0 < depth), eoi_inflight = 0, gic_active = active,
     gic_pmr = 0xff, sgi_pending = [], irq_counters = (\<lambda>_. 0), coop_wake_pending = False, coop_triggered = False,
     band_waker = False, coop_woken = 0\<rparr>"

definition demo_features :: "bool \<Rightarrow> features" where
  "demo_features band = \<lparr>pmr_band = band, pmr_coop_net = False, debug_assertions = False\<rparr>"

lemma demo_handlers:
  "\<exists>m. install_handlers (demo_features band) 11 1 [] = Some m \<and> m 27 = Some [Timer_Handler] \<and>
     (band \<longrightarrow> m 13 = Some [Coop_Wake_Handler])"
  by (auto simp: install_handlers_def demo_features_def push_handler_def PPI_START_def SPI_START_def SGI_COOP_WAKE_def SGI_RT_BRIDGE_def
      guard_def Let_def)


theorem nested_interrupt_does_not_switch_witness:
  "\<exists>m s'. install_handlers (demo_features True) 11 1 [] = Some m \<and>
     do_irq (demo_features True) demo_platform (\<lambda>_. Some) m (501, 501, 502) (Some 13) (demo_irq [27] 1) = Some (None, s') \<and>
     gic_active s' = [27] \<and> k_current (irq_kernel s') = 1"
proof -
  obtain m where m: "install_handlers (demo_features True) 11 1 [] = Some m" "m 13 = Some [Coop_Wake_Handler]"
    using demo_handlers [of True] by auto
  have "irq.serves (demo_features True) demo_platform (run_handler (demo_features True) (\<lambda>_. Some) 501 Coop_Wake_Handler)"
    using coop_wake_serves [of "demo_features True" demo_platform] by (simp add: run_handler_def [abs_def])
  then have r: "handlers_ready (demo_features True) demo_platform (\<lambda>_. Some) m 501 13 demo_kernel"
    using m(2) by (simp add: handlers_ready_def)
  have i: "irq_inside (demo_features True) demo_platform (demo_irq [27] 1)"
    using sched_mid_ok [OF demo_kernel_ok] by (simp add: irq_inside_def demo_irq_def demo_features_def)
  have k: "irq_kernel (demo_irq [27] 1) = demo_kernel" "gic_active (demo_irq [27] 1) = [27]" "k_current demo_kernel = 1" "pmr_band (demo_features True)"
    by (simp_all add: demo_irq_def demo_features_def demo_kernel_def demo_core_def)
  obtain s' where "do_irq (demo_features True) demo_platform (\<lambda>_. Some) m (501, 501, 502) (Some 13) (demo_irq [27] 1) = Some (None, s')"
      "irq_kept (demo_irq [27] 1) s'"
    using nested_interrupt_does_not_switch [OF k(4) i, of 13 "\<lambda>_. Some" m 501 501 502] r k(1) by auto
  with m(1) k show ?thesis by (auto simp: irq_kept_def)
qed

end
