(* ===== verification/Event_Fd.thy ===== *)
theory Event_Fd
  imports Errno Mem_Fs
begin

text \<open>
  Event descriptors (\<^verbatim>\<open>src/fd/eventfd.rs\<close>): a counter with the wakers of the tasks that wait to read and to write it.
  Each operation is one poll of its future: it is ready with a result or pending, and it may wake wakers.
\<close>

unbundle bit_operations_syntax

section \<open>State and operations\<close>

type_synonym waker = nat

record event_state =
  ev_counter :: u64
  ev_read_queue :: "waker list"
  ev_write_queue :: "waker list"

record event_fd =
  ev_state :: event_state
  ev_flags :: "16 word"

definition EFD_SEMAPHORE :: "16 word" where
  "EFD_SEMAPHORE = 1"

definition EFD_NONBLOCK :: "16 word" where
  "EFD_NONBLOCK = 0x800"

definition event_fd_new :: "u64 \<Rightarrow> 16 word \<Rightarrow> event_fd" where
  "event_fd_new initval flags = \<lparr>ev_state = \<lparr>ev_counter = initval, ev_read_queue = [], ev_write_queue = []\<rparr>, ev_flags = flags\<rparr>"

datatype 'a poll = Poll_Ready 'a | Poll_Pending

definition ev_has :: "16 word \<Rightarrow> event_fd \<Rightarrow> bool" where
  "ev_has flag e \<longleftrightarrow> ev_flags e AND flag = flag"

text \<open>The result of one poll, the wakers it wakes, and the new state.\<close>

type_synonym 'a polled = "'a io_result poll \<times> waker list \<times> event_state"

definition ev_wait_read :: "waker \<Rightarrow> event_state \<Rightarrow> 'a polled" where
  "ev_wait_read w st = (Poll_Pending, [], st\<lparr>ev_read_queue := ev_read_queue st @ [w]\<rparr>)"

definition ev_wait_write :: "waker \<Rightarrow> event_state \<Rightarrow> 'a polled" where
  "ev_wait_write w st = (Poll_Pending, [], st\<lparr>ev_write_queue := ev_write_queue st @ [w]\<rparr>)"

text \<open>\<open>read\<close> gives the value that is written to the buffer in native byte order.\<close>

definition event_read :: "nat \<Rightarrow> waker \<Rightarrow> event_fd \<Rightarrow> u64 polled" where
  "event_read buf_len w e =
     (let st = ev_state e in
      if buf_len < 8 then (Poll_Ready (Inl Inval), [], st)
      else if ev_has EFD_SEMAPHORE e
      then if 0 < ev_counter st
           then (Poll_Ready (Inr 1), take 1 (ev_write_queue st),
                 st\<lparr>ev_counter := ev_counter st - 1, ev_write_queue := drop 1 (ev_write_queue st)\<rparr>)
           else ev_wait_read w st
      else let tmp = ev_counter st in
           if 0 < tmp
           then (Poll_Ready (Inr tmp), take 1 (ev_read_queue st),
                 st\<lparr>ev_counter := 0, ev_read_queue := drop 1 (ev_read_queue st)\<rparr>)
           else if ev_has EFD_NONBLOCK e then (Poll_Ready (Inl Again), [], st)
           else ev_wait_read w st)"

text \<open>\<open>write\<close> of the value \<open>c\<close>, the first eight bytes of the buffer.\<close>

definition event_write :: "nat \<Rightarrow> u64 \<Rightarrow> waker \<Rightarrow> event_fd \<Rightarrow> nat polled" where
  "event_write buf_len c w e =
     (let st = ev_state e in
      if buf_len < 8 then (Poll_Ready (Inl Inval), [], st)
      else if c < u64_max - ev_counter st
      then let st1 = st\<lparr>ev_counter := ev_counter st + c\<rparr>;
               n = (if ev_has EFD_SEMAPHORE e then unat c else length (ev_read_queue st))
           in (Poll_Ready (Inr 8), take n (ev_read_queue st), st1\<lparr>ev_read_queue := drop n (ev_read_queue st)\<rparr>)
      else if ev_has EFD_NONBLOCK e then (Poll_Ready (Inl Again), [], st)
      else ev_wait_write w st)"

definition event_poll :: "16 word \<Rightarrow> waker \<Rightarrow> event_fd \<Rightarrow> 16 word polled" where
  "event_poll event w e =
     (let st = ev_state e;
          available = (if ev_counter st < u64_max - 1 then POLL_WRITE else 0) OR (if 0 < ev_counter st then POLL_READ else 0);
          ret = event AND available
      in if ret = 0
         then if event AND (0x1 OR 0x40 OR 0x40) \<noteq> 0 then ev_wait_read w st
              else if event AND POLL_WRITE \<noteq> 0 then ev_wait_write w st
              else (Poll_Ready (Inr ret), [], st)
         else (Poll_Ready (Inr ret), [], st))"

section \<open>Histories\<close>

text \<open>A run of operations: the sum of the values written, the sum of the values read, the wakers that came with reads and
  polls, and the wakers woken.\<close>

inductive event_runs :: "event_fd \<Rightarrow> nat \<Rightarrow> nat \<Rightarrow> waker list \<Rightarrow> waker list \<Rightarrow> event_fd \<Rightarrow> bool" for e0 where
  ev_start: "event_runs e0 0 0 [] [] e0"
| ev_read: "event_runs e0 wr rd rs wk e \<Longrightarrow> event_read n w e = (r, woken, st) \<Longrightarrow>
    event_runs e0 wr (rd + (case r of Poll_Ready (Inr v) \<Rightarrow> unat v | _ \<Rightarrow> 0)) (w # rs) (wk @ woken) (e\<lparr>ev_state := st\<rparr>)"
| ev_write: "event_runs e0 wr rd rs wk e \<Longrightarrow> event_write n c w e = (r, woken, st) \<Longrightarrow>
    event_runs e0 (wr + (case r of Poll_Ready (Inr _) \<Rightarrow> unat c | _ \<Rightarrow> 0)) rd rs (wk @ woken) (e\<lparr>ev_state := st\<rparr>)"
| ev_poll: "event_runs e0 wr rd rs wk e \<Longrightarrow> event_poll ev w e = (r, woken, st) \<Longrightarrow>
    event_runs e0 wr rd (w # rs) (wk @ woken) (e\<lparr>ev_state := st\<rparr>)"

lemmas event_op_defs = event_read_def event_write_def event_poll_def ev_wait_read_def ev_wait_write_def Let_def

text \<open>The additions of \<open>write\<close> do not wrap around.\<close>

lemma write_no_wrap:
  fixes x c :: u64
  assumes "c < u64_max - x"
  shows "unat (x + c) = unat x + unat c"
proof -
  have "unat (u64_max - x) = unat (u64_max :: u64) - unat x" by (simp add: unat_sub)
  moreover have "unat c < unat (u64_max - x)" using assms by (simp add: word_less_nat_alt)
  ultimately have "unat x + unat c < unat (u64_max :: u64)" by linarith
  then have "unat x + unat c < 2 ^ 64" by (simp add: unsigned_minus_1_eq_mask mask_eq_exp_minus_1)
  then show ?thesis by (simp add: unat_word_ariths)
qed

lemma event_runs_flags: "event_runs e0 wr rd rs wk e \<Longrightarrow> ev_flags e = ev_flags e0"
  by (induction rule: event_runs.induct) simp_all

text \<open>What each operation does to the counter and to the queue of writers.\<close>

lemma unat_pred: "0 < x \<Longrightarrow> Suc (unat (x - 1)) = unat x" for x :: u64
  using unat_minus_one [of x] by (simp add: word_gt_0 unat_gt_0 Suc_leI)

lemma event_read_counter:
  "event_read n w e = (r, woken, st) \<Longrightarrow>
   unat (ev_counter st) + (case r of Poll_Ready (Inr v) \<Rightarrow> unat v | _ \<Rightarrow> 0) = unat (ev_counter (ev_state e))"
  by (auto simp: event_read_def ev_wait_read_def Let_def unat_pred split: if_split_asm)

lemma event_write_counter:
  "event_write n c w e = (r, woken, st) \<Longrightarrow>
   unat (ev_counter st) = unat (ev_counter (ev_state e)) + (case r of Poll_Ready (Inr _) \<Rightarrow> unat c | _ \<Rightarrow> 0)"
  by (auto simp: event_write_def ev_wait_write_def Let_def write_no_wrap split: if_split_asm)

lemma event_poll_counter: "event_poll ev w e = (r, woken, st) \<Longrightarrow> ev_counter st = ev_counter (ev_state e)"
  by (auto simp: event_poll_def ev_wait_write_def ev_wait_read_def Let_def split: if_split_asm)

definition waits_to_write :: "waker \<Rightarrow> event_state \<Rightarrow> bool" where
  "waits_to_write w st \<longleftrightarrow> w \<in> set (ev_write_queue st) \<and> w \<notin> set (ev_read_queue st)"

lemma event_read_writers:
  "event_read n v e = (r, woken, st) \<Longrightarrow> \<not> ev_has EFD_SEMAPHORE e \<Longrightarrow> waits_to_write w (ev_state e) \<Longrightarrow> w \<noteq> v \<Longrightarrow>
   waits_to_write w st \<and> w \<notin> set woken"
  by (auto simp: event_read_def ev_wait_read_def waits_to_write_def Let_def split: if_split_asm dest: in_set_takeD in_set_dropD)

lemma event_write_writers:
  "event_write n c v e = (r, woken, st) \<Longrightarrow> waits_to_write w (ev_state e) \<Longrightarrow> waits_to_write w st \<and> w \<notin> set woken"
  by (auto simp: event_write_def ev_wait_write_def waits_to_write_def Let_def split: if_split_asm dest: in_set_takeD in_set_dropD)

lemma event_poll_writers:
  "event_poll ev v e = (r, woken, st) \<Longrightarrow> waits_to_write w (ev_state e) \<Longrightarrow> w \<noteq> v \<Longrightarrow> waits_to_write w st \<and> w \<notin> set woken"
  by (auto simp: event_poll_def ev_wait_write_def ev_wait_read_def waits_to_write_def Let_def split: if_split_asm)

section \<open>Properties\<close>

text \<open>C39: The counter of an event descriptor. After every sequence of reads, writes and polls the counter is the initial value
  plus what was written minus what was read: no update is lost and no addition wraps around.\<close>

theorem event_counter_conserved:
  assumes "event_runs e0 wr rd rs wk e"
  shows "unat (ev_counter (ev_state e)) + rd = unat (ev_counter (ev_state e0)) + wr"
  using assms
proof (induction rule: event_runs.induct)
  case (ev_read wr rd rs wk e n w r woken st)
  then show ?case using event_read_counter [OF ev_read.hyps(2)] by simp
next
  case (ev_write wr rd rs wk e n c w r woken st)
  then show ?case using event_write_counter [OF ev_write.hyps(2)] by simp
next
  case (ev_poll wr rd rs wk e ev w r woken st)
  then show ?case using event_poll_counter [OF ev_poll.hyps(2)] by simp
qed simp

theorem event_counter_conserved_witness:
  "\<exists>rs wk e. event_runs (event_fd_new 3 0) 4 7 rs wk e \<and> ev_counter (ev_state e) = 0"
proof -
  let ?e0 = "event_fd_new 3 0" and ?e1 = "event_fd_new 7 0" and ?e2 = "event_fd_new 0 0"
  have w: "event_write 8 4 1 ?e0 = (Poll_Ready (Inr 8), [], ev_state ?e1)" and r: "event_read 8 2 ?e1 = (Poll_Ready (Inr 7), [], ev_state ?e2)"
    by (simp_all add: event_op_defs event_fd_new_def ev_has_def EFD_SEMAPHORE_def)
  have e: "?e0\<lparr>ev_state := ev_state ?e1\<rparr> = ?e1" "?e1\<lparr>ev_state := ev_state ?e2\<rparr> = ?e2" by (simp_all add: event_fd_new_def)
  have "event_runs ?e0 4 0 [] [] ?e1" using event_runs.ev_write [OF event_runs.ev_start w] by (simp add: e)
  from event_runs.ev_read [OF this r] have run: "event_runs ?e0 4 7 [2] [] ?e2" by (simp add: e)
  from event_counter_conserved [OF run] have "ev_counter (ev_state ?e2) = 0" by (simp add: event_fd_new_def)
  with run show ?thesis by blast
qed

text \<open>C40: A writer that waits for room in a descriptor without \<open>EFD_SEMAPHORE\<close> is never woken. Whatever operations follow, also reads
  that empty the counter, its waker stays in the queue of writers and is not among the wakers woken: a read wakes the
  next reader instead.\<close>

theorem blocked_writer_never_woken:
  assumes run: "event_runs e0 wr rd rs wk e" and mode: "\<not> ev_has EFD_SEMAPHORE e0"
    and w: "w \<in> set (ev_write_queue (ev_state e0))" "w \<notin> set (ev_read_queue (ev_state e0))" "w \<notin> set rs"
  shows "w \<in> set (ev_write_queue (ev_state e)) \<and> w \<notin> set wk"
proof -
  have "waits_to_write w (ev_state e) \<and> w \<notin> set wk"
    using run w(3)
  proof (induction rule: event_runs.induct)
    case ev_start
    with w show ?case by (simp add: waits_to_write_def)
  next
    case (ev_read wr rd rs wk e n v r woken st)
    with mode event_runs_flags [OF ev_read.hyps(1)] show ?case
      using event_read_writers [OF ev_read.hyps(2)] by (simp add: ev_has_def)
  next
    case (ev_write wr rd rs wk e n c v r woken st)
    then show ?case using event_write_writers [OF ev_write.hyps(2)] by simp
  next
    case (ev_poll wr rd rs wk e ev v r woken st)
    then show ?case using event_poll_writers [OF ev_poll.hyps(2)] by simp
  qed
  then show ?thesis by (simp add: waits_to_write_def)
qed

text \<open>Witness: the counter is full, writer 1 waits, and a read empties the counter.\<close>

theorem blocked_writer_never_woken_witness:
  "\<exists>e1 e2 wk. event_write 8 5 1 (event_fd_new (u64_max - 1) 0) = (Poll_Pending, [], ev_state e1) \<and>
     event_runs e1 0 (unat (u64_max - 1 :: u64)) [2] wk e2 \<and> ev_counter (ev_state e2) = 0 \<and> 1 \<in> set (ev_write_queue (ev_state e2)) \<and> 1 \<notin> set wk"
proof -
  let ?s = "\<lambda>c. \<lparr>ev_counter = c, ev_read_queue = [], ev_write_queue = [1]\<rparr>"
  let ?e1 = "\<lparr>ev_state = ?s (u64_max - 1), ev_flags = 0\<rparr>" and ?e2 = "\<lparr>ev_state = ?s 0, ev_flags = 0\<rparr>"
  have a: "event_write 8 5 1 (event_fd_new (u64_max - 1) 0) = (Poll_Pending, [], ev_state ?e1)"
    and r: "event_read 8 2 ?e1 = (Poll_Ready (Inr (u64_max - 1)), [], ?s 0)"
    by (simp_all add: event_op_defs event_fd_new_def ev_has_def EFD_SEMAPHORE_def EFD_NONBLOCK_def word_gt_0)
  have run: "event_runs ?e1 0 (unat (u64_max - 1 :: u64)) [2] [] ?e2"
    using event_runs.ev_read [OF event_runs.ev_start r] by simp
  from blocked_writer_never_woken [OF run, of 1] a run show ?thesis
    by (intro exI [of _ ?e1] exI [of _ ?e2] exI [of _ "[]"]) (simp add: ev_has_def EFD_SEMAPHORE_def)
qed

end
