(* ===== verification/Continuations.thy ===== *)
theory Continuations
  imports Task_Frame Errno
begin

text \<open>
  Stackful continuations (\<^verbatim>\<open>src/arch/aarch64/kernel/continuations.rs\<close>): the pool of records, spawning, parking, waking, the time quantum
  with its escape, the drain that resumes a continuation, and the futex table. The switch of registers at the end of most operations
  is \<open>cont_switch\<close>, modelled in the theory \<open>Cont_Switch\<close>; here an operation ends with the arguments of the switch in place. A pointer to a
  record is its index in the pool, the null pointer is \<^const>\<open>None\<close>. The debug assertions of \<open>spawn_continuation\<close> that the boot is complete
  hold whenever the idle loop runs and are left out.
\<close>

unbundle bit_operations_syntax

section \<open>Data\<close>

datatype c_state = C_FREE | C_READY | C_RUNNING | C_PARKED | C_ESCAPED

definition MAX_CONTINUATIONS :: nat where
  "MAX_CONTINUATIONS = 128"

definition CONT_STACK_SIZE :: u64 where
  "CONT_STACK_SIZE = 0x8000"

definition CONT_GUARD :: u64 where
  "CONT_GUARD = 0x1000"

definition CONT_SLOT_SIZE :: u64 where
  "CONT_SLOT_SIZE = 0x10000"

definition CONT_SLOT_GUARD :: u64 where
  "CONT_SLOT_GUARD = 0x1000"

definition CONT_TLS_MAGIC :: u64 where
  "CONT_TLS_MAGIC = 0xC0DEC7E7"

definition QUANTUM_CYCLES :: u64 where
  "QUANTUM_CYCLES = 8000000"

definition MAX_FUTEX_WAITERS :: nat where
  "MAX_FUTEX_WAITERS = 128"

lemma cont_constants [simp]: "MAX_CONTINUATIONS = 128" "MAX_FUTEX_WAITERS = 128"
  by (simp_all add: MAX_CONTINUATIONS_def MAX_FUTEX_WAITERS_def)

record cont =
  state_frame :: u64
  c_slot_top :: u64
  c_tls :: u64
  c_state :: c_state
  pending_wake :: bool
  c_entry :: u64
  resumer_frame :: u64
  resumer_slot :: u64
  escape_frame :: u64
  quantum_armed :: bool
  user_func :: u64
  user_arg :: u64
  owned_fd :: "int option"

text \<open>The floating-point registers and their pooled save area.\<close>

record fp_regs =
  fp_q :: "nat \<Rightarrow> 128 word"
  fp_sr :: u64
  fp_cr :: u64

text \<open>\<open>CONT_SWITCH\<close>, the arguments of the next switch.\<close>

record switch_args =
  sa_save :: u64
  sa_target :: u64
  sa_target_slot :: u64
  sa_cur :: u64

text \<open>Where the linker and the loader put things: the sections of stacks and slots, the escape buffer of each record, the
  scratch target of a discarded save, and the entry point of the quantum test.\<close>

record cont_layout =
  cont_stacks :: u64
  cont_slots :: u64
  cl_core :: nat
  escape_buf :: "nat \<Rightarrow> u64"
  dummy_save :: u64
  quantum_entry :: u64

text \<open>The static variables of the module with the core-local fields it uses, the memory, the floating-point registers, and the hardware
  timer, which is the one of the scheduler. \<open>wake_pended\<close> is the pending bit of the interrupt \<open>SGI_CONT_WAKE\<close>. \<open>futex_locals\<close> holds the
  local variable \<open>slot\<close> of the calls of \<open>cont_futex_wait\<close> that are suspended, by the record they run on.\<close>

record cont_sys =
  pool :: "cont list"
  cont_next :: nat
  cont_free_buf :: "nat list"
  cont_free_top :: nat
  current_cont :: "nat option"
  cont_pending :: "nat option"
  switch_to_args :: switch_args
  teardown_happened :: bool
  fp_save_acquired :: bool
  fp_save_buf :: fp_regs
  fp_live :: fp_regs
  park_count :: u32
  resume_count :: u32
  arm_count :: u32
  disarm_count :: u32
  escape_count :: u32
  quantum_cycles_last :: u64
  s6_cont :: "nat option"
  fd_refs :: u32
  fd_dropped :: u32
  futex_addrs :: "u64 list"
  futex_conts :: "nat option list"
  futex_waiter_count :: u32
  futex_locals :: "nat \<Rightarrow> nat option"
  exception_sp :: u64
  scratch_slot :: u64
  abort_zone :: bool
  hw_timer :: "u64 option"
  wake_pended :: bool
  c_mem :: memory

definition cont_new :: cont where
  "cont_new = \<lparr>state_frame = 0, c_slot_top = 0, c_tls = 0, c_state = C_FREE, pending_wake = False, c_entry = 0, resumer_frame = 0,
     resumer_slot = 0, escape_frame = 0, quantum_armed = False, user_func = 0, user_arg = 0, owned_fd = None\<rparr>"

definition upd_cont :: "nat \<Rightarrow> (cont \<Rightarrow> cont) \<Rightarrow> cont_sys \<Rightarrow> cont_sys" where
  "upd_cont i f s = s\<lparr>pool := (pool s)[i := f (pool s ! i)]\<rparr>"

abbreviation st_of :: "cont_sys \<Rightarrow> nat \<Rightarrow> c_state" where
  "st_of s i \<equiv> c_state (pool s ! i)"

text \<open>The part of a switch that this module sees: the arguments, and the slot that the routine stores for the core.\<close>

definition do_switch :: "u64 \<Rightarrow> u64 \<Rightarrow> u64 \<Rightarrow> cont_sys \<Rightarrow> cont_sys" where
  "do_switch save target slot s =
     s\<lparr>switch_to_args := \<lparr>sa_save = save, sa_target = target, sa_target_slot = slot, sa_cur = target\<rparr>, scratch_slot := slot\<rparr>"

section \<open>The floating-point save area\<close>

definition acquire_fp_save :: "cont_sys \<Rightarrow> cont_sys option" where
  "acquire_fp_save s = (if fp_save_acquired s then None else Some (s\<lparr>fp_save_acquired := True\<rparr>))"

definition release_fp_save :: "cont_sys \<Rightarrow> cont_sys option" where
  "release_fp_save s = (if fp_save_acquired s then Some (s\<lparr>fp_save_acquired := False\<rparr>) else None)"

section \<open>The quantum\<close>

text \<open>\<open>t\<close> holds the two readings of the counter.\<close>

definition arm_quantum_for_running :: "u64 \<times> u64 \<Rightarrow> nat \<Rightarrow> cont_sys \<Rightarrow> cont_sys" where
  "arm_quantum_for_running t i s =
     (let (start, stop) = t;
          s1 = (upd_cont i (quantum_armed_update (\<lambda>_. True)) s)\<lparr>hw_timer := Some (saturating_add start QUANTUM_CYCLES)\<rparr>
      in if s6_cont s1 = Some i
         then s1\<lparr>arm_count := arm_count s1 + 1, quantum_cycles_last := stop - start\<rparr> else s1)"

definition disarm_quantum :: "u64 \<times> u64 \<Rightarrow> nat \<Rightarrow> cont_sys \<Rightarrow> cont_sys" where
  "disarm_quantum t i s =
     (let (start, stop) = t in
      if quantum_armed (pool s ! i)
      then let s1 = (upd_cont i (quantum_armed_update (\<lambda>_. False)) s)\<lparr>hw_timer := None, quantum_cycles_last := stop - start\<rparr>
           in if s6_cont s1 = Some i then s1\<lparr>disarm_count := disarm_count s1 + 1\<rparr> else s1
      else s)"

section \<open>The pool\<close>

definition alloc_cont :: "cont_sys \<Rightarrow> (nat \<times> cont_sys) option" where
  "alloc_cont s = do {
     let top = cont_free_top s;
     (i, s1) \<leftarrow> (if 0 < top
                 then Some (cont_free_buf s ! (top - 1), s\<lparr>cont_free_top := top - 1\<rparr>)
                 else if cont_next s < MAX_CONTINUATIONS then Some (cont_next s, s\<lparr>cont_next := cont_next s + 1\<rparr>) else None);
     guard (st_of s1 i = C_FREE);
     Some (i, s1)
   }"

definition free_cont :: "u64 \<times> u64 \<Rightarrow> nat \<Rightarrow> cont_sys \<Rightarrow> cont_sys option" where
  "free_cont t i s = do {
     let top = cont_free_top s;
     guard (top < MAX_CONTINUATIONS);
     let s1 = s\<lparr>cont_free_buf := (cont_free_buf s)[top := i], cont_free_top := top + 1\<rparr>;
     let s2 = disarm_quantum t i s1;
     Some (upd_cont i (\<lambda>c. c\<lparr>c_state := C_FREE, state_frame := 0, escape_frame := 0, resumer_frame := 0, c_slot_top := 0,
       resumer_slot := 0\<rparr>) s2)
   }"

definition is_in_continuation :: "cont_sys \<Rightarrow> bool" where
  "is_in_continuation s \<longleftrightarrow> current_cont s \<noteq> None"

definition cont_stack_top :: "cont_layout \<Rightarrow> nat \<Rightarrow> u64" where
  "cont_stack_top l i =
     (let stride = of_nat MAX_CONTINUATIONS * (CONT_STACK_SIZE + CONT_GUARD); elem = CONT_STACK_SIZE + CONT_GUARD
      in cont_stacks l + of_nat (cl_core l) * stride + of_nat i * elem + CONT_STACK_SIZE)"

definition cont_slot_top :: "cont_layout \<Rightarrow> nat \<Rightarrow> u64" where
  "cont_slot_top l i =
     (let stride = of_nat MAX_CONTINUATIONS * (CONT_SLOT_SIZE + CONT_SLOT_GUARD); elem = CONT_SLOT_SIZE + CONT_SLOT_GUARD
      in cont_slots l + of_nat (cl_core l) * stride + of_nat i * elem + CONT_SLOT_SIZE)"

definition build_frame :: "cont_layout \<Rightarrow> nat \<Rightarrow> cont_sys \<Rightarrow> cont_sys" where
  "build_frame l i s =
     (let stack_top = cont_stack_top l i;
          frame = stack_top - STATE_SIZE;
          s1 = upd_cont i (\<lambda>c. c\<lparr>state_frame := frame, c_slot_top := cont_slot_top l i\<rparr>) s;
          m1 = zero_words STATE_WORDS frame (c_mem s1);
          m2 = put_field frame state_spsel 0 m1;
          m3 = put_field frame state_elr_el1 (c_entry (pool s1 ! i)) m2;
          m4 = put_field frame state_spsr_el1 0x3c4 m3;
          m5 = put_field frame state_sp_el0 (stack_top - STATE_SIZE - 16) m4;
          m6 = put_field frame state_tpidr_el0 (c_tls (pool s1 ! i)) m5
      in s1\<lparr>c_mem := m6\<rparr>)"

text \<open>The frame and the slot to which a park switches back: of the drain at the top of the exception stack, or, inside a continuation, of the
  task with the saved stack pointer \<open>lsp\<close>.\<close>

definition resumer :: "u64 \<Rightarrow> cont_sys \<Rightarrow> u64 \<times> u64" where
  "resumer lsp s =
     (if current_cont s = None then (exception_sp s - STATE_SIZE, exception_sp s) else (lsp, scratch_slot s))"

definition spawn_continuation ::
    "cont_layout \<Rightarrow> u64 \<times> u64 \<Rightarrow> u64 \<Rightarrow> u64 \<Rightarrow> u64 \<Rightarrow> u64 \<Rightarrow> int \<Rightarrow> cont_sys \<Rightarrow> (nat \<times> cont_sys) option" where
  "spawn_continuation l t lsp entry func arg fd s = do {
     (i, s1) \<leftarrow> alloc_cont s;
     guard (i < MAX_CONTINUATIONS);
     let s2 = upd_cont i (\<lambda>c. c\<lparr>c_entry := entry, c_tls := CONT_TLS_MAGIC, user_func := func, user_arg := arg,
                owned_fd := (if fd < 0 then None else Some fd)\<rparr>) s1;
     let s3 = (if fd < 0 then s2 else s2\<lparr>fd_refs := fd_refs s2 + 1\<rparr>);
     let s4 = (if entry = quantum_entry l then s3\<lparr>s6_cont := Some i\<rparr> else s3);
     let s5 = build_frame l i s4;
     let s6 = upd_cont i (\<lambda>c. c\<lparr>escape_frame := escape_buf l i, c_state := C_READY\<rparr>) s5;
     let (rframe, rslot) = resumer lsp s6;
     let s7 = (upd_cont i (\<lambda>c. c\<lparr>resumer_frame := rframe, resumer_slot := rslot\<rparr>) s6)\<lparr>current_cont := Some i\<rparr>;
     let s8 = arm_quantum_for_running t i s7;
     Some (i, do_switch rframe (state_frame (pool s8 ! i)) (c_slot_top (pool s8 ! i)) s8)
   }"

section \<open>Parking and teardown\<close>

text \<open>A park returns at once when a wake has been recorded; the result says whether it has switched away.\<close>

definition park_with_pend :: "u64 \<times> u64 \<Rightarrow> bool \<Rightarrow> cont_sys \<Rightarrow> (bool \<times> cont_sys) option" where
  "park_with_pend t pend s = do {
     i \<leftarrow> current_cont s;
     let s1 = disarm_quantum t i s;
     if pending_wake (pool s1 ! i)
     then Some (False, upd_cont i (pending_wake_update (\<lambda>_. False)) s1)
     else do {
       let s2 = upd_cont i (c_state_update (\<lambda>_. C_PARKED)) s1;
       let s3 = (if pend then s2\<lparr>cont_pending := Some i, wake_pended := True\<rparr> else s2);
       let c = pool s3 ! i;
       Some (True, (do_switch (state_frame c) (resumer_frame c) (resumer_slot c) s3)\<lparr>current_cont := None\<rparr>)
     }
   }"

definition park_on :: "u64 \<times> u64 \<Rightarrow> cont_sys \<Rightarrow> (bool \<times> cont_sys) option" where
  "park_on t s = park_with_pend t True s"

definition park_final :: "u64 \<times> u64 \<Rightarrow> cont_sys \<Rightarrow> (bool \<times> cont_sys) option" where
  "park_final t s = park_with_pend t False s"

definition park_external :: "u64 \<times> u64 \<Rightarrow> bool \<Rightarrow> cont_sys \<Rightarrow> (bool \<times> cont_sys) option" where
  "park_external t count_stats s = do {
     i \<leftarrow> current_cont s;
     let s1 = disarm_quantum t i s;
     if pending_wake (pool s1 ! i)
     then Some (False, upd_cont i (pending_wake_update (\<lambda>_. False)) s1)
     else do {
       let s2 = (upd_cont i (c_state_update (\<lambda>_. C_PARKED)) s1)\<lparr>cont_pending := Some i\<rparr>;
       let s3 = (if count_stats then s2\<lparr>park_count := park_count s2 + 1\<rparr> else s2);
       let c = pool s3 ! i;
       Some (True, (do_switch (state_frame c) (resumer_frame c) (resumer_slot c) s3)\<lparr>current_cont := None\<rparr>)
     }
   }"

definition clear_scratch_slot :: "cont_sys \<Rightarrow> cont_sys" where
  "clear_scratch_slot s = s\<lparr>scratch_slot := 0\<rparr>"

definition continuation_teardown :: "u64 \<times> u64 \<Rightarrow> cont_sys \<Rightarrow> cont_sys option" where
  "continuation_teardown t s = do {
     i \<leftarrow> current_cont s;
     let was_armed = quantum_armed (pool s ! i);
     let s1 = disarm_quantum t i s;
     let s2 = (if s6_cont s1 = Some i \<and> \<not> was_armed then s1\<lparr>disarm_count := disarm_count s1 + 1\<rparr> else s1);
     let s3 = (clear_scratch_slot s2)\<lparr>abort_zone := True\<rparr>;
     let s4 = (if owned_fd (pool s3 ! i) = None then s3
               else s3\<lparr>fd_refs := fd_refs s3 - 1, fd_dropped := fd_dropped s3 + 1\<rparr>);
     let s5 = s4\<lparr>abort_zone := False\<rparr>;
     let c = pool s5 ! i;
     s6 \<leftarrow> free_cont t i s5;
     let s7 = (upd_cont i (c_state_update (\<lambda>_. C_FREE)) s6)\<lparr>current_cont := None, teardown_happened := True\<rparr>;
     Some (do_switch (state_frame c) (resumer_frame c) (resumer_slot c) s7)
   }"

definition continuation_reaped :: "cont_sys \<Rightarrow> bool \<times> cont_sys" where
  "continuation_reaped s = (teardown_happened s, s\<lparr>teardown_happened := False\<rparr>)"

section \<open>Waking and the escape\<close>

definition coop_wake :: "cont_sys \<Rightarrow> cont_sys" where
  "coop_wake s =
     (case cont_pending s of
        None \<Rightarrow> s
      | Some p \<Rightarrow> upd_cont p (\<lambda>c. c\<lparr>pending_wake := True, c_state := C_READY\<rparr>) s)"

definition running_quantum_armed :: "cont_sys \<Rightarrow> bool" where
  "running_quantum_armed s = (case current_cont s of None \<Rightarrow> False | Some i \<Rightarrow> quantum_armed (pool s ! i))"

definition quantum_escape :: "cont_sys \<Rightarrow> (bool \<times> cont_sys) option" where
  "quantum_escape s =
     (case current_cont s of
        None \<Rightarrow> Some (False, s)
      | Some i \<Rightarrow>
          if \<not> quantum_armed (pool s ! i) then Some (False, s)
          else do {
            let c = pool s ! i;
            let s1 = s\<lparr>c_mem := copy_words STATE_WORDS (c_slot_top c - STATE_SIZE) (escape_frame c) (c_mem s)\<rparr>;
            s2 \<leftarrow> acquire_fp_save s1;
            let s3 = s2\<lparr>fp_save_buf := fp_live s2\<rparr>;
            let s4 = upd_cont i (\<lambda>c. c\<lparr>quantum_armed := False, c_state := C_ESCAPED\<rparr>) s3;
            Some (True, s4\<lparr>cont_pending := Some i, escape_count := escape_count s4 + 1, disarm_count := disarm_count s4 + 1\<rparr>)
          })"

definition quantum_yield_to_drain :: "cont_layout \<Rightarrow> cont_sys \<Rightarrow> cont_sys option" where
  "quantum_yield_to_drain l s = do {
     i \<leftarrow> current_cont s;
     let c = pool s ! i;
     let s1 = clear_scratch_slot (s\<lparr>current_cont := None\<rparr>);
     Some (do_switch (dummy_save l) (resumer_frame c) (resumer_slot c) s1)
   }"

definition continuation_self_escape :: "cont_sys \<Rightarrow> (bool \<times> cont_sys) option" where
  "continuation_self_escape s =
     (case current_cont s of
        None \<Rightarrow> Some (False, s)
      | Some i \<Rightarrow>
          if \<not> quantum_armed (pool s ! i) then Some (False, s)
          else do {
            s1 \<leftarrow> acquire_fp_save s;
            let s2 = s1\<lparr>fp_save_buf := fp_live s1\<rparr>;
            let s3 = (upd_cont i (\<lambda>c. c\<lparr>quantum_armed := False, c_state := C_ESCAPED\<rparr>) s2)\<lparr>cont_pending := Some i\<rparr>;
            let s4 = (if s6_cont s3 = Some i then s3\<lparr>escape_count := escape_count s3 + 1\<rparr> else s3);
            let c = pool s4 ! i;
            let s5 = clear_scratch_slot (s4\<lparr>current_cont := None\<rparr>);
            Some (True, do_switch (escape_frame c) (resumer_frame c) (resumer_slot c) s5)
          })"

section \<open>The drain\<close>

definition drainable :: "c_state \<Rightarrow> bool" where
  "drainable st \<longleftrightarrow> st = C_READY \<or> st = C_ESCAPED"

definition drain_resolve_ready :: "cont_sys \<Rightarrow> nat option" where
  "drain_resolve_ready s =
     (case cont_pending s of
        Some p \<Rightarrow> if drainable (st_of s p) then Some p else position (\<lambda>c. drainable (c_state c)) (pool s)
      | None \<Rightarrow> position (\<lambda>c. drainable (c_state c)) (pool s))"

definition has_pending_cont :: "cont_sys \<Rightarrow> bool" where
  "has_pending_cont s \<longleftrightarrow> position (\<lambda>c. c_state c = C_READY) (pool s) \<noteq> None"

definition drain_ready :: "u64 \<times> u64 \<Rightarrow> u64 \<Rightarrow> cont_sys \<Rightarrow> cont_sys option" where
  "drain_ready t lsp s =
     (case drain_resolve_ready s of
        None \<Rightarrow> Some s
      | Some i \<Rightarrow>
          (let st = st_of s i;
               s1 = upd_cont i (pending_wake_update (\<lambda>_. False)) s;
               (rframe, rslot) = resumer lsp s1;
               target = (if st = C_ESCAPED then escape_frame (pool s1 ! i) else state_frame (pool s1 ! i));
               slot = c_slot_top (pool s1 ! i);
               s2 = upd_cont i (\<lambda>c. c\<lparr>resumer_frame := rframe, resumer_slot := rslot, c_state := C_RUNNING\<rparr>) s1;
               s3 = arm_quantum_for_running t i (s2\<lparr>cont_pending := None, current_cont := Some i\<rparr>)
           in do {
             s4 \<leftarrow> (if st = C_ESCAPED then release_fp_save (s3\<lparr>fp_live := fp_save_buf s3\<rparr>) else Some s3);
             Some (do_switch rframe target slot s4)
           }))"

section \<open>Futexes of continuations\<close>

definition register_futex_wait :: "u64 \<Rightarrow> nat \<Rightarrow> cont_sys \<Rightarrow> nat \<times> cont_sys" where
  "register_futex_wait addr i s =
     (case position (\<lambda>a. a = 0) (futex_addrs s) of
        None \<Rightarrow> (MAX_FUTEX_WAITERS, s)
      | Some k \<Rightarrow> (k, s\<lparr>futex_addrs := (futex_addrs s)[k := addr], futex_conts := (futex_conts s)[k := Some i],
          futex_waiter_count := futex_waiter_count s + 1\<rparr>))"

definition clear_futex_slot :: "nat \<Rightarrow> cont_sys \<Rightarrow> cont_sys" where
  "clear_futex_slot k s =
     (if k < MAX_FUTEX_WAITERS
      then let s1 = s\<lparr>futex_addrs := (futex_addrs s)[k := 0]\<rparr>
           in if futex_addrs s ! k \<noteq> 0
              then s1\<lparr>futex_conts := (futex_conts s1)[k := None], futex_waiter_count := futex_waiter_count s1 - 1\<rparr> else s1
      else s)"

datatype cont_wait = Wait_Returned int | Wait_Parked

text \<open>\<open>cont_futex_wait\<close> up to the switch, with \<open>val\<close> the word at the address, and from the resumption on.\<close>

definition cont_futex_wait :: "u64 \<times> u64 \<Rightarrow> u64 \<Rightarrow> u32 \<Rightarrow> u32 \<Rightarrow> cont_sys \<Rightarrow> (cont_wait \<times> cont_sys) option" where
  "cont_futex_wait t addr val expected s = do {
     i \<leftarrow> current_cont s;
     if val \<noteq> expected then Some (Wait_Returned (- errno_into Again), s)
     else do {
       let (slot, s1) = register_futex_wait addr i s;
       if MAX_FUTEX_WAITERS \<le> slot then Some (Wait_Returned (- errno_into Again), s1)
       else do {
         (parked, s2) \<leftarrow> park_external t False s1;
         if parked then Some (Wait_Parked, s2\<lparr>futex_locals := (futex_locals s2)(i := Some slot)\<rparr>)
         else Some (Wait_Returned 0, clear_futex_slot slot s2)
       }
     }
   }"

definition cont_futex_return :: "nat \<Rightarrow> cont_sys \<Rightarrow> cont_sys" where
  "cont_futex_return i s =
     (case futex_locals s i of
        None \<Rightarrow> s
      | Some slot \<Rightarrow> clear_futex_slot slot (s\<lparr>futex_locals := (futex_locals s)(i := None)\<rparr>))"

text \<open>The loop over the table: how many were woken, the last of them, and the new state.\<close>

fun futex_wake_scan :: "nat list \<Rightarrow> u64 \<Rightarrow> int \<Rightarrow> int \<Rightarrow> nat option \<Rightarrow> cont_sys \<Rightarrow> int \<times> nat option \<times> cont_sys" where
  "futex_wake_scan [] target max_wake woken last_cont s = (woken, last_cont, s)"
| "futex_wake_scan (k # ks) target max_wake woken last_cont s =
     (if max_wake \<le> woken then (woken, last_cont, s)
      else if futex_addrs s ! k = 0 \<or> futex_addrs s ! k \<noteq> target then futex_wake_scan ks target max_wake woken last_cont s
      else let s1 = s\<lparr>futex_addrs := (futex_addrs s)[k := 0], futex_conts := (futex_conts s)[k := None]\<rparr>
           in case futex_conts s ! k of
                None \<Rightarrow> futex_wake_scan ks target max_wake woken last_cont s1
              | Some c \<Rightarrow> futex_wake_scan ks target max_wake (woken + 1) (Some c)
                  (upd_cont c (\<lambda>c. c\<lparr>pending_wake := True, c_state := C_READY\<rparr>) s1))"

definition cont_futex_wake :: "u64 \<Rightarrow> int \<Rightarrow> cont_sys \<Rightarrow> int \<times> cont_sys" where
  "cont_futex_wake addr count s =
     (if count < 0 then (- errno_into Inval, s)
      else if count = 0 then (0, s)
      else let max_wake = (if count = i32_max then int MAX_FUTEX_WAITERS else count);
               (woken, last_cont, s1) = futex_wake_scan [0..<MAX_FUTEX_WAITERS] addr max_wake 0 None s;
               s2 = s1\<lparr>futex_waiter_count := futex_waiter_count s1 - of_int woken\<rparr>
           in (woken, if last_cont = None then s2 else s2\<lparr>cont_pending := last_cont\<rparr>))"

section \<open>Blocking on a future\<close>

text \<open>\<open>block_on_cont\<close>: one round of its loop, with the result of polling the future, and the count when it is resumed.\<close>

definition block_on_cont_round :: "u64 \<times> u64 \<Rightarrow> 'a option \<Rightarrow> cont_sys \<Rightarrow> ('a option \<times> bool \<times> cont_sys) option" where
  "block_on_cont_round t polled s =
     (case polled of
        Some r \<Rightarrow> Some (Some r, False, s)
      | None \<Rightarrow> do {
          (parked, s1) \<leftarrow> park_external t True s;
          Some (None, parked, if parked then s1 else s1\<lparr>resume_count := resume_count s1 + 1\<rparr>)
        })"

definition block_on_cont_resume :: "cont_sys \<Rightarrow> cont_sys" where
  "block_on_cont_resume s = s\<lparr>resume_count := resume_count s + 1\<rparr>"

end
