(* ===== verification/Cont_Steps.thy ===== *)
theory Cont_Steps
  imports Continuations
begin

text \<open>
  Continuations at work: the sequences of operations that the idle loop, the continuations, the waker and the interrupts perform on the state of
  \<open>Continuations\<close>, and the invariant they keep.
\<close>

section \<open>Steps\<close>

datatype cont_op =
    Spawn u64 u64 u64 int
  | Park bool
  | Park_External bool
  | Teardown
  | Wake
  | Deliver_Wake
  | Self_Escape
  | Irq_Escape
  | Drain
  | Futex_Wait u64 u32 u32
  | Futex_Wake u64 int
  | Use_Fp fp_regs
  | Reap

text \<open>The idle loop spawns and drains while no continuation runs; a running continuation parks, ends, escapes and waits; wakes and interrupts come
  at any time. Futex addresses are references and not null.\<close>

fun cont_enabled :: "cont_op \<Rightarrow> cont_sys \<Rightarrow> bool" where
  "cont_enabled (Spawn _ _ _ _) s \<longleftrightarrow> current_cont s = None"
| "cont_enabled Drain s \<longleftrightarrow> current_cont s = None"
| "cont_enabled (Park _) s \<longleftrightarrow> current_cont s \<noteq> None"
| "cont_enabled (Park_External _) s \<longleftrightarrow> current_cont s \<noteq> None"
| "cont_enabled Teardown s \<longleftrightarrow> current_cont s \<noteq> None"
| "cont_enabled (Futex_Wait addr _ _) s \<longleftrightarrow> current_cont s \<noteq> None \<and> addr \<noteq> 0"
| "cont_enabled _ s \<longleftrightarrow> True"

text \<open>A resumed continuation first finishes the futex wait it was suspended in, if any. An interrupt that escapes yields to the drain.\<close>

fun cont_step :: "cont_layout \<Rightarrow> u64 \<times> u64 \<Rightarrow> cont_op \<Rightarrow> cont_sys \<Rightarrow> cont_sys option" where
  "cont_step l t (Spawn entry func arg fd) s = map_option snd (spawn_continuation l t 0 entry func arg fd s)"
| "cont_step l t (Park pend) s = map_option snd (park_with_pend t pend s)"
| "cont_step l t (Park_External stats) s = map_option snd (park_external t stats s)"
| "cont_step l t Teardown s = continuation_teardown t s"
| "cont_step l t Wake s = Some (coop_wake s)"
| "cont_step l t Deliver_Wake s = Some (if wake_pended s then coop_wake (s\<lparr>wake_pended := False\<rparr>) else s)"
| "cont_step l t Self_Escape s = map_option snd (continuation_self_escape s)"
| "cont_step l t Irq_Escape s = do {
     (escaped, s1) \<leftarrow> quantum_escape s;
     if escaped then quantum_yield_to_drain l s1 else Some s1
   }"
| "cont_step l t Drain s = do {
     s1 \<leftarrow> drain_ready t 0 s;
     Some (case current_cont s1 of None \<Rightarrow> s1 | Some i \<Rightarrow> cont_futex_return i s1)
   }"
| "cont_step l t (Futex_Wait addr val expected) s = map_option snd (cont_futex_wait t addr val expected s)"
| "cont_step l t (Futex_Wake addr count) s = Some (snd (cont_futex_wake addr count s))"
| "cont_step l t (Use_Fp r) s = Some (s\<lparr>fp_live := r\<rparr>)"
| "cont_step l t Reap s = Some (snd (continuation_reaped s))"

definition cont_init :: "u64 \<Rightarrow> memory \<Rightarrow> cont_sys" where
  "cont_init esp m = \<lparr>pool = replicate MAX_CONTINUATIONS cont_new, cont_next = 0, cont_free_buf = replicate MAX_CONTINUATIONS 0, cont_free_top = 0,
     current_cont = None, cont_pending = None, switch_to_args = \<lparr>sa_save = 0, sa_target = 0, sa_target_slot = 0, sa_cur = 0\<rparr>,
     teardown_happened = False, fp_save_acquired = False,
     fp_save_buf = \<lparr>fp_q = (\<lambda>_. 0), fp_sr = 0, fp_cr = 0\<rparr>, fp_live = \<lparr>fp_q = (\<lambda>_. 0), fp_sr = 0, fp_cr = 0\<rparr>,
     park_count = 0, resume_count = 0, arm_count = 0, disarm_count = 0, escape_count = 0, quantum_cycles_last = 0, s6_cont = None,
     fd_refs = 0, fd_dropped = 0,
     futex_addrs = replicate MAX_FUTEX_WAITERS 0, futex_conts = replicate MAX_FUTEX_WAITERS None, futex_waiter_count = 0,
     futex_locals = (\<lambda>_. None), exception_sp = esp, scratch_slot = esp, abort_zone = False, hw_timer = None, wake_pended = False, c_mem = m\<rparr>"

inductive cont_reach :: "cont_layout \<Rightarrow> cont_sys \<Rightarrow> bool" for l where
  cont_start: "cont_reach l (cont_init esp m)"
| cont_next_step: "cont_reach l s \<Longrightarrow> cont_enabled op s \<Longrightarrow> cont_step l t op s = Some s' \<Longrightarrow> cont_reach l s'"

section \<open>The invariant\<close>

definition free_list :: "cont_sys \<Rightarrow> nat list" where
  "free_list s = take (cont_free_top s) (cont_free_buf s)"

definition pool_ok :: "cont_sys \<Rightarrow> bool" where
  "pool_ok s \<longleftrightarrow> length (pool s) = 128 \<and> length (cont_free_buf s) = 128 \<and> cont_next s \<le> 128 \<and> cont_free_top s \<le> 128 \<and>
     distinct (free_list s) \<and> set (free_list s) \<subseteq> {..<cont_next s} \<and>
     (\<forall>i < 128. st_of s i = C_FREE \<longleftrightarrow> cont_next s \<le> i \<or> i \<in> set (free_list s))"

text \<open>At most one continuation runs; the one registered for the wake is suspended; only the running one has a quantum.\<close>

definition run_ok :: "cont_sys \<Rightarrow> bool" where
  "run_ok s \<longleftrightarrow>
     (\<forall>i. current_cont s = Some i \<longrightarrow> i < 128 \<and> (st_of s i = C_READY \<or> st_of s i = C_RUNNING)) \<and>
     (\<forall>i. cont_pending s = Some i \<longrightarrow> i < 128 \<and> st_of s i \<in> {C_PARKED, C_READY, C_ESCAPED} \<and> current_cont s \<noteq> Some i) \<and>
     (\<forall>i < 128. current_cont s \<noteq> Some i \<longrightarrow> st_of s i \<noteq> C_RUNNING \<and> \<not> quantum_armed (pool s ! i))"

text \<open>At most one continuation has escaped, and it owns the floating-point save area.\<close>

definition fp_ok :: "cont_sys \<Rightarrow> bool" where
  "fp_ok s \<longleftrightarrow> (\<forall>i < 128. st_of s i = C_ESCAPED \<longrightarrow> fp_save_acquired s \<and> (\<forall>j < 128. st_of s j = C_ESCAPED \<longrightarrow> i = j))"

text \<open>The futex table counts its entries; each names a suspended continuation that waits with this slot.\<close>

definition waits_in :: "cont_sys \<Rightarrow> nat \<Rightarrow> bool" where
  "waits_in s i \<longleftrightarrow> i < 128 \<and> (st_of s i = C_PARKED \<or> st_of s i = C_READY) \<and> current_cont s \<noteq> Some i"

definition futex_ok :: "cont_sys \<Rightarrow> bool" where
  "futex_ok s \<longleftrightarrow> length (futex_addrs s) = 128 \<and> length (futex_conts s) = 128 \<and>
     (\<forall>k < 128. (futex_addrs s ! k = 0 \<longleftrightarrow> futex_conts s ! k = None) \<and>
        (\<forall>i. futex_conts s ! k = Some i \<longrightarrow> futex_locals s i = Some k)) \<and>
     (\<forall>i k. futex_locals s i = Some k \<longrightarrow> k < 128 \<and> waits_in s i) \<and>
     unat (futex_waiter_count s) = length (filter (\<lambda>a. a \<noteq> 0) (futex_addrs s))"

definition cont_ok :: "cont_sys \<Rightarrow> bool" where
  "cont_ok s \<longleftrightarrow> pool_ok s \<and> run_ok s \<and> fp_ok s \<and> futex_ok s"

lemmas cont_ok_defs = cont_ok_def pool_ok_def run_ok_def fp_ok_def futex_ok_def free_list_def waits_in_def

lemma cont_init_ok: "cont_ok (cont_init esp m)"
  by (simp add: cont_ok_defs cont_init_def cont_new_def)

section \<open>Each operation keeps it\<close>

lemma nth_upd: "xs[i := x] ! j = (if i = j \<and> i < length xs then x else xs ! j)"
  by (cases "i < length xs") (simp_all add: nth_list_update list_update_beyond)

lemma upd_cont_sel [simp]:
  "length (pool (upd_cont i f s)) = length (pool s)" "cont_next (upd_cont i f s) = cont_next s" "cont_free_buf (upd_cont i f s) = cont_free_buf s"
  "cont_free_top (upd_cont i f s) = cont_free_top s" "current_cont (upd_cont i f s) = current_cont s"
  "cont_pending (upd_cont i f s) = cont_pending s" "fp_save_acquired (upd_cont i f s) = fp_save_acquired s"
  "futex_addrs (upd_cont i f s) = futex_addrs s" "futex_conts (upd_cont i f s) = futex_conts s"
  "futex_waiter_count (upd_cont i f s) = futex_waiter_count s" "futex_locals (upd_cont i f s) = futex_locals s"
  "exception_sp (upd_cont i f s) = exception_sp s" "c_mem (upd_cont i f s) = c_mem s" "scratch_slot (upd_cont i f s) = scratch_slot s"
  by (simp_all add: upd_cont_def)

lemma upd_cont_nth: "pool (upd_cont i f s) ! j = (if i = j \<and> i < length (pool s) then f (pool s ! i) else pool s ! j)"
  by (simp add: upd_cont_def nth_upd)

lemma upd_cont_frame:
  assumes "\<And>c. c_state (f c) = c_state c" and "\<And>c. quantum_armed (f c) \<longrightarrow> quantum_armed c" and "cont_ok s"
  shows "cont_ok (upd_cont i f s)"
proof -
  have st: "st_of (upd_cont i f s) j = st_of s j" "quantum_armed (pool (upd_cont i f s) ! j) \<Longrightarrow> quantum_armed (pool s ! j)" for j
    using assms(1,2) by (auto simp: upd_cont_nth split: if_splits)
  have "pool_ok (upd_cont i f s) = pool_ok s" by (simp add: pool_ok_def free_list_def st(1))
  moreover have "fp_ok (upd_cont i f s) = fp_ok s" by (simp add: fp_ok_def st(1))
  moreover have "futex_ok (upd_cont i f s) = futex_ok s" by (simp add: futex_ok_def waits_in_def st(1))
  moreover have "run_ok s \<Longrightarrow> run_ok (upd_cont i f s)" using st(2) unfolding run_ok_def st(1) upd_cont_sel by blast
  ultimately show ?thesis using assms(3) by (simp add: cont_ok_def)
qed

lemma disarm_pool: "pool (disarm_quantum t i s) = (pool s)[i := (pool s ! i)\<lparr>quantum_armed := False\<rparr>]"
proof (cases "quantum_armed (pool s ! i)")
  case False
  then have "(pool s ! i)\<lparr>quantum_armed := False\<rparr> = pool s ! i" by simp
  then show ?thesis using False by (simp only: list_update_id) (simp add: disarm_quantum_def Let_def split: prod.splits)
qed (simp add: disarm_quantum_def upd_cont_def Let_def split: prod.splits)

lemma disarm_same [simp]:
  "cont_next (disarm_quantum t i s) = cont_next s" "cont_free_buf (disarm_quantum t i s) = cont_free_buf s"
  "cont_free_top (disarm_quantum t i s) = cont_free_top s" "current_cont (disarm_quantum t i s) = current_cont s"
  "cont_pending (disarm_quantum t i s) = cont_pending s" "fp_save_acquired (disarm_quantum t i s) = fp_save_acquired s"
  "futex_addrs (disarm_quantum t i s) = futex_addrs s" "futex_conts (disarm_quantum t i s) = futex_conts s"
  "futex_waiter_count (disarm_quantum t i s) = futex_waiter_count s" "futex_locals (disarm_quantum t i s) = futex_locals s"
  "exception_sp (disarm_quantum t i s) = exception_sp s" "c_mem (disarm_quantum t i s) = c_mem s"
  by (auto simp: disarm_quantum_def upd_cont_def Let_def split: prod.splits)

lemma arm_pool: "pool (arm_quantum_for_running t i s) = (pool s)[i := (pool s ! i)\<lparr>quantum_armed := True\<rparr>]"
  by (auto simp: arm_quantum_for_running_def upd_cont_def Let_def split: prod.splits)

lemma arm_same [simp]:
  "cont_next (arm_quantum_for_running t i s) = cont_next s" "cont_free_buf (arm_quantum_for_running t i s) = cont_free_buf s"
  "cont_free_top (arm_quantum_for_running t i s) = cont_free_top s" "current_cont (arm_quantum_for_running t i s) = current_cont s"
  "cont_pending (arm_quantum_for_running t i s) = cont_pending s" "fp_save_acquired (arm_quantum_for_running t i s) = fp_save_acquired s"
  "futex_addrs (arm_quantum_for_running t i s) = futex_addrs s" "futex_conts (arm_quantum_for_running t i s) = futex_conts s"
  "futex_waiter_count (arm_quantum_for_running t i s) = futex_waiter_count s" "futex_locals (arm_quantum_for_running t i s) = futex_locals s"
  "exception_sp (arm_quantum_for_running t i s) = exception_sp s" "c_mem (arm_quantum_for_running t i s) = c_mem s"
  "fp_live (arm_quantum_for_running t i s) = fp_live s" "fp_save_buf (arm_quantum_for_running t i s) = fp_save_buf s"
  by (auto simp: arm_quantum_for_running_def upd_cont_def Let_def split: prod.splits)

text \<open>The invariant looks at some fields only.\<close>

lemma cont_ok_cong:
  "pool s' = pool s \<Longrightarrow> cont_next s' = cont_next s \<Longrightarrow> cont_free_buf s' = cont_free_buf s \<Longrightarrow> cont_free_top s' = cont_free_top s \<Longrightarrow>
   current_cont s' = current_cont s \<Longrightarrow> cont_pending s' = cont_pending s \<Longrightarrow> fp_save_acquired s' = fp_save_acquired s \<Longrightarrow>
   futex_addrs s' = futex_addrs s \<Longrightarrow> futex_conts s' = futex_conts s \<Longrightarrow> futex_waiter_count s' = futex_waiter_count s \<Longrightarrow>
   futex_locals s' = futex_locals s \<Longrightarrow> cont_ok s' = cont_ok s"
  by (simp add: cont_ok_defs)

lemma disarm_ok: "cont_ok s \<Longrightarrow> cont_ok (disarm_quantum t i s)"
  using upd_cont_frame [of "quantum_armed_update (\<lambda>_. False)" s i]
    cont_ok_cong [of "disarm_quantum t i s" "upd_cont i (quantum_armed_update (\<lambda>_. False)) s"]
  by (simp add: disarm_pool) (simp add: upd_cont_def)

lemma pool_length: "cont_ok s \<Longrightarrow> length (pool s) = 128"
  by (simp add: cont_ok_def pool_ok_def)

lemma run_okI:
  "(\<And>i. current_cont s = Some i \<Longrightarrow> i < 128 \<and> (st_of s i = C_READY \<or> st_of s i = C_RUNNING)) \<Longrightarrow>
   (\<And>i. cont_pending s = Some i \<Longrightarrow> i < 128 \<and> st_of s i \<in> {C_PARKED, C_READY, C_ESCAPED} \<and> current_cont s \<noteq> Some i) \<Longrightarrow>
   (\<And>i. i < 128 \<Longrightarrow> current_cont s \<noteq> Some i \<Longrightarrow> st_of s i \<noteq> C_RUNNING) \<Longrightarrow>
   (\<And>i. i < 128 \<Longrightarrow> current_cont s \<noteq> Some i \<Longrightarrow> \<not> quantum_armed (pool s ! i)) \<Longrightarrow> run_ok s"
  unfolding run_ok_def by blast

lemma run_okD:
  assumes "cont_ok s"
  shows "current_cont s = Some i \<Longrightarrow> i < 128" and "current_cont s = Some i \<Longrightarrow> st_of s i = C_READY \<or> st_of s i = C_RUNNING"
    and "cont_pending s = Some i \<Longrightarrow> i < 128" and "cont_pending s = Some i \<Longrightarrow> st_of s i \<in> {C_PARKED, C_READY, C_ESCAPED}"
    and "cont_pending s = Some i \<Longrightarrow> current_cont s \<noteq> Some i"
    and "i < 128 \<Longrightarrow> current_cont s \<noteq> Some i \<Longrightarrow> st_of s i \<noteq> C_RUNNING"
    and "i < 128 \<Longrightarrow> current_cont s \<noteq> Some i \<Longrightarrow> \<not> quantum_armed (pool s ! i)"
  using assms unfolding cont_ok_def run_ok_def by blast+

lemma futex_okI:
  "length (futex_addrs s) = 128 \<Longrightarrow> length (futex_conts s) = 128 \<Longrightarrow>
   (\<And>k. k < 128 \<Longrightarrow> futex_addrs s ! k = 0 \<longleftrightarrow> futex_conts s ! k = None) \<Longrightarrow>
   (\<And>k i. k < 128 \<Longrightarrow> futex_conts s ! k = Some i \<Longrightarrow> futex_locals s i = Some k) \<Longrightarrow>
   (\<And>i k. futex_locals s i = Some k \<Longrightarrow> k < 128 \<and> waits_in s i) \<Longrightarrow>
   unat (futex_waiter_count s) = length (filter (\<lambda>a. a \<noteq> 0) (futex_addrs s)) \<Longrightarrow> futex_ok s"
  unfolding futex_ok_def by blast

lemma futex_okD:
  assumes "cont_ok s"
  shows "length (futex_addrs s) = 128" and "length (futex_conts s) = 128"
    and "k < 128 \<Longrightarrow> futex_addrs s ! k = 0 \<longleftrightarrow> futex_conts s ! k = None"
    and "k < 128 \<Longrightarrow> futex_conts s ! k = Some i \<Longrightarrow> futex_locals s i = Some k"
    and "futex_locals s i = Some k \<Longrightarrow> k < 128" and "futex_locals s i = Some k \<Longrightarrow> waits_in s i"
    and "unat (futex_waiter_count s) = length (filter (\<lambda>a. a \<noteq> 0) (futex_addrs s))"
  using assms unfolding cont_ok_def futex_ok_def by blast+

lemma futex_ok_frame:
  assumes "cont_ok s" and "futex_addrs s' = futex_addrs s" "futex_conts s' = futex_conts s" "futex_locals s' = futex_locals s"
    "futex_waiter_count s' = futex_waiter_count s" and "\<And>j. waits_in s j \<Longrightarrow> waits_in s' j"
  shows "futex_ok s'"
proof (rule futex_okI; unfold assms(2-5))
  show "futex_locals s i = Some k \<Longrightarrow> k < 128 \<and> waits_in s' i" for i k
    using futex_okD(5,6) [OF assms(1)] assms(6) by blast
qed (fact futex_okD [OF assms(1)])+

text \<open>A running continuation is suspended.\<close>

lemma suspend_ok:
  assumes ok: "cont_ok s" and cur: "current_cont s = Some i" and "\<not> quantum_armed (pool s ! i)" and "cont_pending s = p \<or> p = Some i"
  shows "cont_ok ((upd_cont i (c_state_update (\<lambda>_. C_PARKED)) s)\<lparr>current_cont := None, cont_pending := p\<rparr>)" (is "cont_ok ?s")
proof -
  have i: "i < 128" and len: "length (pool s) = 128" and st: "st_of s i = C_READY \<or> st_of s i = C_RUNNING"
    using ok cur by (auto simp: cont_ok_def run_ok_def pool_ok_def)
  have pool: "pool ?s ! j = (if i = j then (pool s ! i)\<lparr>c_state := C_PARKED\<rparr> else pool s ! j)" for j
    using i len by (simp add: upd_cont_nth)
  have "pool_ok ?s" using ok st i unfolding cont_ok_def pool_ok_def free_list_def pool by auto
  moreover have "run_ok ?s"
    using run_okD [OF ok] cur assms(3,4) i by (intro run_okI; unfold pool) (auto split: if_splits)
  moreover have "fp_ok ?s" using ok unfolding cont_ok_def fp_ok_def pool by auto
  moreover have "futex_ok ?s"
    by (rule futex_ok_frame [OF ok]) (auto simp: waits_in_def upd_cont_nth cur)
  ultimately show ?thesis by (simp add: cont_ok_def)
qed

lemma do_switch_same [simp]:
  "pool (do_switch a b c s) = pool s" "current_cont (do_switch a b c s) = current_cont s" "cont_ok (do_switch a b c s) = cont_ok s"
  "futex_locals (do_switch a b c s) = futex_locals s"
  by (simp_all add: do_switch_def cont_ok_defs)

lemma cont_ok_other [simp]:
  "cont_ok (s\<lparr>park_count := x\<rparr>) = cont_ok s" "cont_ok (s\<lparr>wake_pended := b\<rparr>) = cont_ok s" "cont_ok (s\<lparr>fp_live := r\<rparr>) = cont_ok s"
  "cont_ok (s\<lparr>teardown_happened := b\<rparr>) = cont_ok s" "cont_ok (s\<lparr>abort_zone := b\<rparr>) = cont_ok s" "cont_ok (s\<lparr>scratch_slot := x2\<rparr>) = cont_ok s"
  "cont_ok (s\<lparr>c_mem := m\<rparr>) = cont_ok s"
  by (rule cont_ok_cong; simp)+

lemma current_upd_switch:
  "(do_switch a b c s)\<lparr>current_cont := x\<rparr> = do_switch a b c (s\<lparr>current_cont := x\<rparr>)"
  by (simp add: do_switch_def)

lemma wake_consumed_ok: "cont_ok s \<Longrightarrow> cont_ok (upd_cont i (pending_wake_update (\<lambda>_. b)) s)"
  by (rule upd_cont_frame) simp_all

lemma disarmed: "cont_ok s \<Longrightarrow> current_cont s = Some i \<Longrightarrow> \<not> quantum_armed (pool (disarm_quantum t i s) ! i)"
  using run_okD(1) [of s i] by (simp add: disarm_pool pool_length)

lemma park_with_pend_ok:
  assumes ok: "cont_ok s" and cur: "current_cont s = Some i"
  shows "\<exists>b s'. park_with_pend t pend s = Some (b, s') \<and> cont_ok s'"
proof -
  let ?s1 = "disarm_quantum t i s"
  have ok1: "cont_ok ?s1" and cur1: "current_cont ?s1 = Some i" and unarmed: "\<not> quantum_armed (pool ?s1 ! i)"
    using disarm_ok [OF ok] cur disarmed [OF ok cur] by simp_all
  note s = suspend_ok [OF ok1 cur1 unarmed, of "cont_pending ?s1"] suspend_ok [OF ok1 cur1 unarmed, of "Some i"]
  have 1: "cont_ok ((upd_cont i (c_state_update (\<lambda>_. C_PARKED)) ?s1)\<lparr>current_cont := None\<rparr>)"
    using s(1) by (subst cont_ok_cong [of _ "(upd_cont i (c_state_update (\<lambda>_. C_PARKED)) ?s1)\<lparr>current_cont := None, cont_pending := cont_pending ?s1\<rparr>"]) simp_all
  have 2: "cont_ok ((upd_cont i (c_state_update (\<lambda>_. C_PARKED)) ?s1)\<lparr>cont_pending := Some i, wake_pended := True, current_cont := None\<rparr>)"
    using s(2) by (subst cont_ok_cong [of _ "(upd_cont i (c_state_update (\<lambda>_. C_PARKED)) ?s1)\<lparr>current_cont := None, cont_pending := Some i\<rparr>"]) simp_all
  show ?thesis
    using cur 1 2 wake_consumed_ok [OF ok1] by (auto simp: park_with_pend_def Let_def current_upd_switch)
qed

lemma park_external_ok:
  assumes ok: "cont_ok s" and cur: "current_cont s = Some i"
  shows "\<exists>b s'. park_external t stats s = Some (b, s') \<and> cont_ok s' \<and> futex_locals s' = futex_locals s \<and>
    futex_addrs s' = futex_addrs s \<and> futex_conts s' = futex_conts s \<and> futex_waiter_count s' = futex_waiter_count s \<and>
    (if b then current_cont s' = None \<and> st_of s' i = C_PARKED else current_cont s' = Some i)"
proof -
  let ?s1 = "disarm_quantum t i s"
  have ok1: "cont_ok ?s1" and cur1: "current_cont ?s1 = Some i" and unarmed: "\<not> quantum_armed (pool ?s1 ! i)"
    using disarm_ok [OF ok] cur disarmed [OF ok cur] by simp_all
  note s = suspend_ok [OF ok1 cur1 unarmed, of "Some i"]
  have 1: "cont_ok ((upd_cont i (c_state_update (\<lambda>_. C_PARKED)) ?s1)\<lparr>cont_pending := Some i, current_cont := None\<rparr>)"
    using s by (subst cont_ok_cong [of _ "(upd_cont i (c_state_update (\<lambda>_. C_PARKED)) ?s1)\<lparr>current_cont := None, cont_pending := Some i\<rparr>"]) simp_all
  have 2: "cont_ok ((upd_cont i (c_state_update (\<lambda>_. C_PARKED)) ?s1)\<lparr>cont_pending := Some i, park_count := x, current_cont := None\<rparr>)" for x
    using s by (subst cont_ok_cong [of _ "(upd_cont i (c_state_update (\<lambda>_. C_PARKED)) ?s1)\<lparr>current_cont := None, cont_pending := Some i\<rparr>"]) simp_all
  show ?thesis
  proof (cases "pending_wake (pool ?s1 ! i)")
    case True
    then show ?thesis using cur wake_consumed_ok [OF ok1] by (auto simp: park_external_def)
  next
    case False
    then show ?thesis
      using cur 1 2 [of "park_count ?s1 + 1"] run_okD(1) [OF ok cur] pool_length [OF ok1]
      by (simp add: park_external_def Let_def current_upd_switch upd_cont_nth) (auto simp: do_switch_def upd_cont_def)
  qed
qed

text \<open>A suspended continuation is made ready.\<close>

lemma ready_ok:
  assumes ok: "cont_ok s" and "i < 128" and "st_of s i \<noteq> C_FREE" and "current_cont s \<noteq> Some i"
  shows "cont_ok (upd_cont i (\<lambda>c. c\<lparr>pending_wake := True, c_state := C_READY\<rparr>) s)" (is "cont_ok ?s")
proof -
  have pool: "pool ?s ! j = (if i = j then (pool s ! i)\<lparr>pending_wake := True, c_state := C_READY\<rparr> else pool s ! j)" for j
    using assms(2) pool_length [OF ok] by (simp add: upd_cont_nth)
  have "pool_ok ?s" using ok assms(2,3) unfolding cont_ok_def pool_ok_def free_list_def pool by auto
  moreover have "run_ok ?s"
    using run_okD [OF ok] assms(4) by (intro run_okI; unfold pool) (auto split: if_splits)
  moreover have "fp_ok ?s" using ok unfolding cont_ok_def fp_ok_def pool by auto
  moreover have "futex_ok ?s"
    by (rule futex_ok_frame [OF ok]) (auto simp: waits_in_def upd_cont_nth)
  ultimately show ?thesis by (simp add: cont_ok_def)
qed

lemma coop_wake_ok: "cont_ok s \<Longrightarrow> cont_ok (coop_wake s)"
  using run_okD(3-5) [of s] by (auto simp: coop_wake_def intro!: ready_ok split: option.splits)

text \<open>The running continuation escapes.\<close>

lemma escape_ok:
  assumes ok: "cont_ok s" and cur: "current_cont s = Some i" and "\<not> fp_save_acquired s"
  shows "cont_ok ((upd_cont i (\<lambda>c. c\<lparr>quantum_armed := False, c_state := C_ESCAPED\<rparr>) s)\<lparr>current_cont := None, cont_pending := Some i, fp_save_acquired := True\<rparr>)"
    (is "cont_ok ?s")
proof -
  have i: "i < 128" and st: "st_of s i \<noteq> C_FREE" using run_okD(1,2) [OF ok cur] by auto
  have pool: "pool ?s ! j = (if i = j then (pool s ! i)\<lparr>quantum_armed := False, c_state := C_ESCAPED\<rparr> else pool s ! j)" for j
    using i pool_length [OF ok] by (simp add: upd_cont_nth)
  have "pool_ok ?s" using ok st i unfolding cont_ok_def pool_ok_def free_list_def pool by auto
  moreover have "run_ok ?s"
    using run_okD [OF ok] cur i by (intro run_okI; unfold pool) (auto split: if_splits)
  moreover have "fp_ok ?s" using ok assms(3) unfolding cont_ok_def fp_ok_def pool by auto
  moreover have "futex_ok ?s"
    by (rule futex_ok_frame [OF ok]) (auto simp: waits_in_def upd_cont_nth cur)
  ultimately show ?thesis by (simp add: cont_ok_def)
qed

lemma escape_switch_ok:
  assumes "cont_ok s" and "current_cont s = Some i" and "\<not> fp_save_acquired s"
    and "pool x = (pool s)[i := (pool s ! i)\<lparr>quantum_armed := False, c_state := C_ESCAPED\<rparr>]" "cont_next x = cont_next s" "cont_free_buf x = cont_free_buf s"
      "cont_free_top x = cont_free_top s" "cont_pending x = Some i" "fp_save_acquired x" "futex_addrs x = futex_addrs s"
      "futex_conts x = futex_conts s" "futex_waiter_count x = futex_waiter_count s" "futex_locals x = futex_locals s"
  shows "cont_ok (do_switch a b c (clear_scratch_slot (x\<lparr>current_cont := None\<rparr>)))"
  using escape_ok [OF assms(1-3)] assms(4-)
  by (subst cont_ok_cong [of _ "(upd_cont i (\<lambda>c. c\<lparr>quantum_armed := False, c_state := C_ESCAPED\<rparr>) s)\<lparr>current_cont := None, cont_pending := Some i,
      fp_save_acquired := True\<rparr>"]) (simp_all add: do_switch_def clear_scratch_slot_def upd_cont_def)

lemma self_escape_ok:
  assumes ok: "cont_ok s"
  shows "(case continuation_self_escape s of None \<Rightarrow> fp_save_acquired s | Some (b, s') \<Rightarrow> cont_ok s')"
proof (cases "current_cont s")
  case (Some i)
  with ok escape_switch_ok [OF ok Some] show ?thesis
    by (auto simp: continuation_self_escape_def acquire_fp_save_def Let_def upd_cont_def)
qed (simp add: continuation_self_escape_def ok)

lemma irq_escape_ok:
  assumes ok: "cont_ok s"
  shows "(case cont_step l t Irq_Escape s of None \<Rightarrow> fp_save_acquired s | Some s' \<Rightarrow> cont_ok s')"
proof (cases "current_cont s")
  case (Some i)
  with ok escape_switch_ok [OF ok Some] show ?thesis
    by (auto simp: quantum_escape_def quantum_yield_to_drain_def acquire_fp_save_def Let_def upd_cont_def)
qed (simp add: quantum_escape_def ok)

text \<open>The running continuation ends: its record goes to the free list.\<close>

lemma free_room:
  assumes ok: "cont_ok s" and "i < 128" and "st_of s i \<noteq> C_FREE"
  shows "i < cont_next s" and "i \<notin> set (free_list s)" and "cont_free_top s < 128"
proof -
  show i: "i < cont_next s" "i \<notin> set (free_list s)" using assms unfolding cont_ok_def pool_ok_def by auto
  have "set (free_list s) \<subseteq> {..<cont_next s} - {i}" using ok i unfolding cont_ok_def pool_ok_def by auto
  then have "card (set (free_list s)) \<le> card ({..<cont_next s} - {i})" by (rule card_mono [rotated]) simp
  moreover have "card (set (free_list s)) = cont_free_top s"
    using ok unfolding cont_ok_def pool_ok_def free_list_def by (simp add: distinct_card)
  ultimately show "cont_free_top s < 128" using ok i(1) unfolding cont_ok_def pool_ok_def by auto
qed

lemma freed_ok:
  assumes ok: "cont_ok s" and cur: "current_cont s = Some i"
    and x: "pool x = (pool s)[i := c]" "c_state c = C_FREE" "\<not> quantum_armed c" "cont_next x = cont_next s"
      "cont_free_buf x = (cont_free_buf s)[cont_free_top s := i]" "cont_free_top x = Suc (cont_free_top s)" "current_cont x = None"
      "cont_pending x = cont_pending s" "fp_save_acquired x = fp_save_acquired s" "futex_addrs x = futex_addrs s"
      "futex_conts x = futex_conts s" "futex_waiter_count x = futex_waiter_count s" "futex_locals x = futex_locals s"
  shows "cont_ok x"
proof -
  have i: "i < 128" and st: "st_of s i \<noteq> C_FREE" using run_okD(1,2) [OF ok cur] by auto
  note room = free_room [OF ok i st]
  have pool: "pool x ! j = (if i = j then c else pool s ! j)" for j using i pool_length [OF ok] by (simp add: x nth_upd)
  have "free_list x = free_list s @ [i]"
    using room(3) ok unfolding cont_ok_def pool_ok_def free_list_def x by (simp add: take_Suc_conv_app_nth)
  with ok room i have "pool_ok x" unfolding cont_ok_def pool_ok_def pool by (auto simp: x)
  moreover have "run_ok x"
    using run_okD [OF ok] cur by (intro run_okI; unfold pool) (auto simp: x split: if_splits)
  moreover have "fp_ok x" using ok unfolding cont_ok_def fp_ok_def pool by (auto simp: x)
  moreover have "futex_ok x"
    by (rule futex_ok_frame [OF ok]) (auto simp: waits_in_def pool cur x)
  ultimately show ?thesis by (simp add: cont_ok_def)
qed

lemma teardown_ok:
  assumes ok: "cont_ok s" and cur: "current_cont s = Some i"
  shows "\<exists>s'. continuation_teardown t s = Some s' \<and> cont_ok s' \<and> current_cont s' = None \<and> st_of s' i = C_FREE"
proof -
  have i: "i < 128" and st: "st_of s i \<noteq> C_FREE" using run_okD(1,2) [OF ok cur] by auto
  have top: "cont_free_top s < 128" by (rule free_room [OF ok i st])
  have "\<exists>s'. continuation_teardown t s = Some s' \<and> current_cont s' = None \<and> cont_next s' = cont_next s \<and>
      cont_free_buf s' = (cont_free_buf s)[cont_free_top s := i] \<and> cont_free_top s' = Suc (cont_free_top s) \<and> cont_pending s' = cont_pending s \<and>
      fp_save_acquired s' = fp_save_acquired s \<and> futex_addrs s' = futex_addrs s \<and> futex_conts s' = futex_conts s \<and>
      futex_waiter_count s' = futex_waiter_count s \<and> futex_locals s' = futex_locals s \<and>
      (\<exists>c. pool s' = (pool s)[i := c] \<and> c_state c = C_FREE \<and> \<not> quantum_armed c)"
    using cur top i pool_length [OF ok]
    by (simp add: continuation_teardown_def free_cont_def Let_def do_switch_def clear_scratch_slot_def)
      (auto simp: upd_cont_def disarm_pool intro!: exI)
  then obtain s' c where s': "continuation_teardown t s = Some s'" "current_cont s' = None" "cont_next s' = cont_next s"
      "cont_free_buf s' = (cont_free_buf s)[cont_free_top s := i]" "cont_free_top s' = Suc (cont_free_top s)" "cont_pending s' = cont_pending s"
      "fp_save_acquired s' = fp_save_acquired s" "futex_addrs s' = futex_addrs s" "futex_conts s' = futex_conts s"
      "futex_waiter_count s' = futex_waiter_count s" "futex_locals s' = futex_locals s"
      "pool s' = (pool s)[i := c]" "c_state c = C_FREE" "\<not> quantum_armed c" by blast
  moreover have "cont_ok s'" using freed_ok [OF ok cur] s' by blast
  ultimately show ?thesis using i pool_length [OF ok] by simp
qed

text \<open>A record leaves the allocator: it was free, and the free list still describes the others.\<close>

lemma alloc_cont_cases:
  assumes ok: "cont_ok s"
  shows "(alloc_cont s = None \<and> cont_next s = 128 \<and> cont_free_top s = 0) \<or>
    (\<exists>i s1. alloc_cont s = Some (i, s1) \<and> i < 128 \<and> st_of s i = C_FREE \<and>
       s1 = s\<lparr>cont_next := cont_next s1, cont_free_top := cont_free_top s1\<rparr> \<and> cont_next s1 \<le> 128 \<and> cont_free_top s1 \<le> 128 \<and>
       distinct (free_list s1) \<and> set (free_list s1) \<subseteq> {..<cont_next s1} \<and> i \<notin> set (free_list s1) \<and> i < cont_next s1 \<and>
       (\<forall>j < 128. j \<noteq> i \<longrightarrow> (st_of s j = C_FREE \<longleftrightarrow> cont_next s1 \<le> j \<or> j \<in> set (free_list s1))))"
proof (cases "cont_free_top s")
  case 0
  show ?thesis
  proof (cases "cont_next s < 128")
    case True
    with ok 0 have "st_of s (cont_next s) = C_FREE" "\<forall>j < 128. st_of s j = C_FREE \<longleftrightarrow> cont_next s \<le> j" "free_list s = []"
      unfolding cont_ok_def pool_ok_def by (auto simp: free_list_def)
    with 0 True show ?thesis by (auto simp: alloc_cont_def Let_def free_list_def)
  next
    case False
    with ok 0 show ?thesis unfolding cont_ok_def pool_ok_def by (simp add: alloc_cont_def)
  qed
next
  case (Suc n)
  define i where "i = cont_free_buf s ! n"
  have n: "n < length (cont_free_buf s)" using ok Suc unfolding cont_ok_def pool_ok_def by simp
  then have fl: "free_list s = take n (cont_free_buf s) @ [i]" by (simp add: free_list_def Suc i_def take_Suc_conv_app_nth)
  have d: "distinct (free_list s)" "set (free_list s) \<subseteq> {..<cont_next s}" "cont_next s \<le> 128"
    and free: "\<forall>j < 128. st_of s j = C_FREE \<longleftrightarrow> cont_next s \<le> j \<or> j \<in> set (free_list s)"
    using ok unfolding cont_ok_def pool_ok_def by auto
  then have i: "i < cont_next s" "i < 128" "i \<notin> set (take n (cont_free_buf s))" using fl by auto
  moreover have "st_of s i = C_FREE" using free i(2) fl by auto
  ultimately have "alloc_cont s = Some (i, s\<lparr>cont_free_top := n\<rparr>)" by (simp add: alloc_cont_def Suc i_def)
  moreover have "free_list (s\<lparr>cont_free_top := n\<rparr>) = take n (cont_free_buf s)" by (simp add: free_list_def)
  ultimately show ?thesis using i d free fl \<open>st_of s i = C_FREE\<close> n ok unfolding cont_ok_def pool_ok_def by auto
qed

lemma spawned_ok:
  assumes ok: "cont_ok s" and "current_cont s = None" and i: "i < 128" "st_of s i = C_FREE"
    and fl: "cont_next x \<le> 128" "cont_free_top x \<le> 128" "distinct (free_list x)" "set (free_list x) \<subseteq> {..<cont_next x}" "i \<notin> set (free_list x)"
      "i < cont_next x" "\<forall>j < 128. j \<noteq> i \<longrightarrow> (st_of s j = C_FREE \<longleftrightarrow> cont_next x \<le> j \<or> j \<in> set (free_list x))"
    and x: "pool x = (pool s)[i := c]" "c_state c = C_READY" "cont_free_buf x = cont_free_buf s" "current_cont x = Some i"
      "cont_pending x = cont_pending s" "fp_save_acquired x = fp_save_acquired s" "futex_addrs x = futex_addrs s"
      "futex_conts x = futex_conts s" "futex_waiter_count x = futex_waiter_count s" "futex_locals x = futex_locals s"
  shows "cont_ok x"
proof -
  have pool: "pool x ! j = (if i = j then c else pool s ! j)" for j using i pool_length [OF ok] by (simp add: x nth_upd)
  have "length (cont_free_buf s) = 128" using ok by (simp add: cont_ok_def pool_ok_def)
  then have "pool_ok x"
    using fl x(1,2,3) i pool_length [OF ok] unfolding pool_ok_def pool by auto
  moreover have "run_ok x"
    using run_okD [OF ok] assms(2) i by (intro run_okI; unfold pool) (auto simp: x split: if_splits)
  moreover have "fp_ok x" using ok unfolding cont_ok_def fp_ok_def pool by (auto simp: x)
  moreover have "futex_ok x"
    by (rule futex_ok_frame [OF ok]) (use i pool_length [OF ok] in \<open>auto simp: waits_in_def x nth_upd\<close>)
  ultimately show ?thesis by (simp add: cont_ok_def)
qed

lemma build_frame_same [simp]:
  "pool (build_frame l i s) = (pool s)[i := (pool s ! i)\<lparr>state_frame := cont_stack_top l i - STATE_SIZE, c_slot_top := cont_slot_top l i\<rparr>]"
  "current_cont (build_frame l i s) = current_cont s" "cont_next (build_frame l i s) = cont_next s" "cont_free_buf (build_frame l i s) = cont_free_buf s"
  "cont_free_top (build_frame l i s) = cont_free_top s" "cont_pending (build_frame l i s) = cont_pending s"
  "fp_save_acquired (build_frame l i s) = fp_save_acquired s" "futex_addrs (build_frame l i s) = futex_addrs s"
  "futex_conts (build_frame l i s) = futex_conts s" "futex_waiter_count (build_frame l i s) = futex_waiter_count s"
  "futex_locals (build_frame l i s) = futex_locals s" "exception_sp (build_frame l i s) = exception_sp s"
  by (simp_all add: build_frame_def Let_def upd_cont_def)

text \<open>What spawning does besides the allocation.\<close>

lemma spawn_effect:
  assumes ok: "cont_ok s" and none: "current_cont s = None" and a: "alloc_cont s = Some (i, s1)" "i < 128"
    and s1: "s1 = s\<lparr>cont_next := cont_next s1, cont_free_top := cont_free_top s1\<rparr>"
  shows "\<exists>s' c. spawn_continuation l t lsp entry func arg fd s = Some (i, s') \<and> pool s' = (pool s)[i := c] \<and> c_state c = C_READY \<and>
    state_frame c = cont_stack_top l i - STATE_SIZE \<and> c_slot_top c = cont_slot_top l i \<and>
    resumer_frame c = exception_sp s - STATE_SIZE \<and> resumer_slot c = exception_sp s \<and>
    cont_next s' = cont_next s1 \<and> cont_free_top s' = cont_free_top s1 \<and> cont_free_buf s' = cont_free_buf s \<and>
    current_cont s' = Some i \<and> cont_pending s' = cont_pending s \<and> fp_save_acquired s' = fp_save_acquired s \<and>
    futex_addrs s' = futex_addrs s \<and> futex_conts s' = futex_conts s \<and> futex_waiter_count s' = futex_waiter_count s \<and> futex_locals s' = futex_locals s"
proof -
  have eq: "current_cont s1 = None" "pool s1 = pool s" "exception_sp s1 = exception_sp s" "cont_free_buf s1 = cont_free_buf s"
      "cont_pending s1 = cont_pending s" "fp_save_acquired s1 = fp_save_acquired s" "futex_addrs s1 = futex_addrs s"
      "futex_conts s1 = futex_conts s" "futex_waiter_count s1 = futex_waiter_count s" "futex_locals s1 = futex_locals s"
    using none by (subst s1; simp)+
  show ?thesis
    using a pool_length [OF ok]
    by (auto simp: spawn_continuation_def Let_def resumer_def do_switch_def arm_pool upd_cont_def eq intro!: exI)
qed

lemma spawn_ok:
  assumes ok: "cont_ok s" and none: "current_cont s = None"
  shows "(case spawn_continuation l t lsp entry func arg fd s of None \<Rightarrow> cont_next s = 128 \<and> cont_free_top s = 0 | Some (i, s') \<Rightarrow> cont_ok s')"
  using alloc_cont_cases [OF ok]
proof (elim disjE conjE exE)
  assume "alloc_cont s = None" "cont_next s = 128" "cont_free_top s = 0"
  then show ?thesis by (simp add: spawn_continuation_def)
next
  fix i s1
  assume a: "alloc_cont s = Some (i, s1)" "i < 128" and s1: "s1 = s\<lparr>cont_next := cont_next s1, cont_free_top := cont_free_top s1\<rparr>"
    and free: "st_of s i = C_FREE" and fl: "cont_next s1 \<le> 128" "cont_free_top s1 \<le> 128" "distinct (free_list s1)" "set (free_list s1) \<subseteq> {..<cont_next s1}"
      "i \<notin> set (free_list s1)" "i < cont_next s1" "\<forall>j < 128. j \<noteq> i \<longrightarrow> (st_of s j = C_FREE \<longleftrightarrow> cont_next s1 \<le> j \<or> j \<in> set (free_list s1))"
  from spawn_effect [OF ok none a s1, of l t lsp entry func arg fd] obtain s' c where
    s': "spawn_continuation l t lsp entry func arg fd s = Some (i, s')" "pool s' = (pool s)[i := c]" "c_state c = C_READY"
      "cont_next s' = cont_next s1" "cont_free_top s' = cont_free_top s1" "cont_free_buf s' = cont_free_buf s" "current_cont s' = Some i"
      "cont_pending s' = cont_pending s" "fp_save_acquired s' = fp_save_acquired s" "futex_addrs s' = futex_addrs s"
      "futex_conts s' = futex_conts s" "futex_waiter_count s' = futex_waiter_count s" "futex_locals s' = futex_locals s"
    by blast
  have "cont_free_buf s1 = cont_free_buf s" by (subst s1) simp
  with s' have "free_list s' = free_list s1" by (simp add: free_list_def)
  then have "cont_ok s'" using spawned_ok [OF ok none a(2) free, of s' c] s' fl by simp
  with s'(1) show ?thesis by simp
qed

text \<open>The futex table.\<close>

lemma filter_nz_clear: "k < length xs \<Longrightarrow> length (filter (\<lambda>a. a \<noteq> 0) (xs[k := 0])) = length (filter (\<lambda>a. a \<noteq> 0) xs) - (if xs ! k \<noteq> 0 then 1 else 0)"
    and filter_nz_set: "k < length xs \<Longrightarrow> xs ! k = 0 \<Longrightarrow> a \<noteq> 0 \<Longrightarrow> length (filter (\<lambda>a. a \<noteq> 0) (xs[k := a])) = Suc (length (filter (\<lambda>a. a \<noteq> 0) xs))"
    and filter_nz_pos: "k < length xs \<Longrightarrow> xs ! k \<noteq> 0 \<Longrightarrow> 0 < length (filter (\<lambda>a. a \<noteq> 0) xs)" for xs :: "u64 list"
  by (induction xs arbitrary: k) (auto simp: nth_Cons split: nat.splits)

lemma clear_slot_ok:
  assumes ok: "cont_ok s"
  shows "cont_ok (clear_futex_slot k s)"
proof (cases "k < 128 \<and> futex_addrs s ! k \<noteq> 0")
  case True
  let ?s = "clear_futex_slot k s"
  note f = futex_okD [OF ok]
  have s: "?s = s\<lparr>futex_addrs := (futex_addrs s)[k := 0], futex_conts := (futex_conts s)[k := None], futex_waiter_count := futex_waiter_count s - 1\<rparr>"
    using True by (simp add: clear_futex_slot_def)
  have "futex_ok ?s"
  proof (rule futex_okI)
    have "0 < unat (futex_waiter_count s)" using True f(1,7) filter_nz_pos [of k "futex_addrs s"] by simp
    then have "futex_waiter_count s \<noteq> 0" by auto
    then show "unat (futex_waiter_count ?s) = length (filter (\<lambda>a. a \<noteq> 0) (futex_addrs ?s))"
      using True f(1,7) filter_nz_clear [of k "futex_addrs s"] by (simp add: s unat_minus_one)
    show "futex_addrs ?s ! j = 0 \<longleftrightarrow> futex_conts ?s ! j = None" if "j < 128" for j
      using f(1,2) f(3) [OF that] True by (simp add: s nth_upd)
    show "futex_locals ?s i = Some j" if "j < 128" "futex_conts ?s ! j = Some i" for j i
      using that f(2) f(4) [of j i] by (simp add: s nth_upd split: if_splits)
    show "j < 128 \<and> waits_in ?s i" if "futex_locals ?s i = Some j" for i j
      using that f(5,6) [of i j] by (simp add: s waits_in_def)
  qed (use f(1,2) in \<open>simp_all add: s\<close>)
  moreover have "pool_ok ?s" "run_ok ?s" "fp_ok ?s" using ok by (simp_all add: s cont_ok_def pool_ok_def free_list_def run_ok_def fp_ok_def)
  ultimately show ?thesis by (simp add: cont_ok_def)
next
  case False
  then have "clear_futex_slot k s = s"
    using futex_okD(1) [OF ok] by (auto simp: clear_futex_slot_def list_update_same_conv)
  then show ?thesis using ok by simp
qed

lemma clear_slot_same [simp]:
  "pool (clear_futex_slot k s) = pool s" "current_cont (clear_futex_slot k s) = current_cont s" "cont_pending (clear_futex_slot k s) = cont_pending s"
  "futex_locals (clear_futex_slot k s) = futex_locals s"
  by (simp_all add: clear_futex_slot_def Let_def)

text \<open>Waiting: the running continuation enters the table and is suspended, or gives its place up again.\<close>

lemma register_ok:
  assumes ok: "cont_ok s" and "addr \<noteq> 0" and k: "position (\<lambda>a. a = 0) (futex_addrs s) = Some k" and i: "waits_in s i"
    and "\<And>k. k < 128 \<Longrightarrow> futex_conts s ! k \<noteq> Some i"
  shows "cont_ok (s\<lparr>futex_addrs := (futex_addrs s)[k := addr], futex_conts := (futex_conts s)[k := Some i],
    futex_waiter_count := futex_waiter_count s + 1, futex_locals := (futex_locals s)(i := Some k)\<rparr>)" (is "cont_ok ?s")
proof -
  note f = futex_okD [OF ok]
  have k': "k < 128" "futex_addrs s ! k = 0" using position_Some [OF k] f(1) by auto
  have "length (filter (\<lambda>a. a \<noteq> 0) (futex_addrs s)) \<le> 128" using f(1) length_filter_le [of "\<lambda>a. a \<noteq> 0" "futex_addrs s"] by simp
  then have count: "unat (futex_waiter_count s + 1) = Suc (unat (futex_waiter_count s))"
    using f(7) by (simp add: unat_word_ariths)
  have "futex_ok ?s"
  proof (rule futex_okI)
    show "unat (futex_waiter_count ?s) = length (filter (\<lambda>a. a \<noteq> 0) (futex_addrs ?s))"
      using k' assms(2) f(1,7) filter_nz_set [of k "futex_addrs s" addr] count by simp
    show "futex_addrs ?s ! j = 0 \<longleftrightarrow> futex_conts ?s ! j = None" if "j < 128" for j
      using f(1,2) f(3) [OF that] assms(2) k' by (simp add: nth_upd)
    show "futex_locals ?s n = Some j" if "j < 128" "futex_conts ?s ! j = Some n" for j n
      using that f(2) f(4) [of j n] assms(5) [of j] k' by (auto simp: nth_upd split: if_splits)
    show "j < 128 \<and> waits_in ?s n" if "futex_locals ?s n = Some j" for n j
      using that f(5,6) [of n j] i k'(1) by (auto simp: waits_in_def split: if_splits)
  qed (use f(1,2) in simp_all)
  moreover have "pool_ok ?s" "run_ok ?s" "fp_ok ?s" using ok by (simp_all add: cont_ok_def pool_ok_def free_list_def run_ok_def fp_ok_def)
  ultimately show ?thesis by (simp add: cont_ok_def)
qed

lemma not_registered: "cont_ok s \<Longrightarrow> \<not> waits_in s i \<Longrightarrow> k < 128 \<Longrightarrow> futex_conts s ! k \<noteq> Some i"
  using futex_okD(4,6) by blast

lemma park_external_futex:
  "park_external t b (s\<lparr>futex_addrs := A, futex_conts := B, futex_waiter_count := C\<rparr>) =
   map_option (\<lambda>(p, s'). (p, s'\<lparr>futex_addrs := A, futex_conts := B, futex_waiter_count := C\<rparr>)) (park_external t b s)"
proof -
  have "disarm_quantum t i (s\<lparr>futex_addrs := A, futex_conts := B, futex_waiter_count := C\<rparr>) =
      (disarm_quantum t i s)\<lparr>futex_addrs := A, futex_conts := B, futex_waiter_count := C\<rparr>" for i
    by (simp add: disarm_quantum_def upd_cont_def Let_def split: prod.splits)
  then show ?thesis by (cases "current_cont s") (simp_all add: park_external_def upd_cont_def Let_def do_switch_def)
qed

lemma cont_futex_wait_ok:
  assumes ok: "cont_ok s" and cur: "current_cont s = Some i" and "addr \<noteq> 0"
  shows "\<exists>r s'. cont_futex_wait t addr value expected s = Some (r, s') \<and> cont_ok s'"
proof (cases "value = expected")
  case False
  with ok cur show ?thesis by (simp add: cont_futex_wait_def)
next
  case eq: True
  show ?thesis
  proof (cases "position (\<lambda>a. a = 0) (futex_addrs s)")
    case None
    with ok cur eq show ?thesis by (simp add: cont_futex_wait_def register_futex_wait_def)
  next
    case (Some k)
    have k: "k < 128" "futex_addrs s ! k = 0" "futex_conts s ! k = None"
      using position_Some [OF Some] futex_okD(1,3) [OF ok] by auto
    let ?A = "(futex_addrs s)[k := addr]" and ?B = "(futex_conts s)[k := Some i]" and ?C = "futex_waiter_count s + 1"
    obtain b s2 where p: "park_external t False s = Some (b, s2)" and ok2: "cont_ok s2" and same: "futex_locals s2 = futex_locals s"
        "futex_addrs s2 = futex_addrs s" "futex_conts s2 = futex_conts s" "futex_waiter_count s2 = futex_waiter_count s"
      and b: "if b then current_cont s2 = None \<and> st_of s2 i = C_PARKED else current_cont s2 = Some i"
      using park_external_ok [OF ok cur] by blast
    have reg: "register_futex_wait addr i s = (k, s\<lparr>futex_addrs := ?A, futex_conts := ?B, futex_waiter_count := ?C\<rparr>)"
      by (simp add: register_futex_wait_def Some)
    show ?thesis
    proof (cases b)
      case True
      have "waits_in s2 i" using b True run_okD(1) [OF ok cur] by (simp add: waits_in_def)
      moreover have "\<not> waits_in s i" using cur by (simp add: waits_in_def)
      ultimately have "cont_ok (s2\<lparr>futex_addrs := ?A, futex_conts := ?B, futex_waiter_count := ?C, futex_locals := (futex_locals s)(i := Some k)\<rparr>)"
        using register_ok [OF ok2 assms(3), of k i] not_registered [OF ok] Some by (simp add: same)
      with eq cur k(1) reg p True show ?thesis
        by (simp add: cont_futex_wait_def park_external_futex same)
    next
      case False
      have "clear_futex_slot k (s2\<lparr>futex_addrs := ?A, futex_conts := ?B, futex_waiter_count := ?C\<rparr>) = s2"
        using k assms(3) futex_okD(1,2) [OF ok] same
        by (simp add: clear_futex_slot_def list_update_same_conv [THEN iffD2])
      with eq cur k(1) reg p False ok2 show ?thesis
        by (simp add: cont_futex_wait_def park_external_futex)
    qed
  qed
qed

text \<open>Waking: each entry taken out of the table makes its continuation ready.\<close>

abbreviation less_count :: "int \<Rightarrow> cont_sys \<Rightarrow> cont_sys" where
  "less_count w s \<equiv> s\<lparr>futex_waiter_count := futex_waiter_count s - of_int w\<rparr>"

lemma less_count_upd: "upd_cont c f (less_count w s) = less_count w (upd_cont c f s)"
  by (simp add: upd_cont_def)

lemma wake_entry_ok:
  assumes ok: "cont_ok (less_count w s)" and "k < 128" and "futex_addrs s ! k \<noteq> 0"
  shows "\<exists>c. futex_conts s ! k = Some c \<and> c < 128 \<and> current_cont s \<noteq> Some c \<and>
    cont_ok (less_count (w + 1) (upd_cont c (\<lambda>c. c\<lparr>pending_wake := True, c_state := C_READY\<rparr>)
      (s\<lparr>futex_addrs := (futex_addrs s)[k := 0], futex_conts := (futex_conts s)[k := None]\<rparr>)))"
proof -
  let ?s = "less_count w s"
  obtain c where c: "futex_conts s ! k = Some c" using futex_okD(3) [OF ok assms(2)] assms(3) by auto
  then have "waits_in ?s c" using futex_okD(4,6) [OF ok] assms(2) by simp
  then have w: "c < 128" "st_of s c \<noteq> C_FREE" "current_cont s \<noteq> Some c" by (auto simp: waits_in_def)
  have clear: "clear_futex_slot k ?s = less_count (w + 1) (s\<lparr>futex_addrs := (futex_addrs s)[k := 0], futex_conts := (futex_conts s)[k := None]\<rparr>)"
    using assms(2,3) by (simp add: clear_futex_slot_def algebra_simps)
  have "cont_ok (upd_cont c (\<lambda>c. c\<lparr>pending_wake := True, c_state := C_READY\<rparr>) (clear_futex_slot k ?s))"
    using ready_ok [OF clear_slot_ok [OF ok], of c k] w by simp
  then show ?thesis using c w unfolding clear less_count_upd by simp
qed

lemma futex_wake_scan_ok:
  assumes "cont_ok (less_count w s)" and "\<forall>k \<in> set ks. k < 128"
    and "\<forall>c. last_cont = Some c \<longrightarrow> c < 128 \<and> st_of s c = C_READY \<and> current_cont s \<noteq> Some c"
    and "futex_wake_scan ks addr mx w last_cont s = (w', last', s')"
  shows "cont_ok (less_count w' s') \<and> (\<forall>c. last' = Some c \<longrightarrow> c < 128 \<and> st_of s' c = C_READY \<and> current_cont s' \<noteq> Some c)"
  using assms
proof (induction ks arbitrary: w last_cont s)
  case (Cons k ks)
  show ?case
  proof (cases "mx \<le> w \<or> futex_addrs s ! k = 0 \<or> futex_addrs s ! k \<noteq> addr")
    case True
    with Cons.prems(4) have "(w', last', s') = (w, last_cont, s) \<or> futex_wake_scan ks addr mx w last_cont s = (w', last', s')"
      by (simp split: if_split_asm)
    then show ?thesis
    proof
      assume "(w', last', s') = (w, last_cont, s)"
      with Cons.prems(1,3) show ?thesis by blast
    next
      assume "futex_wake_scan ks addr mx w last_cont s = (w', last', s')"
      then show ?thesis using Cons.prems(2) by (intro Cons.IH [OF Cons.prems(1) _ Cons.prems(3)]) simp_all
    qed
  next
    case False
    let ?s1 = "s\<lparr>futex_addrs := (futex_addrs s)[k := 0], futex_conts := (futex_conts s)[k := None]\<rparr>"
    from wake_entry_ok [OF Cons.prems(1), of k] False Cons.prems(2) obtain c where c: "futex_conts s ! k = Some c" "c < 128" "current_cont s \<noteq> Some c"
      and ok: "cont_ok (less_count (w + 1) (upd_cont c (\<lambda>c. c\<lparr>pending_wake := True, c_state := C_READY\<rparr>) ?s1))" by auto
    have "length (pool s) = 128" using pool_length [OF Cons.prems(1)] by simp
    with c have last: "\<forall>d. Some c = Some d \<longrightarrow> d < 128 \<and> st_of (upd_cont c (\<lambda>c. c\<lparr>pending_wake := True, c_state := C_READY\<rparr>) ?s1) d = C_READY \<and>
        current_cont (upd_cont c (\<lambda>c. c\<lparr>pending_wake := True, c_state := C_READY\<rparr>) ?s1) \<noteq> Some d"
      by (simp add: upd_cont_nth)
    have "futex_wake_scan ks addr mx (w + 1) (Some c) (upd_cont c (\<lambda>c. c\<lparr>pending_wake := True, c_state := C_READY\<rparr>) ?s1) = (w', last', s')"
      using Cons.prems(4) False c(1) by (auto simp: Let_def)
    then show ?thesis using Cons.prems(2) by (intro Cons.IH [OF ok _ last]) simp_all
  qed
qed simp

lemma register_pending_ok:
  assumes "cont_ok x" "c < 128" "st_of x c = C_READY" "current_cont x \<noteq> Some c"
  shows "cont_ok (x\<lparr>cont_pending := Some c\<rparr>)"
proof -
  have "run_ok (x\<lparr>cont_pending := Some c\<rparr>)" using run_okD [OF assms(1)] assms(2-4) by (intro run_okI) simp_all
  moreover have "pool_ok (x\<lparr>cont_pending := Some c\<rparr>) = pool_ok x" by (simp add: pool_ok_def free_list_def)
  moreover have "fp_ok (x\<lparr>cont_pending := Some c\<rparr>) = fp_ok x" by (simp add: fp_ok_def)
  moreover have "futex_ok (x\<lparr>cont_pending := Some c\<rparr>) = futex_ok x" by (simp add: futex_ok_def waits_in_def)
  ultimately show ?thesis using assms(1) by (simp add: cont_ok_def)
qed

lemma cont_futex_wake_ok:
  assumes ok: "cont_ok s"
  shows "cont_ok (snd (cont_futex_wake addr count s))"
proof -
  obtain w last' s' where scan: "futex_wake_scan [0..<128] addr (if count = i32_max then 128 else count) 0 None s = (w, last', s')"
    by (metis prod_cases3)
  have "cont_ok (less_count 0 s)" using ok by simp
  note scan_ok = futex_wake_scan_ok [OF this _ _ scan]
  have eq: "snd (cont_futex_wake addr count s) =
      (if count \<le> 0 then s else if last' = None then less_count w s' else (less_count w s')\<lparr>cont_pending := last'\<rparr>)"
    using scan by (cases "count = i32_max") (simp_all add: cont_futex_wake_def Let_def)
  have 1: "cont_ok (less_count w s')" using scan_ok by simp
  have 2: "cont_ok ((less_count w s')\<lparr>cont_pending := Some c\<rparr>)" if "last' = Some c" for c
    by (rule register_pending_ok [OF 1]) (use that scan_ok in simp_all)
  show ?thesis unfolding eq using ok 1 2 by (cases last') simp_all
qed

text \<open>Draining: a ready or escaped continuation runs again and leaves the futex table.\<close>

lemma drain_resolve:
  assumes ok: "cont_ok s"
  shows "drain_resolve_ready s = Some i \<Longrightarrow> i < 128 \<and> drainable (st_of s i)"
    and "drain_resolve_ready s = None \<Longrightarrow> j < 128 \<Longrightarrow> \<not> drainable (st_of s j)"
  using run_okD(3) [OF ok] pool_length [OF ok] position_Some [of "\<lambda>c. drainable (c_state c)" "pool s"]
    position_None [of "\<lambda>c. drainable (c_state c)" "pool s"]
  by (auto simp: drain_resolve_ready_def split: option.splits if_splits)

lemma drained_ok:
  assumes ok: "cont_ok s" and none: "current_cont s = None" and i: "i < 128" "drainable (st_of s i)" and wait: "futex_locals s i = None"
    and x: "pool x = (pool s)[i := c]" "c_state c = C_RUNNING" "cont_next x = cont_next s" "cont_free_buf x = cont_free_buf s"
      "cont_free_top x = cont_free_top s" "current_cont x = Some i" "cont_pending x = None"
      "fp_save_acquired x = (fp_save_acquired s \<and> st_of s i \<noteq> C_ESCAPED)" "futex_addrs x = futex_addrs s"
      "futex_conts x = futex_conts s" "futex_waiter_count x = futex_waiter_count s" "futex_locals x = futex_locals s"
  shows "cont_ok x"
proof -
  have pool: "pool x ! j = (if i = j then c else pool s ! j)" for j using i(1) pool_length [OF ok] by (simp add: x nth_upd)
  have st: "st_of s i \<noteq> C_FREE" using i(2) by (auto simp: drainable_def)
  have "pool_ok x" using ok st i(1) unfolding cont_ok_def pool_ok_def free_list_def pool by (auto simp: x)
  moreover have "run_ok x"
    using run_okD [OF ok] none i by (intro run_okI; unfold pool) (auto simp: x split: if_splits)
  moreover have "fp_ok x" using ok i(1) unfolding cont_ok_def fp_ok_def pool by (auto simp: x)
  moreover have "futex_ok x"
  proof (rule futex_okI)
    show "n < 128 \<and> waits_in x j" if "futex_locals x j = Some n" for j n
      using that futex_okD(5,6) [OF ok, of j n] wait i(1) pool_length [OF ok] by (cases "j = i") (auto simp: x waits_in_def nth_upd)
    show "futex_locals x j = Some n" if "n < 128" "futex_conts x ! n = Some j" for n j
      using futex_okD(4) [OF ok] that by (simp add: x)
  qed (use futex_okD(1,2,3,7) [OF ok] in \<open>simp_all add: x\<close>)
  ultimately show ?thesis by (simp add: cont_ok_def)
qed

lemma forget_local_ok:
  assumes ok: "cont_ok s" and "\<And>k. k < 128 \<Longrightarrow> futex_conts s ! k \<noteq> Some i"
  shows "cont_ok (s\<lparr>futex_locals := (futex_locals s)(i := None)\<rparr>)" (is "cont_ok ?s")
proof -
  have "futex_ok ?s"
  proof (rule futex_okI)
    show "n < 128 \<and> waits_in ?s j" if "futex_locals ?s j = Some n" for j n
      using that futex_okD(5,6) [OF ok, of j n] by (auto simp: waits_in_def split: if_splits)
    show "futex_locals ?s j = Some n" if "n < 128" "futex_conts ?s ! n = Some j" for n j
      using futex_okD(4) [OF ok, of n j] that assms(2) [of n] by auto
  qed (use futex_okD(1,2,3,7) [OF ok] in simp_all)
  moreover have "pool_ok ?s = pool_ok s" by (simp add: pool_ok_def free_list_def)
  moreover have "fp_ok ?s = fp_ok s" by (simp add: fp_ok_def)
  moreover have "run_ok ?s = run_ok s" by (simp add: run_ok_def)
  ultimately show ?thesis using ok by (simp add: cont_ok_def)
qed

lemma futex_return_ok:
  assumes ok: "cont_ok s"
  shows "cont_ok (cont_futex_return i s)" and "futex_locals (cont_futex_return i s) i = None"
proof -
  show "futex_locals (cont_futex_return i s) i = None" by (simp add: cont_futex_return_def split: option.splits)
  show "cont_ok (cont_futex_return i s)"
  proof (cases "futex_locals s i")
    case None
    with ok show ?thesis by (simp add: cont_futex_return_def)
  next
    case (Some k)
    let ?s = "clear_futex_slot k s"
    have k: "k < 128" using futex_okD(5) [OF ok Some] .
    have "futex_conts ?s ! n \<noteq> Some i" if "n < 128" for n
    proof (cases "n = k")
      case True
      then show ?thesis
        using k futex_okD(2) [OF ok] futex_okD(3) [OF ok k] by (auto simp: clear_futex_slot_def Let_def)
    next
      case False
      then show ?thesis
        using futex_okD(4) [OF ok that] Some by (auto simp: clear_futex_slot_def Let_def)
    qed
    then have "cont_ok (?s\<lparr>futex_locals := (futex_locals ?s)(i := None)\<rparr>)" by (intro forget_local_ok clear_slot_ok ok)
    moreover have "cont_futex_return i s = ?s\<lparr>futex_locals := (futex_locals ?s)(i := None)\<rparr>"
      by (simp add: cont_futex_return_def Some) (simp add: clear_futex_slot_def Let_def)
    ultimately show ?thesis by simp
  qed
qed

lemma futex_return_same [simp]:
  "pool (cont_futex_return i s) = pool s" "current_cont (cont_futex_return i s) = current_cont s" "cont_pending (cont_futex_return i s) = cont_pending s"
  "cont_next (cont_futex_return i s) = cont_next s" "cont_free_buf (cont_futex_return i s) = cont_free_buf s"
  "cont_free_top (cont_futex_return i s) = cont_free_top s" "fp_save_acquired (cont_futex_return i s) = fp_save_acquired s"
  by (simp_all add: cont_futex_return_def clear_futex_slot_def Let_def split: option.splits)

lemma futex_return_cong:
  assumes "futex_addrs x = futex_addrs s" "futex_conts x = futex_conts s" "futex_waiter_count x = futex_waiter_count s" "futex_locals x = futex_locals s"
  shows "futex_addrs (cont_futex_return i x) = futex_addrs (cont_futex_return i s)" "futex_conts (cont_futex_return i x) = futex_conts (cont_futex_return i s)"
    "futex_waiter_count (cont_futex_return i x) = futex_waiter_count (cont_futex_return i s)"
    "futex_locals (cont_futex_return i x) = futex_locals (cont_futex_return i s)"
  using assms by (auto simp: cont_futex_return_def clear_futex_slot_def Let_def split: option.splits)

text \<open>What the drain does.\<close>

lemma drain_effect:
  assumes ok: "cont_ok s" and none: "current_cont s = None" and i: "drain_resolve_ready s = Some i"
  shows "\<exists>s' c. drain_ready t lsp s = Some s' \<and> pool s' = (pool s)[i := c] \<and> c_state c = C_RUNNING \<and> \<not> pending_wake c \<and> quantum_armed c \<and>
    resumer_frame c = exception_sp s - STATE_SIZE \<and> resumer_slot c = exception_sp s \<and>
    sa_save (switch_to_args s') = exception_sp s - STATE_SIZE \<and>
    sa_target (switch_to_args s') = (if st_of s i = C_ESCAPED then escape_frame (pool s ! i) else state_frame (pool s ! i)) \<and>
    sa_target_slot (switch_to_args s') = c_slot_top (pool s ! i) \<and>
    scratch_slot s' = c_slot_top (pool s ! i) \<and>
    fp_live s' = (if st_of s i = C_ESCAPED then fp_save_buf s else fp_live s) \<and>
    cont_next s' = cont_next s \<and> cont_free_buf s' = cont_free_buf s \<and> cont_free_top s' = cont_free_top s \<and> current_cont s' = Some i \<and>
    cont_pending s' = None \<and> fp_save_acquired s' = (fp_save_acquired s \<and> st_of s i \<noteq> C_ESCAPED) \<and> futex_addrs s' = futex_addrs s \<and>
    futex_conts s' = futex_conts s \<and> futex_waiter_count s' = futex_waiter_count s \<and> futex_locals s' = futex_locals s"
proof -
  have "i < 128" using drain_resolve(1) [OF ok i] by simp
  moreover have "st_of s i = C_ESCAPED \<Longrightarrow> fp_save_acquired s" using ok calculation unfolding cont_ok_def fp_ok_def by auto
  ultimately show ?thesis
    using none i pool_length [OF ok]
    by (auto simp: drain_ready_def Let_def resumer_def do_switch_def arm_pool upd_cont_def release_fp_save_def intro!: exI)
qed

lemma drain_ok:
  assumes ok: "cont_ok s" and none: "current_cont s = None"
  shows "\<exists>s'. cont_step l t Drain s = Some s' \<and> cont_ok s'"
proof (cases "drain_resolve_ready s")
  case None
  with ok none show ?thesis by (simp add: drain_ready_def)
next
  case (Some i)
  let ?r = "cont_futex_return i s"
  from drain_effect [OF ok none Some, of t 0] obtain s' c where s': "drain_ready t 0 s = Some s'"
      "pool s' = (pool s)[i := c]" "c_state c = C_RUNNING" "cont_next s' = cont_next s" "cont_free_buf s' = cont_free_buf s"
      "cont_free_top s' = cont_free_top s" "current_cont s' = Some i" "cont_pending s' = None"
      "fp_save_acquired s' = (fp_save_acquired s \<and> st_of s i \<noteq> C_ESCAPED)" "futex_addrs s' = futex_addrs s"
      "futex_conts s' = futex_conts s" "futex_waiter_count s' = futex_waiter_count s" "futex_locals s' = futex_locals s" by blast
  note fr = futex_return_cong [OF s'(10-13)]
  have "cont_ok (cont_futex_return i s')"
    by (rule drained_ok [where s = ?r and i = i and c = c]) (use futex_return_ok(1) [OF ok] drain_resolve(1) [OF ok Some] none s' fr futex_return_ok(2) [OF ok] in simp_all)
  with s' show ?thesis by simp
qed

text \<open>All operations.\<close>

lemma cont_step_ok:
  assumes ok: "cont_ok s" and en: "cont_enabled op s"
  shows "(case cont_step l t op s of
     None \<Rightarrow> (\<exists>entry func arg fd. op = Spawn entry func arg fd) \<and> cont_next s = 128 \<and> cont_free_top s = 0 \<or>
             (op = Self_Escape \<or> op = Irq_Escape) \<and> fp_save_acquired s
   | Some s' \<Rightarrow> cont_ok s')"
proof (cases op)
  case (Spawn entry func arg fd)
  with spawn_ok [OF ok, of l t 0 entry func arg fd] en show ?thesis by (auto split: option.splits)
next
  case (Park pend)
  with en obtain i where "current_cont s = Some i" by auto
  from park_with_pend_ok [OF ok this, of t pend] Park show ?thesis by auto
next
  case (Park_External stats)
  with en obtain i where "current_cont s = Some i" by auto
  from park_external_ok [OF ok this, of t stats] Park_External show ?thesis by auto
next
  case Teardown
  with en obtain i where "current_cont s = Some i" by auto
  from teardown_ok [OF ok this, of t] Teardown show ?thesis by auto
next
  case Self_Escape
  with self_escape_ok [OF ok] show ?thesis by (auto split: option.splits)
next
  case Irq_Escape
  with irq_escape_ok [OF ok, of l t] show ?thesis
    by (cases "cont_step l t Irq_Escape s") (simp_all del: cont_step.simps)
next
  case Drain
  with drain_ok [OF ok, of l t] en show ?thesis by auto
next
  case (Futex_Wait addr val expected)
  with en obtain i where "current_cont s = Some i" and "addr \<noteq> 0" by auto
  from cont_futex_wait_ok [OF ok this, of t val expected] Futex_Wait show ?thesis by auto
qed (use ok coop_wake_ok cont_futex_wake_ok in \<open>simp_all add: continuation_reaped_def\<close>)

lemma cont_reach_ok: "cont_reach l s \<Longrightarrow> cont_ok s"
proof (induction rule: cont_reach.induct)
  case (cont_next_step s op t s')
  with cont_step_ok [of s op l t] show ?case by simp
qed (rule cont_init_ok)

end
