(* ===== verification/Cont_Switch.thy ===== *)
theory Cont_Switch
  imports Task_Frame
begin

text \<open>
  The switch between continuations, \<open>cont_switch\<close> of \<^verbatim>\<open>src/arch/aarch64/kernel/continuations.rs\<close>: the instructions of the naked
  assembly routine, a machine that executes them, and what a switch does to registers, stacks and memory.
\<close>

unbundle bit_operations_syntax

section \<open>The machine\<close>

text \<open>The general registers x0 to x30, the two stack pointers of exception level 1 with the bit that selects one of them, the
  interrupt masks, and the system registers the routine uses.\<close>

record machine =
  xr :: "nat \<Rightarrow> u64"
  m_sp_el0 :: u64
  m_sp_el1 :: u64
  m_spsel :: u64
  m_daif :: u64
  m_zero :: bool
  m_tpidr_el0 :: u64
  m_tpidr_el1 :: u64
  m_elr :: u64
  m_spsr :: u64
  m_pc :: u64
  m_mem :: memory

definition m_sp :: "machine \<Rightarrow> u64" where
  "m_sp m = (if m_spsel m = 0 then m_sp_el0 m else m_sp_el1 m)"

definition set_sp :: "u64 \<Rightarrow> machine \<Rightarrow> machine" where
  "set_sp v m = (if m_spsel m = 0 then m\<lparr>m_sp_el0 := v\<rparr> else m\<lparr>m_sp_el1 := v\<rparr>)"

definition set_x :: "nat \<Rightarrow> u64 \<Rightarrow> machine \<Rightarrow> machine" where
  "set_x d v m = m\<lparr>xr := (xr m)(d := v)\<rparr>"

definition store :: "u64 \<Rightarrow> u64 \<Rightarrow> machine \<Rightarrow> machine" where
  "store a v m = m\<lparr>m_mem := (m_mem m)(a := v)\<rparr>"

datatype sysreg = SPSEL | TPIDR_EL0 | TPIDR_EL1 | ELR_EL1 | SPSR_EL1 | SP_EL0

text \<open>The instructions of the routine. \<open>Adr\<close> stands for the pair \<open>adrp\<close>/\<open>add\<close> that loads the address of a symbol.\<close>

datatype instr =
    Stp_Pre nat nat
  | Ldp_Post nat nat
  | Adr nat u64
  | Ldr nat nat u64
  | Str nat nat u64
  | Ldp nat nat nat u64
  | Mrs nat sysreg
  | Msr sysreg nat
  | Msr_Spsel u64
  | Mov nat nat
  | Mov_Imm nat u64
  | Mov_From_Sp nat
  | Mov_To_Sp nat
  | Add_Imm nat nat u64
  | Orr nat nat nat
  | Cmp_Imm nat u64
  | B_Ne nat
  | B nat
  | Label nat
  | Eret

fun read_sys :: "sysreg \<Rightarrow> machine \<Rightarrow> u64 option" where
  "read_sys SPSEL m = Some (m_spsel m)"
| "read_sys TPIDR_EL0 m = Some (m_tpidr_el0 m)"
| "read_sys TPIDR_EL1 m = Some (m_tpidr_el1 m)"
| "read_sys ELR_EL1 m = Some (m_elr m)"
| "read_sys SPSR_EL1 m = Some (m_spsr m)"
| "read_sys SP_EL0 m = (if m_spsel m = 0 then None else Some (m_sp_el0 m))"

text \<open>Access to \<open>sp_el0\<close> while it is the selected stack pointer is undefined and traps.\<close>

fun write_sys :: "sysreg \<Rightarrow> u64 \<Rightarrow> machine \<Rightarrow> machine option" where
  "write_sys SPSEL v m = Some (m\<lparr>m_spsel := v AND 1\<rparr>)"
| "write_sys TPIDR_EL0 v m = Some (m\<lparr>m_tpidr_el0 := v\<rparr>)"
| "write_sys TPIDR_EL1 v m = Some (m\<lparr>m_tpidr_el1 := v\<rparr>)"
| "write_sys ELR_EL1 v m = Some (m\<lparr>m_elr := v\<rparr>)"
| "write_sys SPSR_EL1 v m = Some (m\<lparr>m_spsr := v\<rparr>)"
| "write_sys SP_EL0 v m = (if m_spsel m = 0 then None else Some (m\<lparr>m_sp_el0 := v\<rparr>))"

text \<open>One instruction that is not a jump.\<close>

fun exec :: "instr \<Rightarrow> machine \<Rightarrow> machine option" where
  "exec (Stp_Pre a b) m = (let sp = m_sp m - 16 in Some (set_sp sp (store (sp + 8) (xr m b) (store sp (xr m a) m))))"
| "exec (Ldp_Post a b) m = (let sp = m_sp m in Some (set_sp (sp + 16) (set_x b (m_mem m (sp + 8)) (set_x a (m_mem m sp) m))))"
| "exec (Adr d s) m = Some (set_x d s m)"
| "exec (Ldr d n off) m = Some (set_x d (m_mem m (xr m n + off)) m)"
| "exec (Str s n off) m = Some (store (xr m n + off) (xr m s) m)"
| "exec (Ldp a b n off) m =
     (let base = xr m n + off in Some (set_x b (m_mem m (base + 8)) (set_x a (m_mem m base) m)))"
| "exec (Mrs d s) m = map_option (\<lambda>v. set_x d v m) (read_sys s m)"
| "exec (Msr s n) m = write_sys s (xr m n) m"
| "exec (Msr_Spsel i) m = Some (m\<lparr>m_spsel := i\<rparr>)"
| "exec (Mov d n) m = Some (set_x d (xr m n) m)"
| "exec (Mov_Imm d i) m = Some (set_x d i m)"
| "exec (Mov_From_Sp d) m = Some (set_x d (m_sp m) m)"
| "exec (Mov_To_Sp n) m = Some (set_sp (xr m n) m)"
| "exec (Add_Imm d n i) m = Some (set_x d (xr m n + i) m)"
| "exec (Orr d a b) m = Some (set_x d (xr m a OR xr m b) m)"
| "exec (Cmp_Imm n i) m = Some (m\<lparr>m_zero := (xr m n = i)\<rparr>)"
| "exec (B_Ne l) m = None"
| "exec (B l) m = None"
| "exec (Label l) m = Some m"
| "exec Eret m = None"

text \<open>The exception return restores the program counter, the stack selector and the masks from the saved registers.\<close>

definition eret :: "machine \<Rightarrow> machine" where
  "eret m = m\<lparr>m_pc := m_elr m, m_spsel := m_spsr m AND 1, m_daif := m_spsr m AND 0x3c0\<rparr>"

fun after_label :: "nat \<Rightarrow> instr list \<Rightarrow> instr list" where
  "after_label l [] = []"
| "after_label l (i # is) = (if i = Label l then is else after_label l is)"

lemma after_label_length: "length (after_label l is) \<le> length is"
  by (induction "is") auto

text \<open>A program runs until its exception return; jumps go forward. Running off the end or a trap is \<^const>\<open>None\<close>.\<close>

function run :: "instr list \<Rightarrow> machine \<Rightarrow> machine option" where
  "run [] m = None"
| "run (i # is) m =
     (case i of
        Eret \<Rightarrow> Some (eret m)
      | B l \<Rightarrow> run (after_label l is) m
      | B_Ne l \<Rightarrow> if m_zero m then run is m else run (after_label l is) m
      | _ \<Rightarrow> exec i m \<bind> run is)"
  by pat_completeness auto
termination
  by (relation "measure (\<lambda>(is, m). length is)") (auto simp: le_imp_less_Suc after_label_length)

section \<open>The routine\<close>

text \<open>Spilling x9 to x16 and saving the control registers, the other general registers, and the spilled ones. \<open>cs\<close> is the address of
  \<open>CONT_SWITCH\<close>.\<close>

definition spill :: "instr list" where
  "spill = [Stp_Pre 9 10, Stp_Pre 11 12, Stp_Pre 13 14, Stp_Pre 15 16]"

definition save_control :: "u64 \<Rightarrow> instr list" where
  "save_control cs =
    [Adr 9 cs, Ldr 10 9 0,
     Mrs 15 SPSEL, Mov_From_Sp 11, Add_Imm 11 11 64, Mrs 12 TPIDR_EL0, Mov 13 30,
     Mov_Imm 14 0x3c4, Orr 14 14 15,
     Str 11 10 24, Str 12 10 32, Str 13 10 8, Str 14 10 16, Str 15 10 0]"

definition save_general :: "instr list" where
  "save_general =
    [Str 0 10 40, Str 1 10 48, Str 2 10 56, Str 3 10 64, Str 4 10 72, Str 5 10 80, Str 6 10 88, Str 7 10 96, Str 8 10 104,
     Str 17 10 176, Str 18 10 184, Str 19 10 192, Str 20 10 200, Str 21 10 208, Str 22 10 216, Str 23 10 224, Str 24 10 232,
     Str 25 10 240, Str 26 10 248, Str 27 10 256, Str 28 10 264, Str 29 10 272, Str 30 10 280]"

definition save_spilled :: "instr list" where
  "save_spilled =
    [Ldp_Post 0 1, Str 0 10 112, Str 1 10 120,
     Ldp_Post 0 1, Str 0 10 128, Str 1 10 136,
     Ldp_Post 0 1, Str 0 10 144, Str 1 10 152,
     Ldp_Post 0 1, Str 0 10 160, Str 1 10 168]"

definition select_target :: "instr list" where
  "select_target = [Ldr 24 9 8, Ldr 12 9 16, Str 24 9 24, Mrs 14 TPIDR_EL1, Str 12 14 24]"

definition load_control :: "instr list" where
  "load_control =
    [Ldr 20 24 0, Ldr 21 24 8, Ldr 22 24 16, Ldr 23 24 24,
     Msr ELR_EL1 21, Msr SPSR_EL1 22, Ldr 21 24 32, Msr TPIDR_EL0 21,
     Msr_Spsel 1, Cmp_Imm 20 1]"

definition restore_stacks :: "instr list" where
  "restore_stacks = [B_Ne 8, Mov_To_Sp 23, B 7, Label 8, Mov_To_Sp 12, Msr SP_EL0 23, Label 7]"

definition restore_general :: "instr list" where
  "restore_general =
    [Ldp 0 1 24 40, Ldp 2 3 24 56, Ldp 4 5 24 72, Ldp 6 7 24 88, Ldp 8 9 24 104, Ldp 10 11 24 120, Ldp 12 13 24 136,
     Ldp 14 15 24 152, Ldp 16 17 24 168, Ldp 18 19 24 184, Ldp 20 21 24 200, Ldp 22 23 24 216, Ldp 25 26 24 240,
     Ldp 27 28 24 256, Ldp 29 30 24 272, Ldr 24 24 232]"

definition cont_switch :: "u64 \<Rightarrow> instr list" where
  "cont_switch cs = spill @ save_control cs @ save_general @ save_spilled @ select_target @ load_control @ restore_stacks @ restore_general @ [Eret]"

section \<open>Straight-line code\<close>

primrec execs :: "instr list \<Rightarrow> machine \<Rightarrow> machine option" where
  "execs [] m = Some m"
| "execs (i # is) m = exec i m \<bind> execs is"

lemma execs_run: "execs is m = Some m1 \<Longrightarrow> run (is @ js) m = run js m1"
proof (induction "is" arbitrary: m)
  case (Cons i is')
  then obtain m0 where "exec i m = Some m0" and "execs is' m0 = Some m1" by auto
  with Cons.IH show ?case by (cases i) auto
qed simp

lemma execs_append: "execs (is @ js) m = execs is m \<bind> execs js"
proof (induction "is" arbitrary: m)
  case (Cons i is')
  then show ?case by (cases "exec i m") auto
qed simp

lemma execs_Some: "execs is m = Some m1 \<Longrightarrow> execs (is @ js) m = execs js m1"
  by (simp add: execs_append)

lemma set_sp_simps [simp]:
  "m_sp (set_sp v m) = v" "set_sp v (set_sp w m) = set_sp v m" "xr (set_sp v m) = xr m" "m_mem (set_sp v m) = m_mem m"
  "m_spsel (set_sp v m) = m_spsel m" "m_tpidr_el0 (set_sp v m) = m_tpidr_el0 m" "m_tpidr_el1 (set_sp v m) = m_tpidr_el1 m"
  "set_sp v (m\<lparr>xr := f\<rparr>) = (set_sp v m)\<lparr>xr := f\<rparr>" "set_sp v (m\<lparr>m_mem := g\<rparr>) = (set_sp v m)\<lparr>m_mem := g\<rparr>"
  "m_sp (m\<lparr>xr := f\<rparr>) = m_sp m" "m_sp (m\<lparr>m_mem := g\<rparr>) = m_sp m" "set_sp (m_sp m) m = m"
  by (simp_all add: set_sp_def m_sp_def)

lemmas exec_simps = set_x_def store_def Let_def

definition spilled :: "machine \<Rightarrow> memory" where
  "spilled m = (m_mem m)(m_sp m - 16 := xr m 9, m_sp m - 8 := xr m 10, m_sp m - 32 := xr m 11, m_sp m - 24 := xr m 12,
     m_sp m - 48 := xr m 13, m_sp m - 40 := xr m 14, m_sp m - 64 := xr m 15, m_sp m - 56 := xr m 16)"

lemma sub_numerals:
  "(a :: u64) - numeral v - numeral w = a - numeral (v + w)" "(a :: u64) - numeral w + numeral v = a - (numeral w - numeral v)"
  by (simp_all only: diff_diff_eq2 diff_add_eq diff_diff_eq numeral_add)

lemma spill_exec:
  "execs spill m = Some ((set_sp (m_sp m - 64) m)\<lparr>m_mem := spilled m\<rparr>)"
  by (simp add: spill_def exec_simps spilled_def sub_numerals)

text \<open>Two regions of memory do not overlap.\<close>

definition apart :: "u64 \<Rightarrow> u64 \<Rightarrow> u64 \<Rightarrow> u64 \<Rightarrow> bool" where
  "apart a n b k \<longleftrightarrow> n \<le> b - a \<and> k \<le> a - b"

lemma unat_minus_bound: "unat (- d) \<le> 2 ^ 64 - unat d" for d :: u64
proof -
  have "uint (- d) \<le> 2 ^ 64 - uint d"
    using uint_lt2p [of d] by (cases "d = 0") (simp_all add: uint_word_ariths zmod_zminus1_eq_if word_neq_0_conv)
  then have "int (unat (- d) + unat d) \<le> int (2 ^ 64)" by simp
  then have "unat (- d) + unat d \<le> 2 ^ 64" unfolding of_nat_le_iff .
  then show ?thesis by (rule add_le_imp_le_diff)
qed

lemma apartD:
  assumes "apart a n b k" and "x < n" and "y < k"
  shows "a + x \<noteq> b + y"
proof
  assume eq: "a + x = b + y"
  then have x: "x = (b - a) + y" by (simp add: algebra_simps)
  have "y < - (b - a)" using assms(1,3) by (auto simp: apart_def elim: order.strict_trans2)
  then have "unat y < 2 ^ 64 - unat (b - a)" using unat_minus_bound [of "b - a"] by (simp add: word_less_nat_alt)
  then have "unat (b - a) + unat y < 2 ^ LENGTH(64)" by simp
  then have "unat x = unat (b - a) + unat y" unfolding x by (simp only: unat_add_lem)
  moreover have "unat x < unat (b - a)" using assms(1,2) by (simp add: apart_def word_less_nat_alt word_le_nat_alt)
  ultimately show False by simp
qed

text \<open>Where the routine may write: the frame of the suspended context, 64 bytes below the stack pointer, one word of \<open>CONT_SWITCH\<close> and the
  scratch slot in the core-local data. The two frames, the stack and both structures are pairwise apart.\<close>

definition sw_save :: "u64 \<Rightarrow> machine \<Rightarrow> u64" where
  "sw_save cs m = m_mem m cs"

definition sw_target :: "u64 \<Rightarrow> machine \<Rightarrow> u64" where
  "sw_target cs m = m_mem m (cs + 8)"

definition sw_slot :: "u64 \<Rightarrow> machine \<Rightarrow> u64" where
  "sw_slot cs m = m_mem m (cs + 16)"

definition switch_layout :: "u64 \<Rightarrow> machine \<Rightarrow> bool" where
  "switch_layout cs m \<longleftrightarrow>
     (let stk = m_sp m - 64; save = sw_save cs m; target = sw_target cs m; core = m_tpidr_el1 m + 24
      in apart stk 64 cs 32 \<and> apart stk 64 save 288 \<and> apart stk 64 target 288 \<and> apart stk 64 core 8 \<and>
         apart save 288 cs 32 \<and> apart save 288 target 288 \<and> apart save 288 core 8 \<and>
         apart target 288 cs 32 \<and> apart target 288 core 8 \<and> apart cs 32 core 8)"

lemma apart_sp:
  assumes "apart (sp - 64) 64 b k" and "64 - y < 64" and "x < k"
  shows "b + x \<noteq> sp - y"
  using apartD [OF assms] by (simp add: algebra_simps)

lemma apart_sp_0: "apart (sp - 64) 64 b k \<Longrightarrow> 64 - y < 64 \<Longrightarrow> 0 < k \<Longrightarrow> b \<noteq> sp - y"
  using apart_sp [where x = 0] by simp

lemma apart_sp_sum:
  assumes "apart (sp - 64) 64 b 288" and "z - 1 < 351"
  shows "sp \<noteq> z + b"
proof (cases "z \<le> 64")
  case True
  with assms(2) have "64 - z < 64" by (cases "z = 0") (simp_all add: word_less_nat_alt word_le_nat_alt unat_sub word_neq_0_conv unsigned_minus_1_eq_mask mask_eq_exp_minus_1)
  from apart_sp_0 [OF assms(1) this] have "b \<noteq> sp - z" by simp
  then show ?thesis by auto
next
  case False
  with assms(2) have "z - 64 < 288" by (simp add: word_less_nat_alt word_le_nat_alt unat_sub)
  from apart_sp [OF assms(1) _ this, of 64] have "b + (z - 64) \<noteq> sp - 64" by simp
  then show ?thesis by auto
qed

lemma spilled_other: "apart (m_sp m - 64) 64 b k \<Longrightarrow> x < k \<Longrightarrow> spilled m (b + x) = m_mem m (b + x)"
  by (simp add: spilled_def apart_sp)

text \<open>The frame that is saved: in the order of \<open>State\<close>, except that the spilled registers are read back in the wrong order.\<close>

definition saved_frame :: "machine \<Rightarrow> u64 list" where
  "saved_frame m = [m_spsel m, xr m 30, 0x3c4 OR m_spsel m, m_sp m, m_tpidr_el0 m] @
     map (xr m) ([0..<9] @ [15, 16, 13, 14, 11, 12, 9, 10] @ [17..<31])"

definition saved_control :: "u64 \<Rightarrow> machine \<Rightarrow> machine" where
  "saved_control cs m = (set_sp (m_sp m - 64) m)\<lparr>
      xr := (xr m)(9 := cs, 10 := sw_save cs m, 15 := m_spsel m, 11 := m_sp m, 12 := m_tpidr_el0 m, 13 := xr m 30, 14 := 0x3c4 OR m_spsel m),
      m_mem := (spilled m)(sw_save cs m + 24 := m_sp m, sw_save cs m + 32 := m_tpidr_el0 m, sw_save cs m + 8 := xr m 30,
         sw_save cs m + 16 := 0x3c4 OR m_spsel m, sw_save cs m := m_spsel m)\<rparr>"

lemma save_control_exec:
  assumes "switch_layout cs m"
  shows "execs (spill @ save_control cs) m = Some (saved_control cs m)"
proof -
  have "spilled m cs = sw_save cs m"
    using assms spilled_other [of m cs 32 0] by (simp add: switch_layout_def Let_def sw_save_def)
  then show ?thesis
    by (simp add: execs_append spill_exec save_control_def saved_control_def exec_simps fun_upd_twist)
qed

text \<open>The state after saving: the registers that the routine has used itself, the stack pointer back in place, and the frame written.\<close>

definition saved_mem :: "u64 \<Rightarrow> machine \<Rightarrow> memory" where
  "saved_mem s m = (spilled m)(s + 24 := m_sp m, s + 32 := m_tpidr_el0 m, s + 8 := xr m 30, s + 16 := 0x3c4 OR m_spsel m, s := m_spsel m,
     s + 40 := xr m 0, s + 48 := xr m 1, s + 56 := xr m 2, s + 64 := xr m 3, s + 72 := xr m 4, s + 80 := xr m 5, s + 88 := xr m 6,
     s + 96 := xr m 7, s + 104 := xr m 8, s + 176 := xr m 17, s + 184 := xr m 18, s + 192 := xr m 19, s + 200 := xr m 20,
     s + 208 := xr m 21, s + 216 := xr m 22, s + 224 := xr m 23, s + 232 := xr m 24, s + 240 := xr m 25, s + 248 := xr m 26,
     s + 256 := xr m 27, s + 264 := xr m 28, s + 272 := xr m 29, s + 280 := xr m 30,
     s + 112 := xr m 15, s + 120 := xr m 16, s + 128 := xr m 13, s + 136 := xr m 14, s + 144 := xr m 11, s + 152 := xr m 12,
     s + 160 := xr m 9, s + 168 := xr m 10)"

lemma save_general_exec:
  "execs save_general (saved_control cs m) = Some ((saved_control cs m)\<lparr>
     m_mem := (m_mem (saved_control cs m))(sw_save cs m + 40 := xr m 0, sw_save cs m + 48 := xr m 1, sw_save cs m + 56 := xr m 2, sw_save cs m + 64 := xr m 3,
     sw_save cs m + 72 := xr m 4, sw_save cs m + 80 := xr m 5, sw_save cs m + 88 := xr m 6,
     sw_save cs m + 96 := xr m 7, sw_save cs m + 104 := xr m 8, sw_save cs m + 176 := xr m 17, sw_save cs m + 184 := xr m 18, sw_save cs m + 192 := xr m 19,
     sw_save cs m + 200 := xr m 20, sw_save cs m + 208 := xr m 21, sw_save cs m + 216 := xr m 22, sw_save cs m + 224 := xr m 23, sw_save cs m + 232 := xr m 24,
     sw_save cs m + 240 := xr m 25, sw_save cs m + 248 := xr m 26, sw_save cs m + 256 := xr m 27, sw_save cs m + 264 := xr m 28, sw_save cs m + 272 := xr m 29,
     sw_save cs m + 280 := xr m 30)\<rparr>)"
  by (simp add: save_general_def saved_control_def exec_simps)

lemma spilled_words:
  "spilled m (m_sp m - 16) = xr m 9" "spilled m (m_sp m - 8) = xr m 10" "spilled m (m_sp m - 32) = xr m 11" "spilled m (m_sp m - 24) = xr m 12"
  "spilled m (m_sp m - 48) = xr m 13" "spilled m (m_sp m - 40) = xr m 14" "spilled m (m_sp m - 64) = xr m 15" "spilled m (m_sp m - 56) = xr m 16"
  by (simp_all add: spilled_def)

definition saved_state :: "u64 \<Rightarrow> machine \<Rightarrow> machine" where
  "saved_state cs m = m\<lparr>
      xr := (xr m)(9 := cs, 10 := sw_save cs m, 15 := m_spsel m, 11 := m_sp m, 12 := m_tpidr_el0 m, 13 := xr m 30, 14 := 0x3c4 OR m_spsel m,
         0 := xr m 9, 1 := xr m 10),
      m_mem := saved_mem (sw_save cs m) m\<rparr>"

lemma scratch_upd: "f(0 := a, 1 := b, 0 := c, 1 := d) = f(0 := c, 1 := d)" for f :: "nat \<Rightarrow> u64"
  by auto

lemma save_exec:
  assumes "switch_layout cs m"
  shows "execs (spill @ save_control cs @ save_general @ save_spilled) m = Some (saved_state cs m)"
proof -
  have stk: "apart (m_sp m - 64) 64 (sw_save cs m) 288" using assms by (simp add: switch_layout_def Let_def)
  note neq = apart_sp [OF stk] apart_sp_0 [OF stk] apart_sp [OF stk, THEN not_sym] apart_sp_0 [OF stk, THEN not_sym] apart_sp_sum [OF stk]
  have "execs save_spilled ((saved_control cs m)\<lparr>m_mem := mem\<rparr>) = Some (saved_state cs m)"
    if "mem = m_mem (the (execs save_general (saved_control cs m)))" for mem
    unfolding that save_general_exec
    by (simp add: save_spilled_def saved_control_def saved_state_def saved_mem_def exec_simps sub_numerals neq spilled_words scratch_upd)
  then show ?thesis
    using execs_Some [OF save_control_exec [OF assms], of "save_general @ save_spilled"] execs_Some [OF save_general_exec, of save_spilled cs m]
    by (simp add: save_general_exec)
qed

lemma upt_9: "[0..<9] = [0, 1, 2, 3, 4, 5, 6, 7, 8]"
  by code_simp

lemma upt_36: "[0..<36] = [0, 1, 2, 3, 4, 5, 6, 7, 8, 9, 10, 11, 12, 13, 14, 15, 16, 17, 18, 19, 20, 21, 22, 23, 24, 25, 26, 27, 28, 29,
    30, 31, 32, 33, 34, 35]"
  by code_simp

lemma saved_mem_frame: "frame_at (saved_mem s m) s = saved_frame m"
  by (simp add: frame_at_def upt_36 upt_9 saved_frame_def) (simp add: saved_mem_def)

lemma saved_mem_other:
  assumes "288 \<le> a - s" and "64 \<le> a - (m_sp m - 64)"
  shows "saved_mem s m a = m_mem m a"
proof -
  have "a \<noteq> s + x" if "x < 288" for x using assms(1) that by auto
  moreover have "a \<noteq> m_sp m - y" if "64 - y < 64" for y
    using assms(2) that by (auto simp: not_le)
  moreover have "a \<noteq> s" using assms(1) by auto
  ultimately show ?thesis by (simp add: saved_mem_def spilled_def)
qed

section \<open>Resuming the target\<close>

text \<open>What a frame and a scratch slot make of a machine.\<close>

definition resumed :: "u64 list \<Rightarrow> u64 \<Rightarrow> machine \<Rightarrow> machine" where
  "resumed f slot m = m\<lparr>xr := (\<lambda>i. if i \<le> 30 then f ! (5 + i) else xr m i),
     m_sp_el0 := (if f ! 0 = 1 then m_sp_el0 m else f ! 3),
     m_sp_el1 := (if f ! 0 = 1 then f ! 3 else slot),
     m_spsel := f ! 2 AND 1, m_daif := f ! 2 AND 0x3c0, m_zero := (f ! 0 = 1),
     m_tpidr_el0 := f ! 4, m_elr := f ! 1, m_spsr := f ! 2, m_pc := f ! 1\<rparr>"

lemma select_target_exec:
  "xr n 9 = cs \<Longrightarrow> execs select_target n =
    Some (n\<lparr>xr := (xr n)(24 := m_mem n (cs + 8), 12 := m_mem n (cs + 16), 14 := m_tpidr_el1 n),
       m_mem := (m_mem n)(cs + 24 := m_mem n (cs + 8), m_tpidr_el1 n + 24 := m_mem n (cs + 16))\<rparr>)"
  by (simp add: select_target_def exec_simps)

lemma load_control_exec:
  "execs load_control n =
    (let f = frame_at (m_mem n) (xr n 24)
     in Some (n\<lparr>xr := (xr n)(20 := f ! 0, 22 := f ! 2, 23 := f ! 3, 21 := f ! 4),
          m_elr := f ! 1, m_spsr := f ! 2, m_tpidr_el0 := f ! 4, m_spsel := 1, m_zero := (f ! 0 = 1)\<rparr>))"
  by (simp add: load_control_def exec_simps frame_at_nth fun_upd_twist)

lemma restore_stacks_run:
  assumes "m_spsel n = 1"
  shows "run (restore_stacks @ js) n =
    run js (if m_zero n then n\<lparr>m_sp_el1 := xr n 23\<rparr> else n\<lparr>m_sp_el1 := xr n 12, m_sp_el0 := xr n 23\<rparr>)"
  using assms by (simp add: restore_stacks_def set_sp_def)

lemma nat_below_31: "i \<le> 30 \<longleftrightarrow> i \<in> set [0, 1, 2, 3, 4, 5, 6, 7, 8, 9, 10, 11, 12, 13, 14, 15, 16, 17, 18, 19, 20, 21, 22, 23, 24, 25, 26, 27,
    28, 29, 30]" for i :: nat
  by simp presburger

lemma restore_general_exec:
  assumes "xr n 24 = t"
  shows "execs restore_general n = Some (n\<lparr>xr := (\<lambda>i. if i \<le> 30 then frame_at (m_mem n) t ! (5 + i) else xr n i)\<rparr>)"
proof -
  have regs: "xr n' i = (if i \<le> 30 then frame_at (m_mem n) t ! (5 + i) else xr n i)" if "execs restore_general n = Some n'" for n' i
  proof (cases "i \<le> 30")
    case True
    with assms that show ?thesis
      unfolding nat_below_31 by (auto simp: restore_general_def exec_simps frame_at_nth add.commute)
  next
    case False
    with assms that show ?thesis by (auto simp: restore_general_def exec_simps)
  qed
  obtain r where r: "execs restore_general n = Some (n\<lparr>xr := r\<rparr>)"
    by (auto simp: restore_general_def exec_simps)
  then have "r = (\<lambda>i. if i \<le> 30 then frame_at (m_mem n) t ! (5 + i) else xr n i)" using regs [OF r] by auto
  with r show ?thesis by simp
qed

section \<open>A switch\<close>

definition switched :: "u64 \<Rightarrow> machine \<Rightarrow> machine" where
  "switched cs m = (let mem = (saved_mem (sw_save cs m) m)(cs + 24 := sw_target cs m, m_tpidr_el1 m + 24 := sw_slot cs m)
     in (resumed (frame_at (m_mem m) (sw_target cs m)) (sw_slot cs m) m)\<lparr>m_mem := mem\<rparr>)"

lemma frame_at_cong: "(\<And>x. x < 288 \<Longrightarrow> mem (a + x) = mem' (a + x)) \<Longrightarrow> frame_at mem a = frame_at mem' a"
  by (auto simp: frame_at_def word_less_nat_alt unat_word_ariths unat_of_nat)

lemma apart_outside: "apart a n b k \<Longrightarrow> x < k \<Longrightarrow> n \<le> b + x - a"
  using apartD [of a n b k "b + x - a" x] by (simp flip: not_less) blast

lemma load_run:
  "run (load_control @ restore_stacks @ restore_general @ [Eret]) n = Some (resumed (frame_at (m_mem n) (xr n 24)) (xr n 12) n)"
proof -
  define f where "f = frame_at (m_mem n) (xr n 24)"
  define n2 where "n2 = n\<lparr>xr := (xr n)(20 := f ! 0, 22 := f ! 2, 23 := f ! 3, 21 := f ! 4),
      m_elr := f ! 1, m_spsr := f ! 2, m_tpidr_el0 := f ! 4, m_spsel := 1, m_zero := (f ! 0 = 1)\<rparr>"
  have "execs load_control n = Some n2" using load_control_exec [of n] by (simp add: f_def n2_def Let_def)
  note execs_run [OF this, of "restore_stacks @ restore_general @ [Eret]"]
  also have "run (restore_stacks @ restore_general @ [Eret]) n2 =
      run (restore_general @ [Eret]) (if f ! 0 = 1 then n2\<lparr>m_sp_el1 := f ! 3\<rparr> else n2\<lparr>m_sp_el1 := xr n 12, m_sp_el0 := f ! 3\<rparr>)"
    by (subst restore_stacks_run) (simp_all add: n2_def)
  also have "\<dots> = Some (resumed f (xr n 12) n)"
    by (subst execs_run [OF restore_general_exec [OF refl]]) (auto simp: n2_def eret_def resumed_def f_def fun_eq_iff)
  finally show ?thesis by (simp add: f_def)
qed

lemma cont_switch_run:
  assumes lay: "switch_layout cs m"
  shows "run (cont_switch cs) m = Some (switched cs m)"
proof -
  let ?n = "saved_state cs m"
  have old: "m_mem ?n (b + x) = m_mem m (b + x)"
    if "apart (sw_save cs m) 288 b k" and "apart (m_sp m - 64) 64 b k" and "x < k" for b k x
    using apart_outside [OF that(1,3)] apart_outside [OF that(2,3)] by (simp add: saved_state_def saved_mem_other)
  have cs_words: "m_mem ?n (cs + 8) = sw_target cs m" "m_mem ?n (cs + 16) = sw_slot cs m"
    using lay by (auto simp: switch_layout_def Let_def sw_target_def sw_slot_def old)
  define n1 where "n1 = ?n\<lparr>xr := (xr ?n)(24 := sw_target cs m, 12 := sw_slot cs m, 14 := m_tpidr_el1 ?n),
       m_mem := (m_mem ?n)(cs + 24 := sw_target cs m, m_tpidr_el1 ?n + 24 := sw_slot cs m)\<rparr>"
  have n1: "execs select_target ?n = Some n1"
    using select_target_exec [of ?n cs] by (simp add: n1_def cs_words) (simp add: saved_state_def)
  have f: "frame_at (m_mem n1) (sw_target cs m) = frame_at (m_mem m) (sw_target cs m)"
  proof (rule frame_at_cong)
    fix x :: u64 assume "x < 288"
    with lay have "m_mem ?n (sw_target cs m + x) = m_mem m (sw_target cs m + x)"
      and "sw_target cs m + x \<noteq> cs + 24" and "sw_target cs m + x \<noteq> m_tpidr_el1 m + 24"
      using apartD [of "sw_target cs m" 288 cs 32 x 24] apartD [of "sw_target cs m" 288 "m_tpidr_el1 m + 24" 8 x 0]
      by (auto simp: switch_layout_def Let_def old)
    then show "m_mem n1 (sw_target cs m + x) = m_mem m (sw_target cs m + x)"
      by (simp add: n1_def) (simp add: saved_state_def)
  qed
  have "run (cont_switch cs) m = run (load_control @ restore_stacks @ restore_general @ [Eret]) n1"
    using execs_run [OF save_exec [OF lay]] execs_run [OF n1] by (simp add: cont_switch_def)
  also have "\<dots> = Some (switched cs m)"
    using f unfolding load_run by (simp add: n1_def) (auto simp: saved_state_def switched_def resumed_def fun_eq_iff Let_def)
  finally show ?thesis .
qed

lemma switched_mem:
  assumes lay: "switch_layout cs m"
  shows "frame_at (m_mem (switched cs m)) (sw_save cs m) = saved_frame m"
    and "m_mem (switched cs m) (cs + 24) = sw_target cs m" and "m_mem (switched cs m) (m_tpidr_el1 m + 24) = sw_slot cs m"
    and "288 \<le> a - sw_save cs m \<Longrightarrow> 64 \<le> a - (m_sp m - 64) \<Longrightarrow> a \<noteq> cs + 24 \<Longrightarrow> a \<noteq> m_tpidr_el1 m + 24 \<Longrightarrow>
       m_mem (switched cs m) a = m_mem m a"
proof -
  have mem: "m_mem (switched cs m) = (saved_mem (sw_save cs m) m)(cs + 24 := sw_target cs m, m_tpidr_el1 m + 24 := sw_slot cs m)"
    by (simp add: switched_def Let_def)
  have "sw_save cs m + x \<noteq> cs + 24" "sw_save cs m + x \<noteq> m_tpidr_el1 m + 24" if "x < 288" for x
    using that lay apartD [of "sw_save cs m" 288 cs 32 x 24] apartD [of "sw_save cs m" 288 "m_tpidr_el1 m + 24" 8 x 0]
    by (simp_all add: switch_layout_def Let_def)
  then have "frame_at (m_mem (switched cs m)) (sw_save cs m) = frame_at (saved_mem (sw_save cs m) m) (sw_save cs m)"
    by (intro frame_at_cong) (simp add: mem)
  then show "frame_at (m_mem (switched cs m)) (sw_save cs m) = saved_frame m" by (simp add: saved_mem_frame)
  have "cs + 24 \<noteq> m_tpidr_el1 m + 24" using lay apartD [of cs 32 "m_tpidr_el1 m + 24" 8 24 0] by (simp add: switch_layout_def Let_def)
  then show "m_mem (switched cs m) (cs + 24) = sw_target cs m" unfolding mem by (simp del: add_right_cancel)
  show "m_mem (switched cs m) (m_tpidr_el1 m + 24) = sw_slot cs m" by (simp add: mem)
  show "m_mem (switched cs m) a = m_mem m a"
    if "288 \<le> a - sw_save cs m" "64 \<le> a - (m_sp m - 64)" "a \<noteq> cs + 24" "a \<noteq> m_tpidr_el1 m + 24"
    using that by (simp add: mem saved_mem_other)
qed

section \<open>Properties\<close>

text \<open>C7: The switch. It never traps and ends in its exception return. The context that called it is in the frame it named, the machine runs on
  with the registers, the stack and the thread pointer of the target frame at the address saved there, the scratch slot of the core and
  the record of the current frame are those of the target, and no other word of memory has changed but the 64 bytes below the stack pointer.\<close>

theorem cont_switch_correct:
  assumes "switch_layout cs m"
  shows "\<exists>m'. run (cont_switch cs) m = Some m' \<and>
    frame_at (m_mem m') (sw_save cs m) = saved_frame m \<and>
    m' = (resumed (frame_at (m_mem m) (sw_target cs m)) (sw_slot cs m) m)\<lparr>m_mem := m_mem m'\<rparr> \<and>
    m_mem m' (m_tpidr_el1 m + 24) = sw_slot cs m \<and> m_mem m' (cs + 24) = sw_target cs m \<and>
    (\<forall>a. 288 \<le> a - sw_save cs m \<and> 64 \<le> a - (m_sp m - 64) \<and> a \<noteq> cs + 24 \<and> a \<noteq> m_tpidr_el1 m + 24 \<longrightarrow> m_mem m' a = m_mem m a)"
proof (intro exI [of _ "switched cs m"] conjI allI impI)
  show "run (cont_switch cs) m = Some (switched cs m)" by (rule cont_switch_run) fact
  show "switched cs m = (resumed (frame_at (m_mem m) (sw_target cs m)) (sw_slot cs m) m)\<lparr>m_mem := m_mem (switched cs m)\<rparr>"
    by (simp add: switched_def Let_def)
qed (simp_all add: switched_mem [OF assms])

text \<open>C8: Leaving a context and coming back. When a context has been suspended by a switch and its frame is untouched, the switch that names this
  frame as its target continues it behind its call of the routine, on its stack, with its thread pointer, interrupts masked, and with
  its registers, except that x9 to x16 come back in another order.\<close>

theorem cont_switch_roundtrip:
  assumes "switch_layout cs m" and "run (cont_switch cs) m = Some m1" and "m_spsel m = 0 \<or> m_spsel m = 1"
    and "switch_layout cs m2" and "sw_target cs m2 = sw_save cs m"
    and "frame_at (m_mem m2) (sw_save cs m) = frame_at (m_mem m1) (sw_save cs m)" and "run (cont_switch cs) m2 = Some m3"
  shows "m_pc m3 = xr m 30 \<and> m_spsel m3 = m_spsel m \<and> m_sp m3 = m_sp m \<and> m_tpidr_el0 m3 = m_tpidr_el0 m \<and> m_daif m3 = 0x3c0 \<and>
    (m_spsel m = 0 \<longrightarrow> m_sp_el1 m3 = sw_slot cs m2) \<and>
    map (xr m3) ([0..<9] @ [17..<31]) = map (xr m) ([0..<9] @ [17..<31]) \<and>
    map (xr m3) [9..<17] = map (xr m) [15, 16, 13, 14, 11, 12, 9, 10]"
proof -
  have "m1 = switched cs m" and "m3 = switched cs m2"
    using assms cont_switch_run by (metis option.inject)+
  then have m3: "m3 = (resumed (saved_frame m) (sw_slot cs m2) m2)\<lparr>m_mem := m_mem m3\<rparr>"
    using assms(5,6) switched_mem(1) [OF assms(1)] by (simp add: switched_def Let_def)
  show ?thesis
    unfolding arg_cong [OF m3, of m_pc] arg_cong [OF m3, of m_spsel] arg_cong [OF m3, of m_tpidr_el0] arg_cong [OF m3, of m_daif]
      arg_cong [OF m3, of m_sp] arg_cong [OF m3, of xr] arg_cong [OF m3, of m_sp_el1]
    using assms(3) by (auto simp: resumed_def saved_frame_def m_sp_def upt_9)
qed

text \<open>Witness: a thread at 0x1234 switches from the stack at 0x8000 to a target frame of zeros, and is switched back to.\<close>

definition demo_machine :: machine where
  "demo_machine = \<lparr>xr = (\<lambda>i. of_nat i + 0x1204), m_sp_el0 = 0x8000, m_sp_el1 = 0x9000, m_spsel = 0, m_daif = 0, m_zero = False,
     m_tpidr_el0 = 7, m_tpidr_el1 = 0x5000, m_elr = 0, m_spsr = 0, m_pc = 0,
     m_mem = (\<lambda>_. 0)(0x1000 := 0x2000, 0x1008 := 0x3000, 0x1010 := 0x4000)\<rparr>"

lemma demo_layout: "switch_layout 0x1000 demo_machine"
  by (simp add: switch_layout_def demo_machine_def sw_save_def sw_target_def m_sp_def apart_def)

lemma demo_words:
  "sw_save 0x1000 demo_machine = 0x2000" "sw_target 0x1000 demo_machine = 0x3000" "sw_slot 0x1000 demo_machine = 0x4000"
  "m_tpidr_el1 demo_machine = 0x5000"
  by (simp_all add: demo_machine_def sw_save_def sw_target_def sw_slot_def)

lemma demo_target: "frame_at (m_mem demo_machine) 0x3000 = replicate 36 0"
  by (simp add: demo_machine_def frame_at_def upt_36) code_simp

theorem cont_switch_correct_witness:
  "\<exists>m'. run (cont_switch 0x1000) demo_machine = Some m' \<and> frame_at (m_mem m') 0x2000 = saved_frame demo_machine \<and> m_pc m' = 0 \<and>
     m_sp_el1 m' = 0x4000 \<and> m_mem m' 0x5018 = 0x4000"
proof -
  from cont_switch_correct [OF demo_layout] obtain m' where m': "run (cont_switch 0x1000) demo_machine = Some m'"
      "frame_at (m_mem m') 0x2000 = saved_frame demo_machine" "m_mem m' 0x5018 = 0x4000"
    and eq: "m' = (resumed (replicate 36 0) 0x4000 demo_machine)\<lparr>m_mem := m_mem m'\<rparr>"
    by (auto simp: demo_words demo_target)
  from arg_cong [OF eq, of m_pc] arg_cong [OF eq, of m_sp_el1] m' show ?thesis by (auto simp: resumed_def)
qed

theorem cont_switch_roundtrip_witness:
  "\<exists>m1 m2 m3. run (cont_switch 0x1000) demo_machine = Some m1 \<and> m_pc m1 = 0 \<and> sw_target 0x1000 m2 = 0x2000 \<and>
     run (cont_switch 0x1000) m2 = Some m3 \<and> m_pc m3 = 0x1222 \<and> xr m3 19 = 0x1217 \<and> xr m3 9 = 0x1213"
proof -
  let ?m1 = "switched 0x1000 demo_machine"
  let ?m2 = "?m1\<lparr>m_mem := (m_mem ?m1)(0x1000 := 0x3000, 0x1008 := 0x2000, 0x1010 := 0x6000)\<rparr>"
  have m1: "run (cont_switch 0x1000) demo_machine = Some ?m1" by (rule cont_switch_run [OF demo_layout])
  have pc: "m_pc ?m1 = 0" "m_sp ?m1 = 0" "m_tpidr_el1 ?m1 = 0x5000"
    by (simp_all add: switched_def Let_def resumed_def demo_words demo_target m_sp_def)
  have lay2: "switch_layout 0x1000 ?m2" and t: "sw_target 0x1000 ?m2 = 0x2000"
    using pc by (simp_all add: switch_layout_def sw_save_def sw_target_def apart_def)
  have kept: "frame_at (m_mem ?m2) 0x2000 = frame_at (m_mem ?m1) 0x2000"
    by (simp add: frame_at_def upt_36)
  obtain m3 where m3: "run (cont_switch 0x1000) ?m2 = Some m3" using cont_switch_run [OF lay2] by blast
  have spsel: "m_spsel demo_machine = 0 \<or> m_spsel demo_machine = 1" by (simp add: demo_machine_def)
  have "m_pc m3 = xr demo_machine 30 \<and> xr m3 19 = xr demo_machine 19 \<and> xr m3 9 = xr demo_machine 15"
    using cont_switch_roundtrip [OF demo_layout m1 spsel lay2 _ _ m3, unfolded demo_words, OF t kept] by (simp add: upt_9)
  then have "m_pc m3 = 0x1222 \<and> xr m3 19 = 0x1217 \<and> xr m3 9 = 0x1213" by (simp add: demo_machine_def)
  with m1 pc(1) t m3 show ?thesis by blast
qed

end
