(* ===== verification/Cont_Runs.thy ===== *)
theory Cont_Runs
  imports Cont_Steps Cont_Switch
begin

text \<open>
  What runs of continuations do: the properties of the operations of \<open>Continuations\<close> in the states that \<open>Cont_Steps\<close> shows consistent, and the start of
  a continuation on the machine of \<open>Cont_Switch\<close>.
\<close>

section \<open>The first frame\<close>

lemma cont_frame_words:
  fixes e q sp p :: u64
  shows "(replicate STATE_WORDS 0)[state_spsel := 0, state_elr_el1 := e, state_spsr_el1 := q, state_sp_el0 := sp, state_tpidr_el0 := p] =
    [0, e, q, sp, p] @ replicate 31 0"
  by (simp add: state_fields numeral_eq_Suc)

lemma build_frame_frame:
  assumes "i < length (pool s)"
  shows "frame_at (c_mem (build_frame l i s)) (cont_stack_top l i - STATE_SIZE) =
    [0, c_entry (pool s ! i), 0x3c4, cont_stack_top l i - STATE_SIZE - 16, c_tls (pool s ! i)] @ replicate 31 0"
  using assms
  by (simp add: build_frame_def Let_def frame_at_put_field frame_at_zeroed fields_less upd_cont_def cont_frame_words
      del: STATE_WORDS_eq)

lemma spawn_frame:
  assumes ok: "cont_ok s" and none: "current_cont s = None" and sp: "spawn_continuation l t lsp entry func arg fd s = Some (i, s')"
  shows "i < 128 \<and> st_of s i = C_FREE \<and> current_cont s' = Some i \<and>
    switch_to_args s' = \<lparr>sa_save = exception_sp s - STATE_SIZE, sa_target = cont_stack_top l i - STATE_SIZE,
      sa_target_slot = cont_slot_top l i, sa_cur = cont_stack_top l i - STATE_SIZE\<rparr> \<and>
    frame_at (c_mem s') (cont_stack_top l i - STATE_SIZE) =
      [0, entry, 0x3c4, cont_stack_top l i - STATE_SIZE - 16, CONT_TLS_MAGIC] @ replicate 31 0"
  using alloc_cont_cases [OF ok]
proof (elim disjE conjE exE)
  assume "alloc_cont s = None"
  with sp show ?thesis by (simp add: spawn_continuation_def)
next
  fix j s1
  assume a: "alloc_cont s = Some (j, s1)" "j < 128" and free: "st_of s j = C_FREE"
    and s1: "s1 = s\<lparr>cont_next := cont_next s1, cont_free_top := cont_free_top s1\<rparr>"
  have eq: "current_cont s1 = None" "pool s1 = pool s" "exception_sp s1 = exception_sp s" using none by (subst s1; simp)+
  have len: "length (pool s) = 128" by (rule pool_length [OF ok])
  let ?c = "(pool s ! j)\<lparr>c_entry := entry, c_tls := CONT_TLS_MAGIC, user_func := func, user_arg := arg,
      owned_fd := (if fd < 0 then None else Some fd)\<rparr>"
  have "frame_at (c_mem (build_frame l j x)) (cont_stack_top l j - STATE_SIZE) =
      [0, entry, 0x3c4, cont_stack_top l j - STATE_SIZE - 16, CONT_TLS_MAGIC] @ replicate 31 0" if "pool x = (pool s)[j := ?c]" for x
    using build_frame_frame [of j x l] that a(2) len by simp
  with sp a free show ?thesis
    by (auto simp: spawn_continuation_def Let_def eq len resumer_def do_switch_def arm_pool upd_cont_def split: if_splits)
qed


section \<open>Futex wakes\<close>

text \<open>The wake-up of the continuation in entry \<open>k\<close> of the table.\<close>

definition wake_entry :: "nat \<Rightarrow> cont_sys \<Rightarrow> cont_sys" where
  "wake_entry k s = upd_cont (the (futex_conts s ! k)) (\<lambda>c. c\<lparr>pending_wake := True, c_state := C_READY\<rparr>)
     (s\<lparr>futex_addrs := (futex_addrs s)[k := 0], futex_conts := (futex_conts s)[k := None]\<rparr>)"

lemma wake_entry_sel:
  "futex_addrs (wake_entry k s) = (futex_addrs s)[k := 0]" "futex_conts (wake_entry k s) = (futex_conts s)[k := None]"
  "cont_pending (wake_entry k s) = cont_pending s" "length (pool (wake_entry k s)) = length (pool s)" "futex_waiter_count (wake_entry k s) = futex_waiter_count s"
  by (simp_all add: wake_entry_def)

lemma wake_entry_state:
  "futex_conts s ! k = Some c \<Longrightarrow> st_of (wake_entry k s) i = (if i = c \<and> i < length (pool s) then C_READY else st_of s i)"
  by (simp add: wake_entry_def upd_cont_nth)

lemma fold_wake_entries:
  assumes "distinct ks" and "\<forall>k \<in> set ks. k < length (futex_addrs s) \<and> k < length (futex_conts s) \<and> futex_conts s ! k \<noteq> None"
  shows "futex_addrs (fold wake_entry ks s) ! j = (if j \<in> set ks then 0 else futex_addrs s ! j) \<and>
    futex_conts (fold wake_entry ks s) ! j = (if j \<in> set ks then None else futex_conts s ! j) \<and>
    cont_pending (fold wake_entry ks s) = cont_pending s \<and> length (pool (fold wake_entry ks s)) = length (pool s) \<and>
    (i < length (pool s) \<longrightarrow> st_of (fold wake_entry ks s) i = (if Some i \<in> (!) (futex_conts s) ` set ks then C_READY else st_of s i))"
  using assms
proof (induction ks arbitrary: s)
  case (Cons k ks)
  then obtain c where c: "futex_conts s ! k = Some c" by auto
  have pre: "\<forall>k' \<in> set ks. k' < length (futex_addrs (wake_entry k s)) \<and> k' < length (futex_conts (wake_entry k s)) \<and>
      futex_conts (wake_entry k s) ! k' \<noteq> None"
    using Cons.prems by (auto simp: wake_entry_sel nth_upd)
  have img: "(!) ((futex_conts s)[k := None]) ` set ks = (!) (futex_conts s) ` set ks"
    using Cons.prems(1) by (intro image_cong) (auto simp: nth_upd)
  from Cons.IH [OF _ pre] Cons.prems show ?case
    by (auto simp: wake_entry_sel wake_entry_state [OF c] nth_upd img c)
qed simp

lemma futex_wake_scan_spec:
  assumes "distinct ks" and "\<forall>k \<in> set ks. futex_addrs s ! k \<noteq> 0 \<longrightarrow> futex_conts s ! k \<noteq> None" and "addr \<noteq> 0" and "w \<le> mx"
    and "woken = take (nat (mx - w)) (filter (\<lambda>k. futex_addrs s ! k = addr) ks)"
  shows "futex_wake_scan ks addr mx w l s =
    (w + int (length woken), if woken = [] then l else futex_conts s ! last woken, fold wake_entry woken s)"
  using assms
proof (induction ks arbitrary: w l s woken)
  case (Cons k ks)
  show ?case
  proof (cases "futex_addrs s ! k = addr \<and> w < mx")
    case False
    with Cons.prems Cons.IH [of s w "take (nat (mx - w)) (filter (\<lambda>k. futex_addrs s ! k = addr) ks)" l] show ?thesis
      by auto
  next
    case True
    then obtain c where c: "futex_conts s ! k = Some c" using Cons.prems(2,3) by auto
    let ?s = "wake_entry k s"
    have eq: "filter (\<lambda>j. futex_addrs ?s ! j = addr) ks = filter (\<lambda>j. futex_addrs s ! j = addr) ks"
      using Cons.prems(1) by (intro filter_cong) (auto simp: wake_entry_sel nth_upd)
    have pre: "\<forall>j \<in> set ks. futex_addrs ?s ! j \<noteq> 0 \<longrightarrow> futex_conts ?s ! j \<noteq> None"
      using Cons.prems(1,2) by (auto simp: wake_entry_sel nth_upd)
    define rest where "rest = take (nat (mx - (w + 1))) (filter (\<lambda>j. futex_addrs s ! j = addr) ks)"
    have "nat (mx - w) = Suc (nat (mx - (w + 1)))" using True by linarith
    then have woken: "woken = k # rest" using Cons.prems(5) True by (simp add: rest_def)
    have "k \<notin> set rest" using Cons.prems(1) by (auto simp: rest_def dest: in_set_takeD)
    then have lst: "rest \<noteq> [] \<Longrightarrow> futex_conts ?s ! last rest = futex_conts s ! last rest"
      using last_in_set [of rest] by (auto simp: wake_entry_sel nth_upd)
    have "futex_wake_scan (k # ks) addr mx w l s = futex_wake_scan ks addr mx (w + 1) (Some c) ?s"
      using True c Cons.prems(3) by (simp add: Let_def wake_entry_def)
    also have "\<dots> = (w + 1 + int (length rest), if rest = [] then Some c else futex_conts ?s ! last rest, fold wake_entry rest ?s)"
      using Cons.prems(1,3) True by (intro Cons.IH [OF _ pre]) (simp_all add: eq rest_def)
    finally show ?thesis using lst c by (simp add: woken)
  qed
qed simp

text \<open>The entries of an address, in the order of the table, and those a wake takes.\<close>

definition futex_hits :: "u64 \<Rightarrow> cont_sys \<Rightarrow> nat list" where
  "futex_hits addr s = filter (\<lambda>k. futex_addrs s ! k = addr) [0..<128]"

definition futex_woken :: "u64 \<Rightarrow> int \<Rightarrow> cont_sys \<Rightarrow> nat list" where
  "futex_woken addr count s = take (if count = i32_max then 128 else nat count) (futex_hits addr s)"

lemma futex_woken_props:
  assumes ok: "cont_ok s" and "addr \<noteq> 0"
  shows "distinct (futex_woken addr count s)" "\<forall>k \<in> set (futex_woken addr count s). k < 128 \<and> futex_conts s ! k \<noteq> None"
proof -
  show "distinct (futex_woken addr count s)" by (simp add: futex_woken_def futex_hits_def)
  show "\<forall>k \<in> set (futex_woken addr count s). k < 128 \<and> futex_conts s ! k \<noteq> None"
    using futex_okD(3) [OF ok] assms(2) by (auto simp: futex_woken_def futex_hits_def dest!: in_set_takeD)
qed

lemma futex_wake_effect:
  assumes ok: "cont_ok s" and "addr \<noteq> 0" and "0 < count"
  shows "\<exists>s'. cont_futex_wake addr count s = (int (length (futex_woken addr count s)), s') \<and>
    (\<forall>k < 128. futex_addrs s' ! k = (if k \<in> set (futex_woken addr count s) then 0 else futex_addrs s ! k)) \<and>
    (\<forall>i < 128. st_of s' i = (if Some i \<in> (!) (futex_conts s) ` set (futex_woken addr count s) then C_READY else st_of s i)) \<and>
    cont_pending s' = (if futex_woken addr count s = [] then cont_pending s else futex_conts s ! last (futex_woken addr count s))"
proof -
  let ?w = "futex_woken addr count s" and ?mx = "if count = i32_max then 128 else count"
  note w = futex_woken_props [OF ok assms(2), of count]
  have scan: "futex_wake_scan [0..<128] addr ?mx 0 None s = (int (length ?w), if ?w = [] then None else futex_conts s ! last ?w, fold wake_entry ?w s)"
    using futex_wake_scan_spec [of "[0..<128]" s addr 0 ?mx ?w None] futex_okD(3) [OF ok] assms(2,3)
    by (auto simp: futex_woken_def futex_hits_def)
  have "?w \<noteq> [] \<Longrightarrow> futex_conts s ! last ?w \<noteq> None" using w(2) last_in_set by blast
  then have eq: "cont_futex_wake addr count s = (int (length ?w),
      (if ?w = [] then less_count (int (length ?w)) (fold wake_entry ?w s)
       else (less_count (int (length ?w)) (fold wake_entry ?w s))\<lparr>cont_pending := futex_conts s ! last ?w\<rparr>))"
    using scan assms(3) by (cases "count = i32_max") (auto simp: cont_futex_wake_def Let_def)
  have "\<forall>k \<in> set ?w. k < length (futex_addrs s) \<and> k < length (futex_conts s) \<and> futex_conts s ! k \<noteq> None"
    using w(2) futex_okD(1,2) [OF ok] by simp
  from fold_wake_entries [OF w(1) this] show ?thesis using pool_length [OF ok] by (auto simp: eq)
qed

lemma futex_wake_none:
  assumes ok: "cont_ok s" and "\<not> (addr \<noteq> 0 \<and> 0 < count)"
  shows "pool (snd (cont_futex_wake addr count s)) = pool s"
proof -
  have "futex_wake_scan ks 0 mx w l s = (w, l, s)" for ks mx w l by (induction ks) auto
  with assms(2) show ?thesis by (auto simp: cont_futex_wake_def Let_def)
qed

text \<open>A continuation that is not in the table is not woken by a futex wake.\<close>

lemma unregistered_not_woken:
  assumes ok: "cont_ok s" and "i < 128" and "\<And>k. k < 128 \<Longrightarrow> futex_conts s ! k \<noteq> Some i"
  shows "st_of (snd (cont_futex_wake addr count s)) i = st_of s i"
proof (cases "addr \<noteq> 0 \<and> 0 < count")
  case True
  then have "Some i \<notin> (!) (futex_conts s) ` set (futex_woken addr count s)"
    using assms(3) futex_woken_props(2) [OF ok, of addr count] by auto
  with futex_wake_effect [OF ok, of addr count] True assms(2) show ?thesis by auto
qed (simp add: futex_wake_none [OF ok])

section \<open>Properties\<close>

text \<open>C5: Continuations stay consistent. In every reachable state the free list describes exactly the free records, at most one continuation runs, only the
  running one has a quantum, the one registered for a wake is suspended, at most one has escaped and it owns the floating-point save area, and
  the futex table names suspended continuations and counts them. The next operation panics only when a continuation is
  spawned and all 128 records are in use, or when one escapes while the save area is taken; in particular the allocator never hands out a
  record in use.\<close>

theorem continuations_stay_consistent:
  assumes "cont_reach l s" and "cont_enabled op s"
  shows "cont_ok s \<and> (case cont_step l t op s of
     None \<Rightarrow> (\<exists>entry func arg fd. op = Spawn entry func arg fd) \<and> (\<forall>i < 128. st_of s i \<noteq> C_FREE) \<or>
             (op = Self_Escape \<or> op = Irq_Escape) \<and> fp_save_acquired s
   | Some s' \<Rightarrow> cont_ok s')"
proof -
  have ok: "cont_ok s" by (rule cont_reach_ok [OF assms(1)])
  then have "\<forall>i < 128. st_of s i \<noteq> C_FREE" if "cont_next s = 128" "cont_free_top s = 0"
    using that unfolding cont_ok_def pool_ok_def free_list_def by auto
  with ok cont_step_ok [OF ok assms(2), of l t] show ?thesis by (auto split: option.splits)
qed

text \<open>C9: A spawned continuation starts as its record says. The switch at the end of \<open>spawn_continuation\<close> enters the entry point on the stack of the record, below the
  save area, with its thread pointer and its exception slot; all interrupts are masked there, so that the quantum cannot
  interrupt it.\<close>

theorem spawned_continuation_starts:
  assumes "cont_reach l s" and "current_cont s = None" and "spawn_continuation l t lsp entry func arg fd s = Some (i, s')"
    and "switch_layout cs m" and "sw_target cs m = sa_target (switch_to_args s')" and "sw_slot cs m = sa_target_slot (switch_to_args s')"
    and "frame_at (m_mem m) (sa_target (switch_to_args s')) = frame_at (c_mem s') (sa_target (switch_to_args s'))"
  shows "\<exists>m'. run (cont_switch cs) m = Some m' \<and> m_pc m' = entry \<and> m_sp m' = cont_stack_top l i - STATE_SIZE - 16 \<and>
    m_tpidr_el0 m' = CONT_TLS_MAGIC \<and> m_sp_el1 m' = cont_slot_top l i \<and> m_mem m' (m_tpidr_el1 m + 24) = cont_slot_top l i \<and>
    m_daif m' = 0x3c0 \<and> bit (m_daif m') 7"
proof -
  note sp = spawn_frame [OF cont_reach_ok [OF assms(1)] assms(2,3)]
  have f: "frame_at (m_mem m) (sw_target cs m) = [0, entry, 0x3c4, cont_stack_top l i - STATE_SIZE - 16, CONT_TLS_MAGIC] @ replicate 31 0"
    and slot: "sw_slot cs m = cont_slot_top l i" using sp assms(5-7) by simp_all
  have "m_mem (switched cs m) (m_tpidr_el1 m + 24) = cont_slot_top l i" using switched_mem(3) [OF assms(4)] slot by simp
  moreover have "m_pc (switched cs m) = entry" "m_tpidr_el0 (switched cs m) = CONT_TLS_MAGIC" "m_sp_el1 (switched cs m) = cont_slot_top l i"
      "m_spsel (switched cs m) = 0" "m_sp_el0 (switched cs m) = cont_stack_top l i - STATE_SIZE - 16" "m_daif (switched cs m) = 0x3c0"
    by (simp_all add: switched_def Let_def f slot resumed_def)
  moreover have "bit (0x3c0 :: u64) 7" by (simp add: bit_iff_odd)
  ultimately show ?thesis using cont_switch_run [OF assms(4)] by (simp add: m_sp_def)
qed

text \<open>C6: The drain. While no continuation runs, \<open>drain_ready\<close> resumes a ready or escaped continuation if there is one, from its escape frame with its
  floating-point registers if it has escaped and from its saved frame otherwise, on its own exception slot, with a fresh
  quantum; if there is none it changes nothing.\<close>

theorem drain_resumes_ready:
  assumes "cont_reach l s" and "current_cont s = None"
  shows "if \<exists>i < 128. drainable (st_of s i)
    then \<exists>i s'. drain_ready t lsp s = Some s' \<and> i < 128 \<and> drainable (st_of s i) \<and> current_cont s' = Some i \<and> st_of s' i = C_RUNNING \<and>
      quantum_armed (pool s' ! i) \<and> scratch_slot s' = c_slot_top (pool s ! i) \<and>
      sa_target (switch_to_args s') = (if st_of s i = C_ESCAPED then escape_frame (pool s ! i) else state_frame (pool s ! i)) \<and>
      sa_save (switch_to_args s') = exception_sp s - STATE_SIZE \<and>
      fp_live s' = (if st_of s i = C_ESCAPED then fp_save_buf s else fp_live s) \<and>
      (\<forall>j < 128. j \<noteq> i \<longrightarrow> pool s' ! j = pool s ! j)
    else drain_ready t lsp s = Some s"
proof -
  have ok: "cont_ok s" by (rule cont_reach_ok [OF assms(1)])
  show ?thesis
  proof (cases "drain_resolve_ready s")
    case None
    then have "drain_ready t lsp s = Some s" by (simp add: drain_ready_def)
    with drain_resolve(2) [OF ok None] show ?thesis by auto
  next
    case (Some i)
    with drain_resolve(1) [OF ok Some] have i: "i < 128" "drainable (st_of s i)" by auto
    from drain_effect [OF ok assms(2) Some, of t lsp] obtain s' c where s': "drain_ready t lsp s = Some s'" "pool s' = (pool s)[i := c]"
        "c_state c = C_RUNNING" "quantum_armed c" "current_cont s' = Some i" "scratch_slot s' = c_slot_top (pool s ! i)"
        "sa_target (switch_to_args s') = (if st_of s i = C_ESCAPED then escape_frame (pool s ! i) else state_frame (pool s ! i))"
        "sa_save (switch_to_args s') = exception_sp s - STATE_SIZE" "fp_live s' = (if st_of s i = C_ESCAPED then fp_save_buf s else fp_live s)"
      by blast
    have "\<exists>i < 128. drainable (st_of s i)" using i by blast
    moreover have "st_of s' i = C_RUNNING \<and> quantum_armed (pool s' ! i) \<and> (\<forall>j < 128. j \<noteq> i \<longrightarrow> pool s' ! j = pool s ! j)"
      using s'(2-4) i(1) pool_length [OF ok] by simp
    ultimately show ?thesis using s' i by auto
  qed
qed

text \<open>C10: A futex wake takes the first waiters of the address, at most as many as it asks for. It returns their number, clears their entries and makes them ready, and
  leaves all other entries and continuations alone; the last one woken is registered for the drain.\<close>

theorem futex_wake_takes_first:
  assumes "cont_reach l s" and "addr \<noteq> 0" and "0 < count"
  shows "\<exists>s'. cont_futex_wake addr count s = (int (length (futex_woken addr count s)), s') \<and>
    (\<forall>k < 128. futex_addrs s' ! k = (if k \<in> set (futex_woken addr count s) then 0 else futex_addrs s ! k)) \<and>
    (\<forall>i < 128. st_of s' i = (if Some i \<in> (!) (futex_conts s) ` set (futex_woken addr count s) then C_READY else st_of s i)) \<and>
    cont_pending s' = (if futex_woken addr count s = [] then cont_pending s else futex_conts s ! last (futex_woken addr count s))"
  by (rule futex_wake_effect [OF cont_reach_ok [OF assms(1)] assms(2,3)])

text \<open>C11: A wake discards an escape. If a wake arrives while an escaped continuation waits for the drain, the continuation is marked ready, so the drain resumes it from the
  frame of its last park and not from the captured one, with whatever is in the floating-point registers; the save area stays taken, and
  the next escape panics.\<close>

theorem wake_discards_escape:
  assumes "cont_reach l s" and "current_cont s = None" and "cont_pending s = Some i" and "st_of s i = C_ESCAPED"
  shows "\<exists>s'. drain_ready t lsp (coop_wake s) = Some s' \<and> current_cont s' = Some i \<and>
    sa_target (switch_to_args s') = state_frame (pool s ! i) \<and> fp_live s' = fp_live s \<and> fp_save_acquired s' \<and>
    continuation_self_escape s' = None"
proof -
  have ok: "cont_ok s" by (rule cont_reach_ok [OF assms(1)])
  have i: "i < 128" and fp: "fp_save_acquired s"
    using run_okD(3) [OF ok assms(3)] ok assms(4) unfolding cont_ok_def fp_ok_def by auto
  let ?s = "coop_wake s"
  have len: "length (pool s) = 128" by (rule pool_length [OF ok])
  have w: "pool ?s = (pool s)[i := (pool s ! i)\<lparr>pending_wake := True, c_state := C_READY\<rparr>]" "current_cont ?s = None" "cont_pending ?s = Some i"
      "fp_live ?s = fp_live s" "fp_save_acquired ?s = fp_save_acquired s"
    using assms(2,3) by (simp_all add: coop_wake_def upd_cont_def)
  then have r: "drain_resolve_ready ?s = Some i" using i len by (simp add: drain_resolve_ready_def drainable_def)
  from drain_effect [OF coop_wake_ok [OF ok] w(2) r, of t lsp] obtain s' c where s': "drain_ready t lsp ?s = Some s'"
      "pool s' = (pool ?s)[i := c]" "quantum_armed c" "current_cont s' = Some i"
      "sa_target (switch_to_args s') = (if st_of ?s i = C_ESCAPED then escape_frame (pool ?s ! i) else state_frame (pool ?s ! i))"
      "fp_live s' = (if st_of ?s i = C_ESCAPED then fp_save_buf ?s else fp_live ?s)" "fp_save_acquired s' = (fp_save_acquired ?s \<and> st_of ?s i \<noteq> C_ESCAPED)"
    by blast
  have "sa_target (switch_to_args s') = state_frame (pool s ! i) \<and> fp_live s' = fp_live s \<and> fp_save_acquired s'"
    using s'(5-7) i len fp by (simp add: w)
  moreover from this have "continuation_self_escape s' = None"
    using s'(2-4) i len by (simp add: continuation_self_escape_def acquire_fp_save_def w)
  ultimately show ?thesis using s'(1,4) by blast
qed


section \<open>Example runs\<close>

fun cont_run :: "cont_layout \<Rightarrow> cont_op list \<Rightarrow> cont_sys \<Rightarrow> cont_sys option" where
  "cont_run l [] s = Some s"
| "cont_run l (op # ops) s = (if cont_enabled op s then cont_step l (0, 0) op s \<bind> cont_run l ops else None)"

lemma cont_run_reach: "cont_run l ops s = Some s' \<Longrightarrow> cont_reach l s \<Longrightarrow> cont_reach l s'"
  by (induction ops arbitrary: s) (auto split: if_splits intro: cont_next_step)

definition demo_layout_conts :: cont_layout where
  "demo_layout_conts = \<lparr>cont_stacks = 0x100000, cont_slots = 0x1000000, cl_core = 0, escape_buf = (\<lambda>i. 0x80000 + of_nat i * 512),
     dummy_save = 0x70000, quantum_entry = 0x42\<rparr>"

definition demo_conts :: "cont_op list \<Rightarrow> cont_sys option" where
  "demo_conts ops = cont_run demo_layout_conts ops (cont_init 0x60000 (\<lambda>_. 0))"

lemma demo_conts_reach: "demo_conts ops = Some s \<Longrightarrow> cont_reach demo_layout_conts s"
  unfolding demo_conts_def by (rule cont_run_reach) (auto intro: cont_start)

lemmas cont_op_defs = spawn_continuation_def alloc_cont_def build_frame_def arm_quantum_for_running_def disarm_quantum_def resumer_def do_switch_def upd_cont_def
  continuation_self_escape_def acquire_fp_save_def clear_scratch_slot_def Let_def guard_def

lemma demo_escape:
  "\<exists>s. demo_conts [Spawn 0x40 0 0 3, Self_Escape] = Some s \<and> current_cont s = None \<and> cont_pending s = Some 0 \<and> st_of s 0 = C_ESCAPED \<and>
     state_frame (pool s ! 0) = 0x107ee0"
  by (simp add: demo_conts_def cont_init_def cont_new_def cont_op_defs demo_layout_conts_def cont_stack_top_def CONT_STACK_SIZE_def CONT_GUARD_def)

lemma replicate_128: "replicate 128 x = x # x # replicate 126 x"
  by (simp flip: replicate_Suc)

lemma upt_128: "[0..<128] = 0 # 1 # [2..<128]"
  by (simp add: upt_conv_Cons)

lemmas futex_op_defs = cont_futex_wait_def register_futex_wait_def park_external_def cont_futex_wake_def clear_futex_slot_def

lemma demo_wait:
  "\<exists>s. demo_conts [Spawn 0x40 0 0 3, Futex_Wait 0x500 0 0] = Some s \<and> futex_addrs s = 0x500 # 0 # replicate 126 0 \<and>
     futex_conts s = Some 0 # None # replicate 126 None \<and> st_of s 0 = C_PARKED"
  by (simp add: demo_conts_def cont_init_def cont_new_def cont_op_defs futex_op_defs demo_layout_conts_def replicate_128)

lemma cont_run_append: "cont_run l (xs @ ys) s = cont_run l xs s \<bind> cont_run l ys"
  by (induction xs arbitrary: s) (auto split: bind_splits)

definition demo_cont :: cont where
  "demo_cont = \<lparr>state_frame = 0x107ee0, c_slot_top = 0x1010000, c_tls = CONT_TLS_MAGIC, c_state = C_PARKED, pending_wake = False, c_entry = 0x40,
     resumer_frame = 0x5fee0, resumer_slot = 0x60000, escape_frame = 0x80000, quantum_armed = False, user_func = 0, user_arg = 0,
     owned_fd = Some 3\<rparr>"

lemma demo_stage1:
  "\<exists>s. demo_conts [Spawn 0x40 0 0 3, Futex_Wait 0x500 0 0] = Some s \<and> pool s = demo_cont # cont_new # replicate 126 cont_new \<and>
     cont_next s = 1 \<and> cont_free_top s = 0 \<and> current_cont s = None \<and> s6_cont s = None \<and> cont_pending s = Some 0 \<and>
     futex_addrs s = 0x500 # 0 # replicate 126 0 \<and> futex_conts s = Some 0 # None # replicate 126 None \<and> futex_locals s = (\<lambda>_. None)(0 := Some 0)"
  by (simp add: demo_conts_def cont_init_def cont_op_defs futex_op_defs demo_layout_conts_def replicate_128 demo_cont_def cont_new_def
     cont_stack_top_def cont_slot_top_def CONT_STACK_SIZE_def CONT_GUARD_def CONT_SLOT_SIZE_def CONT_SLOT_GUARD_def)

lemma build_frame_sel:
  "pool (build_frame l i s) = (pool s)[i := (pool s ! i)\<lparr>state_frame := cont_stack_top l i - STATE_SIZE, c_slot_top := cont_slot_top l i\<rparr>]"
  "cont_next (build_frame l i s) = cont_next s" "cont_free_top (build_frame l i s) = cont_free_top s" "current_cont (build_frame l i s) = current_cont s" 
  "s6_cont (build_frame l i s) = s6_cont s" "futex_addrs (build_frame l i s) = futex_addrs s" "futex_conts (build_frame l i s) = futex_conts s" 
  "futex_locals (build_frame l i s) = futex_locals s" 
  by (simp_all add: build_frame_def Let_def upd_cont_def)
lemma demo_stage2:
  assumes "pool s = demo_cont # cont_new # replicate 126 cont_new" "cont_next s = 1" "cont_free_top s = 0" "current_cont s = None" "s6_cont s = None"
     "futex_addrs s = 0x500 # 0 # replicate 126 0" "futex_conts s = Some 0 # None # replicate 126 None" "futex_locals s = (\<lambda>_. None)(0 := Some 0)"
  shows "\<exists>s' c. cont_step demo_layout_conts (0, 0) (Spawn 0x50 0 0 3) s = Some s' \<and> pool s' = demo_cont # c # replicate 126 cont_new \<and>
     quantum_armed c \<and> \<not> pending_wake c \<and> c_state c = C_READY \<and>
     current_cont s' = Some 1 \<and> s6_cont s' = None \<and>
     futex_addrs s' = 0x500 # 0 # replicate 126 0 \<and> futex_conts s' = Some 0 # None # replicate 126 None \<and> futex_locals s' = (\<lambda>_. None)(0 := Some 0)"
  by (simp add: assms spawn_continuation_def alloc_cont_def arm_quantum_for_running_def resumer_def do_switch_def upd_cont_def
    Let_def guard_def build_frame_sel cont_new_def demo_layout_conts_def)

lemma demo_stage3:
  assumes "pool s = demo_cont # c # replicate 126 cont_new" "quantum_armed c" "\<not> pending_wake c" "c_state c = C_READY" "current_cont s = Some 1"
     "s6_cont s = None" "futex_addrs s = 0x500 # 0 # replicate 126 0" "futex_conts s = Some 0 # None # replicate 126 None"
     "futex_locals s = (\<lambda>_. None)(0 := Some 0)"
  shows "\<exists>s' d. cont_step demo_layout_conts (0, 0) (Futex_Wake 0x500 1) s = Some s' \<and> pool s' = d # c # replicate 126 cont_new \<and>
     c_state d = C_READY \<and> current_cont s' = Some 1 \<and> s6_cont s' = None \<and>
     futex_addrs s' = 0 # 0 # replicate 126 0 \<and> futex_conts s' = None # None # replicate 126 None \<and> futex_locals s' = (\<lambda>_. None)(0 := Some 0)"
  by (simp add: assms cont_op_defs futex_op_defs upt_128)

lemma demo_stage4:
  assumes "pool s = d # c # replicate 126 cont_new" "quantum_armed c" "\<not> pending_wake c" "c_state d = C_READY" "current_cont s = Some 1"
     "s6_cont s = None" "futex_addrs s = 0 # 0 # replicate 126 0" "futex_conts s = None # None # replicate 126 None"
     "futex_locals s = (\<lambda>_. None)(0 := Some 0)"
  shows "\<exists>s'. cont_step demo_layout_conts (0, 0) (Futex_Wait 0x600 0 0) s = Some s' \<and> current_cont s' = None \<and> drain_resolve_ready s' = Some 0 \<and>
     futex_locals s' 0 = Some 0 \<and> futex_conts s' ! 0 = Some 1 \<and> st_of s' 1 = C_PARKED"
  by (simp add: assms cont_op_defs futex_op_defs drain_resolve_ready_def drainable_def)

lemma demo_reuse:
  "\<exists>s. demo_conts ([Spawn 0x40 0 0 3, Futex_Wait 0x500 0 0] @ [Spawn 0x50 0 0 3, Futex_Wake 0x500 1, Futex_Wait 0x600 0 0]) = Some s \<and>
     current_cont s = None \<and> drain_resolve_ready s = Some 0 \<and> futex_locals s 0 = Some 0 \<and> futex_conts s ! 0 = Some 1 \<and> st_of s 1 = C_PARKED"
proof -
  from demo_stage1 obtain s1 where s1: "demo_conts [Spawn 0x40 0 0 3, Futex_Wait 0x500 0 0] = Some s1"
     "pool s1 = demo_cont # cont_new # replicate 126 cont_new" "cont_next s1 = 1" "cont_free_top s1 = 0" "current_cont s1 = None" "s6_cont s1 = None"
     "futex_addrs s1 = 0x500 # 0 # replicate 126 0" "futex_conts s1 = Some 0 # None # replicate 126 None" "futex_locals s1 = (\<lambda>_. None)(0 := Some 0)"
    by blast
  from demo_stage2 [OF s1(2-9)] obtain s2 c where s2: "cont_step demo_layout_conts (0, 0) (Spawn 0x50 0 0 3) s1 = Some s2"
     "pool s2 = demo_cont # c # replicate 126 cont_new" "quantum_armed c" "\<not> pending_wake c" "c_state c = C_READY" "current_cont s2 = Some 1"
     "s6_cont s2 = None" "futex_addrs s2 = 0x500 # 0 # replicate 126 0" "futex_conts s2 = Some 0 # None # replicate 126 None"
     "futex_locals s2 = (\<lambda>_. None)(0 := Some 0)"
    by blast
  from demo_stage3 [OF s2(2-10)] obtain s3 d where s3: "cont_step demo_layout_conts (0, 0) (Futex_Wake 0x500 1) s2 = Some s3"
     "pool s3 = d # c # replicate 126 cont_new" "c_state d = C_READY" "current_cont s3 = Some 1" "s6_cont s3 = None"
     "futex_addrs s3 = 0 # 0 # replicate 126 0" "futex_conts s3 = None # None # replicate 126 None" "futex_locals s3 = (\<lambda>_. None)(0 := Some 0)"
    by blast
  from demo_stage4 [OF s3(2) s2(3,4) s3(3-8)] obtain s4 where s4: "cont_step demo_layout_conts (0, 0) (Futex_Wait 0x600 0 0) s3 = Some s4"
     "current_cont s4 = None" "drain_resolve_ready s4 = Some 0" "futex_locals s4 0 = Some 0" "futex_conts s4 ! 0 = Some 1" "st_of s4 1 = C_PARKED"
    by blast
  have en: "cont_enabled (Spawn 0x50 0 0 3) s1" "cont_enabled (Futex_Wake 0x500 1) s2" "cont_enabled (Futex_Wait 0x600 0 0) s3"
    using s1(5) s2 s3 by simp_all
  have "demo_conts ([Spawn 0x40 0 0 3, Futex_Wait 0x500 0 0] @ [Spawn 0x50 0 0 3, Futex_Wake 0x500 1, Futex_Wait 0x600 0 0]) = Some s4"
    using s1(1) by (simp add: demo_conts_def cont_run_append s2(1) s3(1) s4(1) en del: cont_step.simps cont_enabled.simps append.simps)
  with s4 show ?thesis by blast
qed

section \<open>The properties on the runs\<close>

theorem continuations_stay_consistent_witness:
  "\<exists>s s'. demo_conts [Spawn 0x40 0 0 3, Self_Escape] = Some s \<and> st_of s 0 = C_ESCAPED \<and> cont_step demo_layout_conts (0, 0) Wake s = Some s' \<and>
     cont_ok s \<and> cont_ok s'"
proof -
  from demo_escape obtain s where s: "demo_conts [Spawn 0x40 0 0 3, Self_Escape] = Some s" "st_of s 0 = C_ESCAPED" by blast
  from continuations_stay_consistent [OF demo_conts_reach [OF s(1)], where op = Wake] have "cont_ok s" "cont_ok (coop_wake s)" by auto
  with s show ?thesis by auto
qed

theorem drain_resumes_ready_witness:
  "\<exists>s s'. demo_conts [Spawn 0x40 0 0 3, Self_Escape] = Some s \<and> drain_ready (5, 9) 0 s = Some s' \<and> current_cont s' \<noteq> None"
proof -
  from demo_escape obtain s where s: "demo_conts [Spawn 0x40 0 0 3, Self_Escape] = Some s" "st_of s 0 = C_ESCAPED" "current_cont s = None" by blast
  have "\<exists>i < 128. drainable (st_of s i)" using s(2) by (intro exI [of _ 0]) (simp add: drainable_def)
  with drain_resumes_ready [OF demo_conts_reach [OF s(1)] s(3), where t = "(5, 9)" and lsp = 0] s(1) show ?thesis by auto
qed

theorem futex_wake_takes_first_witness:
  "\<exists>s s'. demo_conts [Spawn 0x40 0 0 3, Futex_Wait 0x500 0 0] = Some s \<and> cont_futex_wake 0x500 1 s = (1, s') \<and> st_of s' 0 = C_READY \<and>
     futex_addrs s' ! 0 = 0 \<and> cont_pending s' = Some 0"
proof -
  from demo_wait obtain s where s: "demo_conts [Spawn 0x40 0 0 3, Futex_Wait 0x500 0 0] = Some s" "futex_addrs s = 0x500 # 0 # replicate 126 0"
    "futex_conts s = Some 0 # None # replicate 126 None" by blast
  have w: "futex_woken 0x500 1 s = [0]" by (simp add: futex_woken_def futex_hits_def upt_128 s)
  from futex_wake_takes_first [OF demo_conts_reach [OF s(1)], where addr = "0x500" and count = 1] obtain s' where "cont_futex_wake 0x500 1 s = (1, s')"
      "\<forall>k < 128. futex_addrs s' ! k = (if k = 0 then 0 else futex_addrs s ! k)" "\<forall>i < 128. st_of s' i = (if i = 0 then C_READY else st_of s i)"
      "cont_pending s' = Some 0"
    by (auto simp: w s(3))
  with s(1) show ?thesis by auto
qed

theorem wake_discards_escape_witness:
  "\<exists>s s'. demo_conts [Spawn 0x40 0 0 3, Self_Escape] = Some s \<and> st_of s 0 = C_ESCAPED \<and> drain_ready (5, 9) 0 (coop_wake s) = Some s' \<and>
     sa_target (switch_to_args s') = 0x107ee0 \<and> continuation_self_escape s' = None"
proof -
  from demo_escape obtain s where s: "demo_conts [Spawn 0x40 0 0 3, Self_Escape] = Some s" "current_cont s = None" "cont_pending s = Some 0"
    "st_of s 0 = C_ESCAPED" "state_frame (pool s ! 0) = 0x107ee0" by blast
  from wake_discards_escape [OF demo_conts_reach [OF s(1)] s(2-4), where t = "(5, 9)" and lsp = 0] s show ?thesis by auto
qed


text \<open>The first switch, with the arguments of the machine at \<open>0x1000\<close>.\<close>

definition demo_switch :: "cont_sys \<Rightarrow> machine" where
  "demo_switch s = demo_machine\<lparr>m_mem := (c_mem s)(0x1000 := 0x2000, 0x1008 := 0x107ee0, 0x1010 := 0x1010000)\<rparr>"

lemma demo_spawn:
  "\<exists>s. spawn_continuation demo_layout_conts (5, 9) 0 0x40 0 0 3 (cont_init 0x60000 (\<lambda>_. 0)) = Some (0, s) \<and>
     sa_target (switch_to_args s) = 0x107ee0 \<and> sa_target_slot (switch_to_args s) = 0x1010000"
  by (simp add: cont_init_def cont_op_defs demo_layout_conts_def replicate_128 cont_new_def
     cont_stack_top_def cont_slot_top_def CONT_STACK_SIZE_def CONT_GUARD_def CONT_SLOT_SIZE_def CONT_SLOT_GUARD_def)

theorem spawned_continuation_starts_witness:
  "\<exists>s m'. spawn_continuation demo_layout_conts (5, 9) 0 0x40 0 0 3 (cont_init 0x60000 (\<lambda>_. 0)) = Some (0, s) \<and>
     run (cont_switch 0x1000) (demo_switch s) = Some m' \<and> m_pc m' = 0x40 \<and> m_tpidr_el0 m' = CONT_TLS_MAGIC"
proof -
  from demo_spawn obtain s where s: "spawn_continuation demo_layout_conts (5, 9) 0 0x40 0 0 3 (cont_init 0x60000 (\<lambda>_. 0)) = Some (0, s)"
     "sa_target (switch_to_args s) = 0x107ee0" "sa_target_slot (switch_to_args s) = 0x1010000" by blast
  have lay: "switch_layout 0x1000 (demo_switch s)"
    by (simp add: switch_layout_def demo_switch_def demo_machine_def sw_save_def sw_target_def m_sp_def apart_def)
  have "frame_at (m_mem (demo_switch s)) 0x107ee0 = frame_at (c_mem s) 0x107ee0" by (simp add: frame_at_def upt_36 demo_switch_def)
  then have f: "frame_at (m_mem (demo_switch s)) (sa_target (switch_to_args s)) = frame_at (c_mem s) (sa_target (switch_to_args s))" by (simp add: s)
  have "sw_target 0x1000 (demo_switch s) = sa_target (switch_to_args s)" "sw_slot 0x1000 (demo_switch s) = sa_target_slot (switch_to_args s)"
    by (simp_all add: s sw_target_def sw_slot_def demo_switch_def)
  from spawned_continuation_starts [OF cont_start _ s(1) lay this f] s(1) show ?thesis by (auto simp: cont_init_def)
qed

end
