(* ===== verification/Paging.thy ===== *)
theory Paging
  imports Prelude
begin

text \<open>
  The page tables of the aarch64 port (\<^verbatim>\<open>src/arch/aarch64/mm/paging.rs\<close>). Tables live in physical memory; the code reaches them through
  virtual addresses, by way of an entry of the root table that refers to the root table itself. The model has the address translation of the
  processor (\<open>walk\<close>, \<open>translate\<close>), and every access of the code to an entry goes through it: an access to an address without a
  translation is a fault, \<^const>\<open>None\<close> like a panic. The translation look-aside buffer is not modelled: the code flushes every entry it
  changes, so the translation always sees the tables. Physical frames come from the allocator of the free-list crate, which is the argument
  \<open>alloc\<close>.
\<close>

unbundle bit_operations_syntax

section \<open>Flags and entries\<close>

text \<open>\<open>PageTableEntryFlags\<close>; sets of flags are combined with OR.\<close>

definition PRESENT :: u64 where "PRESENT = 1"
definition TABLE_OR_4KIB_PAGE :: u64 where "TABLE_OR_4KIB_PAGE = 2"
definition DEVICE_NGNRNE :: u64 where "DEVICE_NGNRNE = 0"
definition DEVICE_NGNRE :: u64 where "DEVICE_NGNRE = 4"
definition DEVICE_GRE :: u64 where "DEVICE_GRE = 8"
definition NORMAL_NC :: u64 where "NORMAL_NC = 12"
definition NORMAL :: u64 where "NORMAL = 16"
definition READ_ONLY :: u64 where "READ_ONLY = 128"
definition INNER_SHAREABLE :: u64 where "INNER_SHAREABLE = 768"
definition ACCESSED :: u64 where "ACCESSED = 1024"
definition CONTIGUOUS :: u64 where "CONTIGUOUS = 0x10000000000000"
definition PRIVILEGED_EXECUTE_NEVER :: u64 where "PRIVILEGED_EXECUTE_NEVER = 0x20000000000000"
definition UNPRIVILEGED_EXECUTE_NEVER :: u64 where "UNPRIVILEGED_EXECUTE_NEVER = 0x40000000000000"

lemmas flag_defs = PRESENT_def TABLE_OR_4KIB_PAGE_def DEVICE_NGNRNE_def DEVICE_NGNRE_def DEVICE_GRE_def NORMAL_NC_def NORMAL_def READ_ONLY_def
  INNER_SHAREABLE_def ACCESSED_def CONTIGUOUS_def PRIVILEGED_EXECUTE_NEVER_def UNPRIVILEGED_EXECUTE_NEVER_def

definition flags_remove :: "u64 \<Rightarrow> u64 \<Rightarrow> u64" where
  "flags_remove f fs = fs AND NOT f"

definition device :: "u64 \<Rightarrow> u64" where
  "device fs = flags_remove DEVICE_GRE (flags_remove DEVICE_NGNRE (flags_remove NORMAL_NC (flags_remove NORMAL fs))) OR DEVICE_NGNRNE"

definition normal :: "u64 \<Rightarrow> u64" where
  "normal fs = flags_remove DEVICE_GRE (flags_remove DEVICE_NGNRE (flags_remove NORMAL_NC fs)) OR NORMAL"

definition read_only :: "u64 \<Rightarrow> u64" where
  "read_only fs = fs OR READ_ONLY"

definition writable :: "u64 \<Rightarrow> u64" where
  "writable fs = flags_remove READ_ONLY fs"

definition execute_disable :: "u64 \<Rightarrow> u64" where
  "execute_disable fs = fs OR PRIVILEGED_EXECUTE_NEVER OR UNPRIVILEGED_EXECUTE_NEVER"

datatype page_size = BasePageSize | LargePageSize | HugePageSize

fun SIZE :: "page_size \<Rightarrow> u64" where
  "SIZE BasePageSize = 4096"
| "SIZE LargePageSize = 2 * 1024 * 1024"
| "SIZE HugePageSize = 1024 * 1024 * 1024"

fun MAP_LEVEL :: "page_size \<Rightarrow> nat" where
  "MAP_LEVEL BasePageSize = 3"
| "MAP_LEVEL LargePageSize = 2"
| "MAP_LEVEL HugePageSize = 1"

fun MAP_EXTRA_FLAG :: "page_size \<Rightarrow> u64" where
  "MAP_EXTRA_FLAG BasePageSize = TABLE_OR_4KIB_PAGE"
| "MAP_EXTRA_FLAG _ = 0"

definition pte_address :: "u64 \<Rightarrow> u64" where
  "pte_address e = e AND NOT (SIZE BasePageSize - 1) AND NOT (push_bit 48 u64_max)"

definition is_present :: "u64 \<Rightarrow> bool" where
  "is_present e \<longleftrightarrow> e AND PRESENT \<noteq> 0"

text \<open>\<open>PageTableEntry::set\<close>: the new value of the entry, or a panic if the address is not aligned.\<close>

definition pte_set :: "u64 \<Rightarrow> u64 \<Rightarrow> u64 option" where
  "pte_set pa flags =
     (if pa AND (SIZE BasePageSize - 1) = 0 then Some (pa OR (flags OR PRESENT OR INNER_SHAREABLE OR ACCESSED)) else None)"

section \<open>Address translation\<close>

definition table_index :: "nat \<Rightarrow> u64 \<Rightarrow> u64" where
  "table_index l va = drop_bit ((3 - l) * 9) (drop_bit 12 va) AND 0x1ff"

definition va_indices :: "u64 \<Rightarrow> u64 list" where
  "va_indices va = map (\<lambda>l. table_index l va) [0, 1, 2, 3]"

text \<open>The walk of the processor from a table on: the entry that ends it and how many levels are below. A valid entry with bit 1 refers to a
  table, or on the last level to a page; one without it is a block, which the first and the last level do not have.\<close>

fun walk :: "(u64 \<Rightarrow> u64) \<Rightarrow> u64 \<Rightarrow> u64 list \<Rightarrow> (u64 \<times> nat) option" where
  "walk m t [] = None"
| "walk m t (i # is) =
     (let e = m (t + 8 * i) in
      if e AND 1 = 0 then None
      else if e AND 2 = 0 then (if length is = 1 \<or> length is = 2 then Some (e, length is) else None)
      else if is = [] then Some (e, 0)
      else walk m (pte_address e) is)"

text \<open>The output address: the address of the entry with the offset within the page or block.\<close>

definition leaf_address :: "u64 \<Rightarrow> u64 \<times> nat \<Rightarrow> u64" where
  "leaf_address va en = (case en of (e, n) \<Rightarrow> (pte_address e AND NOT (mask (12 + 9 * n))) OR (va AND mask (12 + 9 * n)))"

record 'f paging =
  pt_mem :: "u64 \<Rightarrow> u64"
  ttbr0 :: u64
  frames :: 'f

definition leaf :: "'f paging \<Rightarrow> u64 \<Rightarrow> (u64 \<times> nat) option" where
  "leaf s va = (if va < 0x1000000000000 then walk (pt_mem s) (ttbr0 s) (va_indices va) else None)"

definition translate :: "'f paging \<Rightarrow> u64 \<Rightarrow> u64 option" where
  "translate s va = map_option (leaf_address va) (leaf s va)"

definition vread :: "u64 \<Rightarrow> 'f paging \<Rightarrow> u64 option" where
  "vread va s = map_option (pt_mem s) (translate s va)"

definition vwrite :: "u64 \<Rightarrow> u64 \<Rightarrow> 'f paging \<Rightarrow> 'f paging option" where
  "vwrite va v s = map_option (\<lambda>p. s\<lparr>pt_mem := (pt_mem s)(p := v)\<rparr>) (translate s va)"

section \<open>Tables and pages\<close>

definition L0TABLE_ADDRESS :: u64 where
  "L0TABLE_ADDRESS = 0x0000fffffffff000"

definition GROUP_SIZE :: nat where
  "GROUP_SIZE = 16"

text \<open>A table is its virtual address.\<close>

definition get_entry :: "u64 \<Rightarrow> u64 \<Rightarrow> 'f paging \<Rightarrow> u64 option" where
  "get_entry tbl i s = vread (tbl + 8 * i) s"

definition put_entry :: "u64 \<Rightarrow> u64 \<Rightarrow> u64 \<Rightarrow> 'f paging \<Rightarrow> 'f paging option" where
  "put_entry tbl i e s = vwrite (tbl + 8 * i) e s"

primrec fill_entries :: "u64 \<Rightarrow> u64 list \<Rightarrow> 'f paging \<Rightarrow> 'f paging option" where
  "fill_entries tbl [] s = Some s"
| "fill_entries tbl (i # is) s = put_entry tbl i 0 s \<bind> fill_entries tbl is"

definition subtable :: "u64 \<Rightarrow> u64 \<Rightarrow> u64" where
  "subtable tbl i = (push_bit 9 tbl AND NOT (push_bit 48 u64_max)) OR push_bit 12 i"

definition is_valid_address :: "u64 \<Rightarrow> bool" where
  "is_valid_address va \<longleftrightarrow> va < 0x1000000000000"

definition including_address :: "page_size \<Rightarrow> u64 \<Rightarrow> u64 option" where
  "including_address S va = do {
     guard (is_valid_address va);
     Some (va AND NOT (SIZE S - 1))
   }"

definition map_page_in_this_table :: "page_size \<Rightarrow> nat \<Rightarrow> u64 \<Rightarrow> u64 \<Rightarrow> u64 \<Rightarrow> u64 \<Rightarrow> 'f paging \<Rightarrow> 'f paging option" where
  "map_page_in_this_table S l tbl page pa flags s = do {
     guard (l = MAP_LEVEL S);
     let i = table_index l page;
     e \<leftarrow> get_entry tbl i s;
     s1 \<leftarrow> (if is_present e then put_entry tbl i 0 s else Some s);
     if flags = 0 then Some s1
     else do {
       e' \<leftarrow> pte_set pa (MAP_EXTRA_FLAG S OR flags);
       put_entry tbl i e' s1
     }
   }"

type_synonym 'f alloc = "'f \<Rightarrow> nat \<Rightarrow> nat \<Rightarrow> (u64 \<times> 'f) option"

definition table_indices :: "u64 list" where
  "table_indices = map of_nat [0..<512]"

text \<open>\<open>PageTable::map_page\<close> from a table of level \<open>l\<close> on. A missing subtable is allocated, entered and cleared.\<close>

definition new_subtable :: "'f alloc \<Rightarrow> u64 \<Rightarrow> u64 \<Rightarrow> 'f paging \<Rightarrow> 'f paging option" where
  "new_subtable alloc tbl i s = do {
     (frame, fs) \<leftarrow> alloc (frames s) 4096 4096;
     e \<leftarrow> pte_set frame (NORMAL OR TABLE_OR_4KIB_PAGE);
     s1 \<leftarrow> put_entry tbl i e (s\<lparr>frames := fs\<rparr>);
     fill_entries (subtable tbl i) table_indices s1
   }"

function map_page :: "'f alloc \<Rightarrow> page_size \<Rightarrow> nat \<Rightarrow> u64 \<Rightarrow> u64 \<Rightarrow> u64 \<Rightarrow> u64 \<Rightarrow> 'f paging \<Rightarrow> 'f paging option" where
  "map_page alloc S l tbl page pa flags s =
     (if l < MAP_LEVEL S
      then do {
        let i = table_index l page;
        e \<leftarrow> get_entry tbl i s;
        s1 \<leftarrow> (if is_present e then Some s else new_subtable alloc tbl i s);
        map_page alloc S (l + 1) (subtable tbl i) page pa flags s1
      }
      else map_page_in_this_table S l tbl page pa flags s)"
  by pat_completeness auto
termination
  by (relation "measure (\<lambda>(alloc, S, l, tbl, page, pa, flags, s). MAP_LEVEL S - l)") auto

declare map_page.simps [simp del]

function get_page_table_entry :: "page_size \<Rightarrow> nat \<Rightarrow> u64 \<Rightarrow> u64 \<Rightarrow> 'f paging \<Rightarrow> u64 option option" where
  "get_page_table_entry S l tbl page s = do {
     guard (l \<le> MAP_LEVEL S);
     let i = table_index l page;
     e \<leftarrow> get_entry tbl i s;
     if \<not> is_present e then Some None
     else if l < MAP_LEVEL S then get_page_table_entry S (l + 1) (subtable tbl i) page s
     else Some (Some e)
   }"
  by pat_completeness auto
termination
  by (relation "measure (\<lambda>(S, l, tbl, page, s). MAP_LEVEL S - l)") auto

declare get_page_table_entry.simps [simp del]

text \<open>The iteration over a range of pages. Both ends are valid addresses, so adding the size of a page does not wrap around.\<close>

function page_iter :: "page_size \<Rightarrow> u64 \<Rightarrow> u64 \<Rightarrow> u64 list" where
  "page_iter S cur stop =
     (if stop < cur \<or> \<not> is_valid_address stop then [] else cur # page_iter S (cur + SIZE S) stop)"
  by pat_completeness auto
termination
proof (relation "measure (\<lambda>(S, cur, stop). 2 ^ 49 - unat cur)")
  fix S and cur stop :: u64
  assume "\<not> (stop < cur \<or> \<not> is_valid_address stop)"
  then have "unat cur < 2 ^ 48" by (simp add: is_valid_address_def word_less_nat_alt)
  then have "unat (cur + SIZE S) = unat cur + unat (SIZE S) \<and> unat cur < 2 ^ 49" by (cases S) (simp_all add: unat_word_ariths)
  moreover have "0 < unat (SIZE S)" by (cases S) simp_all
  ultimately show "((S, cur + SIZE S, stop), (S, cur, stop)) \<in> measure (\<lambda>(S, cur, stop). 2 ^ 49 - unat cur)" by (simp add: diff_less_mono2)
qed simp

declare page_iter.simps [simp del]

primrec map_pages :: "'f alloc \<Rightarrow> page_size \<Rightarrow> u64 list \<Rightarrow> u64 \<Rightarrow> u64 \<Rightarrow> 'f paging \<Rightarrow> 'f paging option" where
  "map_pages alloc S [] pa flags s = Some s"
| "map_pages alloc S (page # pages) pa flags s = do {
     s1 \<leftarrow> map_page alloc S 0 L0TABLE_ADDRESS page pa flags s;
     map_pages alloc S pages (pa + SIZE S) flags s1
   }"

definition get_page_range :: "page_size \<Rightarrow> u64 \<Rightarrow> nat \<Rightarrow> u64 list option" where
  "get_page_range S va count = do {
     first \<leftarrow> including_address S va;
     stop \<leftarrow> including_address S (va + (of_nat count - 1) * SIZE S);
     guard (first \<le> stop);
     Some (page_iter S first stop)
   }"

definition get_physical_address :: "page_size \<Rightarrow> u64 \<Rightarrow> 'f paging \<Rightarrow> u64 option option" where
  "get_physical_address S va s = do {
     page \<leftarrow> including_address S va;
     pte \<leftarrow> get_page_table_entry S 0 L0TABLE_ADDRESS page s;
     Some (case pte of None \<Rightarrow> None | Some e \<Rightarrow> Some (pte_address e OR (va AND (SIZE S - 1))))
   }"

definition virtual_to_physical :: "u64 \<Rightarrow> 'f paging \<Rightarrow> u64 option option" where
  "virtual_to_physical va s = get_physical_address BasePageSize va s"

lemma SIZE_pos: "0 < unat (SIZE S)"
  by (cases S) simp_all

text \<open>\<open>paging::map\<close>. The two inner calls are for fewer pages than a group.\<close>

function paging_map :: "'f alloc \<Rightarrow> page_size \<Rightarrow> u64 \<Rightarrow> u64 \<Rightarrow> nat \<Rightarrow> u64 \<Rightarrow> 'f paging \<Rightarrow> 'f paging option" where
  "paging_map alloc S va pa count flags s =
     (if count < GROUP_SIZE
      then do {
        range \<leftarrow> get_page_range S va count;
        map_pages alloc S range pa flags s
      }
      else do {
        let offset = unat va mod (GROUP_SIZE * unat (SIZE S));
        s1 \<leftarrow> (if 0 < offset then paging_map alloc S va pa (offset div unat (SIZE S)) flags s else Some s);
        let (va1, pa1, count1) = (va + of_nat offset, pa + of_nat offset, count - offset div unat (SIZE S));
        let n = count1 div GROUP_SIZE * GROUP_SIZE;
        s2 \<leftarrow> (if GROUP_SIZE \<le> count1
               then do {
                 range \<leftarrow> get_page_range S va1 n;
                 map_pages alloc S range pa1 (flags OR CONTIGUOUS) s1
               }
               else Some s1);
        let (va2, pa2, count2) = (if GROUP_SIZE \<le> count1 then (va1 + of_nat n * SIZE S, pa1 + of_nat n * SIZE S, count1 - n) else (va1, pa1, count1));
        if 0 < count2 then paging_map alloc S va2 pa2 count2 flags s2 else Some s2
      })"
  by pat_completeness auto
termination
proof (relation "measure (\<lambda>(alloc, S, va, pa, count, flags, s). count)", goal_cases)
  case (2 alloc S va pa count flags s x)
  have "x div unat (SIZE S) < GROUP_SIZE" using 2 SIZE_pos [of S] by (simp add: less_mult_imp_div_less GROUP_SIZE_def)
  with 2 show ?case by simp
next
  case (3 alloc S va pa count flags s)
  then show ?case by (auto simp: GROUP_SIZE_def split: if_splits)
qed simp

declare paging_map.simps [simp del]

definition identity_map :: "'f alloc \<Rightarrow> page_size \<Rightarrow> u64 \<Rightarrow> 'f paging \<Rightarrow> 'f paging option" where
  "identity_map alloc S pa s = paging_map alloc S pa pa 1 (execute_disable (writable (normal 0))) s"

definition paging_unmap :: "'f alloc \<Rightarrow> page_size \<Rightarrow> u64 \<Rightarrow> nat \<Rightarrow> 'f paging \<Rightarrow> 'f paging option" where
  "paging_unmap alloc S va count s = do {
     range \<leftarrow> get_page_range S va count;
     map_pages alloc S range 0 0 s
   }"

text \<open>\<open>map_heap\<close>: the largest allocation that succeeds is mapped, until all pages are. The inner loop tries sizes from the whole rest
  downwards; when none succeeds the outer loop starts again.\<close>

fun alloc_down :: "'f alloc \<Rightarrow> page_size \<Rightarrow> nat \<Rightarrow> 'f \<Rightarrow> (nat \<times> u64 \<times> 'f) option" where
  "alloc_down alloc S 0 fs = None"
| "alloc_down alloc S (Suc n) fs =
     (case alloc fs (Suc n * unat (SIZE S)) (unat (SIZE S)) of
        Some (pa, fs') \<Rightarrow> Some (Suc n, pa, fs')
      | None \<Rightarrow> alloc_down alloc S n fs)"

partial_function (option) map_heap_loop :: "'f alloc \<Rightarrow> page_size \<Rightarrow> u64 \<Rightarrow> nat \<Rightarrow> nat \<Rightarrow> 'f paging \<Rightarrow> (nat \<times> 'f paging) option" where
  "map_heap_loop alloc S va nr_pages map_counter s =
     (if map_counter < nr_pages
      then (case alloc_down alloc S (nr_pages - map_counter) (frames s) of
              None \<Rightarrow> map_heap_loop alloc S va nr_pages map_counter s
            | Some (n, pa, fs) \<Rightarrow> do {
                s1 \<leftarrow> paging_map alloc S (va + of_nat map_counter * SIZE S) pa n (execute_disable (writable (normal 0))) (s\<lparr>frames := fs\<rparr>);
                map_heap_loop alloc S va nr_pages (map_counter + n) s1
              })
      else Some (map_counter, s))"

definition map_heap :: "'f alloc \<Rightarrow> page_size \<Rightarrow> u64 \<Rightarrow> nat \<Rightarrow> 'f paging \<Rightarrow> ((nat + unit) \<times> 'f paging) option" where
  "map_heap alloc S va nr_pages s = do {
     (map_counter, s1) \<leftarrow> map_heap_loop alloc S va nr_pages 0 s;
     Some (if map_counter < nr_pages then Inl map_counter else Inr (), s1)
   }"

end
