(* ===== verification/Page_Tables.thy ===== *)
theory Page_Tables
  imports Paging "HOL-Library.Sublist"
begin

text \<open>
  The page tables of \<open>Paging\<close> as a tree: recursive mapping, the invariant of the tables, and what mapping and unmapping pages does to the
  translation of addresses.
\<close>

unbundle bit_operations_syntax

section \<open>Addresses as numbers\<close>

definition aligned :: "u64 \<Rightarrow> bool" where
  "aligned t \<longleftrightarrow> unat t mod 4096 = 0"

lemma and_mask_unat: "unat (w AND mask n) = unat w mod 2 ^ n" for w :: u64
  unfolding take_bit_eq_mask [symmetric] unsigned_take_bit_eq by (simp add: take_bit_eq_mod)

lemma low_mask_unat: "unat (w AND 0x1ff) = unat w mod 512" "unat (w AND 0xfff) = unat w mod 4096" for w :: u64
  using and_mask_unat [of w 9] and_mask_unat [of w 12] by (simp_all add: mask_eq_exp_minus_1)

lemma drop_unat: "unat (drop_bit n w) = unat w div 2 ^ n" for w :: u64
  unfolding unsigned_drop_bit_eq using unat_less_pow [of w] by (simp add: drop_bit_eq_div take_bit_nat_eq_self)

lemma table_index_unat: "unat (table_index l va) = unat va div 2 ^ (12 + (3 - l) * 9) mod 512"
  by (simp only: table_index_def low_mask_unat drop_unat power_add div_mult2_eq)

lemma table_index_less [simp]: "table_index l va < 512"
  by (simp add: word_less_nat_alt table_index_unat)

lemma not_high: "NOT (push_bit 48 u64_max) = mask 48"
  by (simp add: mask_eq_exp_minus_1)

lemma and_not_mask_unat: "unat (w AND NOT (mask n)) = unat w - unat w mod 2 ^ n" for w :: u64
proof -
  have "w = (w AND NOT (mask n)) + (w AND mask n)" by (subst disjunctive_add) (auto simp: bit_eq_iff bit_simps)
  moreover have "unat (w AND mask n) \<le> unat w" by (simp add: and_mask_unat)
  ultimately show ?thesis by (metis add_diff_cancel_right' and_mask_unat unat_sub word_le_nat_alt)
qed

lemma pte_address_unat: "unat (pte_address e) = unat e mod 2 ^ 48 - unat e mod 4096"
proof -
  have "pte_address e = (e AND mask 48) AND NOT (mask 12)"
    by (simp add: pte_address_def not_high mask_eq_exp_minus_1 ac_simps)
  then show ?thesis by (simp add: and_not_mask_unat and_mask_unat mod_mod_cancel)
qed

lemma pte_address_bounds: "aligned (pte_address e)" "unat (pte_address e) < 2 ^ 48"
proof -
  have "4096 dvd (2 ^ 48 :: nat)" by simp
  then have "unat e mod 4096 = unat e mod 2 ^ 48 mod 4096" by (metis mod_mod_cancel)
  then show "aligned (pte_address e)" by (simp add: aligned_def pte_address_unat)
  show "unat (pte_address e) < 2 ^ 48" by (simp add: pte_address_unat less_imp_diff_less)
qed

lemma aligned_bits: "aligned t \<Longrightarrow> n < 12 \<Longrightarrow> \<not> bit t n"
proof -
  assume "aligned t" and n: "n < 12"
  then have "t AND mask 12 = 0" by (simp add: aligned_def and_mask_unat flip: unat_eq_zero)
  then have "\<not> bit (t AND mask 12) n" by simp
  then show "\<not> bit t n" using n by (simp add: bit_simps)
qed

lemma index_bits: "i < 512 \<Longrightarrow> 9 \<le> n \<Longrightarrow> \<not> bit i n" for i :: u64
proof -
  assume "i < 512" and n: "9 \<le> n"
  then have "unat (i AND mask 9) = unat i" by (simp add: word_less_nat_alt and_mask_unat)
  then have "i AND mask 9 = i" unfolding word_unat_eq_iff .
  then have "bit i n \<longleftrightarrow> bit (i AND mask 9) n" by simp
  then show "\<not> bit i n" using n by (simp add: bit_simps)
qed

lemma subtable_unat:
  assumes "aligned tbl" and "i < 512"
  shows "unat (subtable tbl i) = unat tbl * 512 mod 2 ^ 48 + 4096 * unat i"
proof -
  let ?a = "push_bit 9 tbl AND mask 48" and ?b = "push_bit 12 i"
  have i: "unat i < 512" using assms(2) by (simp add: word_less_nat_alt)
  have b: "unat ?b = 4096 * unat i" using i by (simp add: push_bit_eq_mult unat_word_ariths)
  have "unat (push_bit 9 tbl) = unat tbl * 512 mod 2 ^ 64" by (simp add: push_bit_eq_mult unat_word_ariths)
  then have a: "unat ?a = unat tbl * 512 mod 2 ^ 48" unfolding and_mask_unat by (simp add: mod_mod_cancel)
  have "\<not> bit ?a n \<or> \<not> bit ?b n" for n
    using aligned_bits [OF assms(1), of "n - 9"] index_bits [OF assms(2), of "n - 12"] by (cases "n < 21") (auto simp: bit_simps)
  then have "subtable tbl i = ?a + ?b" unfolding subtable_def not_high by (subst disjunctive_add) auto
  then show ?thesis using a b i by (simp add: unat_word_ariths)
qed

lemma aligned_dvd: "aligned t \<longleftrightarrow> (\<exists>k. unat t = 4096 * k)"
  by (auto simp: aligned_def mod_eq_0_iff_dvd dvd_def)

lemma subtable_pages:
  assumes "i < 512" and k: "unat tbl = 4096 * k"
  shows "unat (subtable tbl i) = 4096 * (512 * (k mod 2 ^ 27) + unat i)"
proof -
  have "aligned tbl" using k by (auto simp: aligned_dvd)
  moreover have "4096 * k * 512 mod 2 ^ 48 = 4096 * 512 * (k mod 2 ^ 27)" using mult_mod_right [of 2097152 k "2 ^ 27"] by simp
  ultimately show ?thesis using assms by (simp add: subtable_unat)
qed

lemma aligned_subtable [simp]: "aligned tbl \<Longrightarrow> i < 512 \<Longrightarrow> aligned (subtable tbl i)"
  using subtable_pages [of i tbl] unfolding aligned_dvd by blast

lemma subtable_bound: "aligned tbl \<Longrightarrow> i < 512 \<Longrightarrow> unat (subtable tbl i) < 2 ^ 48"
proof -
  assume *: "aligned tbl" "i < 512"
  then obtain k where k: "unat tbl = 4096 * k" by (auto simp: aligned_dvd)
  have "k mod 2 ^ 27 < 2 ^ 27" "unat i < 512" using *(2) by (simp_all add: word_less_nat_alt)
  then show ?thesis unfolding subtable_pages [OF *(2) k] by simp
qed

lemma mod_div_mod: "c dvd b \<Longrightarrow> 0 < a \<Longrightarrow> k mod (a * b) div a mod c = k div a mod c" for a b c k :: nat
  by (simp add: mod_mult2_eq mod_mod_cancel)

lemma subtable_index:
  assumes "aligned tbl" and "i < 512"
  shows "table_index 3 (subtable tbl i) = i" and "l < 3 \<Longrightarrow> table_index l (subtable tbl i) = table_index (l + 1) tbl"
proof -
  have i: "unat i < 512" using assms(2) by (simp add: word_less_nat_alt)
  obtain k where k: "unat tbl = 4096 * k" using assms(1) by (auto simp: aligned_dvd)
  note eq = subtable_pages [OF assms(2) k]
  have "unat (table_index 3 (subtable tbl i)) = unat i" using i by (simp add: table_index_unat eq)
  then show "table_index 3 (subtable tbl i) = i" by (simp add: word_unat_eq_iff)
  assume l: "l < 3"
  have e: "(3 - l) * 9 = 9 + (2 - l) * 9" using l by simp
  have d: "512 dvd (2 :: nat) ^ (27 - (2 - l) * 9)" and p: "(2 :: nat) ^ 27 = 2 ^ ((2 - l) * 9) * 2 ^ (27 - (2 - l) * 9)"
    using l le_imp_power_dvd [of 9 "27 - (2 - l) * 9" "2 :: nat"] by (simp_all flip: power_add)
  have m: "k mod 2 ^ 27 div 2 ^ ((2 - l) * 9) mod 512 = k div 2 ^ ((2 - l) * 9) mod 512"
    by (subst p) (rule mod_div_mod [OF d], simp)
  have "(512 * (k mod 2 ^ 27) + unat i) div 2 ^ ((3 - l) * 9) = k mod 2 ^ 27 div 2 ^ ((2 - l) * 9)"
    unfolding e power_add using i by (simp add: div_mult2_eq)
  with m have "unat (table_index l (subtable tbl i)) = unat (table_index (l + 1) tbl)"
    unfolding table_index_unat eq k power_add div_mult2_eq by simp
  then show "table_index l (subtable tbl i) = table_index (l + 1) tbl" by (simp add: word_unat_eq_iff)
qed

lemma subtable_indices: "aligned tbl \<Longrightarrow> i < 512 \<Longrightarrow> va_indices (subtable tbl i) = tl (va_indices tbl) @ [i]"
  using subtable_index [of tbl i] by (simp add: va_indices_def numeral_3_eq_3 numeral_2_eq_2)

lemma entry_unat:
  assumes "aligned t" and "i < 512"
  shows "unat (t + 8 * i) = unat t + 8 * unat i" and "unat (t + 8 * i) mod 4096 = 8 * unat i"
proof -
  have i: "unat i < 512" using assms(2) by (simp add: word_less_nat_alt)
  obtain k where k: "unat t = 4096 * k" using assms(1) by (auto simp: aligned_dvd)
  have "k < 2 ^ 52" using unat_less_pow [of t] k by simp
  then have "4096 * k + 8 * unat i < 2 ^ 64" using i by simp
  then show eq: "unat (t + 8 * i) = unat t + 8 * unat i" using i k by (simp add: unat_word_ariths)
  show "unat (t + 8 * i) mod 4096 = 8 * unat i" unfolding eq k using i by simp
qed

lemma entry_index:
  assumes "aligned t" and "i < 512"
  shows "table_index l (t + 8 * i) = table_index l t"
proof -
  have i: "unat i < 512" using assms(2) by (simp add: word_less_nat_alt)
  obtain k where k: "unat t = 4096 * k" using assms(1) by (auto simp: aligned_dvd)
  have "(4096 * k + 8 * unat i) div 4096 = 4096 * k div 4096" using i by simp
  then have "unat (table_index l (t + 8 * i)) = unat (table_index l t)"
    unfolding table_index_unat entry_unat [OF assms] k power_add div_mult2_eq by simp
  then show ?thesis by (simp add: word_unat_eq_iff)
qed

lemma entry_indices: "aligned t \<Longrightarrow> i < 512 \<Longrightarrow> va_indices (t + 8 * i) = va_indices t"
  by (simp add: va_indices_def entry_index)

text \<open>Different entries of tables have different addresses.\<close>

lemma entry_inj:
  assumes "aligned t" "aligned t'" "i < 512" "i' < 512" and "t + 8 * i = t' + 8 * i'"
  shows "t = t' \<and> i = i'"
proof -
  have "8 * unat i = 8 * unat i'" using entry_unat(2) [OF assms(1,3)] entry_unat(2) [OF assms(2,4)] assms(5) by simp
  then have "i = i'" by (simp add: word_unat_eq_iff)
  with assms(5) show ?thesis by simp
qed

section \<open>The tree of tables\<close>

lemma flag_bits: "e AND 1 = 0 \<longleftrightarrow> \<not> bit e 0" "e AND 2 = 0 \<longleftrightarrow> \<not> bit e 1" for e :: u64
  using and_exp_eq_0_iff_not_bit [of e 0] and_exp_eq_0_iff_not_bit [of e 1] by simp_all

lemma is_present_bit: "is_present e \<longleftrightarrow> bit e 0"
  by (simp add: is_present_def PRESENT_def flag_bits)

text \<open>The table that a list of indices leads to, and the addresses read on the way.\<close>

fun table_of :: "(u64 \<Rightarrow> u64) \<Rightarrow> u64 \<Rightarrow> u64 list \<Rightarrow> u64 option" where
  "table_of m t [] = Some t"
| "table_of m t (i # is) = (let e = m (t + 8 * i) in if bit e 0 \<and> bit e 1 then table_of m (pte_address e) is else None)"

lemma table_of_append: "table_of m t (p @ q) = table_of m t p \<bind> (\<lambda>t'. table_of m t' q)"
  by (induction p arbitrary: t) (auto simp: Let_def)

lemma table_of_aligned: "table_of m t p = Some t' \<Longrightarrow> aligned t \<Longrightarrow> aligned t'"
  by (induction p arbitrary: t) (auto simp: Let_def pte_address_bounds split: if_splits)

lemma table_of_agree:
  assumes "\<And>k t'. k < length q \<Longrightarrow> table_of m t (take k q) = Some t' \<Longrightarrow> m' (t' + 8 * q ! k) = m (t' + 8 * q ! k)"
  shows "table_of m' t q = table_of m t q"
  using assms
proof (induction q arbitrary: t)
  case (Cons i q)
  have eq: "m' (t + 8 * i) = m (t + 8 * i)" using Cons.prems [of 0 t] by simp
  show ?case
  proof (cases "bit (m (t + 8 * i)) 0 \<and> bit (m (t + 8 * i)) 1")
    case True
    have "table_of m' (pte_address (m (t + 8 * i))) q = table_of m (pte_address (m (t + 8 * i))) q"
    proof (rule Cons.IH)
      fix k t' assume "k < length q" and "table_of m (pte_address (m (t + 8 * i))) (take k q) = Some t'"
      then show "m' (t' + 8 * q ! k) = m (t' + 8 * q ! k)" using Cons.prems [of "Suc k" t'] True by (simp add: Let_def)
    qed
    with eq True show ?thesis by (simp add: Let_def)
  qed (auto simp: eq Let_def)
qed simp

definition table_va :: "u64 list \<Rightarrow> u64" where
  "table_va p = foldl subtable L0TABLE_ADDRESS p"

lemma table_va_snoc [simp]: "table_va (p @ [i]) = subtable (table_va p) i"
  by (simp add: table_va_def)

lemma table_va_Nil [simp]: "table_va [] = L0TABLE_ADDRESS"
  by (simp add: table_va_def)

definition indices :: "u64 list \<Rightarrow> bool" where
  "indices p \<longleftrightarrow> (\<forall>i \<in> set p. i < 512)"

lemma indices_simps [simp]:
  "indices []" "indices (i # p) \<longleftrightarrow> i < 512 \<and> indices p" "indices (p @ q) \<longleftrightarrow> indices p \<and> indices q"
  by (auto simp: indices_def)

lemma indices_take [simp]: "indices p \<Longrightarrow> indices (take k p)"
  by (auto simp: indices_def dest: in_set_takeD)

lemma indices_nth: "indices p \<Longrightarrow> k < length p \<Longrightarrow> p ! k < 512"
  by (simp add: indices_def)

lemma va_indices_props [simp]: "indices (va_indices va)" "length (va_indices va) = 4"
  by (simp_all add: va_indices_def)

lemma table_va_props:
  assumes "indices p" and "length p \<le> 4"
  shows "aligned (table_va p) \<and> unat (table_va p) < 2 ^ 48 \<and> va_indices (table_va p) = replicate (4 - length p) 511 @ p"
  using assms
proof (induction p rule: rev_induct)
  case Nil
  have "va_indices L0TABLE_ADDRESS = [511, 511, 511, 511]" by (simp add: va_indices_def table_index_def L0TABLE_ADDRESS_def)
  moreover have "replicate 4 (511 :: u64) = [511, 511, 511, 511]" by (simp add: eval_nat_numeral)
  ultimately show ?case by (simp add: aligned_def L0TABLE_ADDRESS_def)
next
  case (snoc i p)
  then have IH: "aligned (table_va p)" "va_indices (table_va p) = replicate (4 - length p) 511 @ p" and i: "i < 512" by auto
  have "replicate (4 - length p) (511 :: u64) = 511 # replicate (3 - length p) 511" using snoc.prems by (cases "4 - length p") auto
  then show ?case using IH i subtable_bound [OF IH(1) i] by (simp add: subtable_indices)
qed

definition self_mapped :: "(u64 \<Rightarrow> u64) \<Rightarrow> u64 \<Rightarrow> bool" where
  "self_mapped m t \<longleftrightarrow> bit (m (t + 8 * 511)) 0 \<and> bit (m (t + 8 * 511)) 1 \<and> pte_address (m (t + 8 * 511)) = t"

lemma table_of_self: "self_mapped m t \<Longrightarrow> table_of m t (replicate n 511 @ p) = table_of m t p"
  by (induction n) (simp_all add: self_mapped_def Let_def)

lemma walk_table_of: "table_of m t is = Some t' \<Longrightarrow> is \<noteq> [] \<Longrightarrow> \<exists>e. walk m t is = Some (e, 0) \<and> pte_address e = t'"
  by (induction "is" arbitrary: t) (auto simp: Let_def flag_bits split: if_splits)

text \<open>Recursive mapping: the code reaches each entry of each table through its own tables.\<close>

lemma translate_table:
  assumes "self_mapped (pt_mem s) (ttbr0 s)" and "aligned (ttbr0 s)" and "indices p" "length p \<le> 3"
    and t: "table_of (pt_mem s) (ttbr0 s) p = Some t" and j: "j < 512"
  shows "translate s (table_va p + 8 * j) = Some (t + 8 * j)"
proof -
  let ?va = "table_va p + 8 * j"
  note va = table_va_props [OF assms(3)]
  have al: "aligned (table_va p)" "aligned t" using va assms(2,4) table_of_aligned [OF t] by auto
  have idx: "va_indices ?va = replicate (4 - length p) 511 @ p" using entry_indices [OF al(1) j] va assms(4) by simp
  obtain k where k: "unat (table_va p) = 4096 * k" using al(1) by (auto simp: aligned_dvd)
  then have "4096 * k < 2 ^ 48" using va assms(4) by simp
  then have "k < 2 ^ 36" by simp
  then have less: "?va < 0x1000000000000"
    using entry_unat(1) [OF al(1) j] j k by (simp add: word_less_nat_alt)
  have "table_of (pt_mem s) (ttbr0 s) (va_indices ?va) = Some t" unfolding idx table_of_self [OF assms(1)] by (rule t)
  from walk_table_of [OF this] obtain e where e: "walk (pt_mem s) (ttbr0 s) (va_indices ?va) = Some (e, 0)" "pte_address e = t"
    using idx assms(4) by auto
  have low: "?va AND mask 12 = 8 * j"
  proof -
    have "unat (8 * j) = 8 * unat j" using j by (simp add: word_less_nat_alt unat_word_ariths)
    then have "unat (?va AND mask 12) = unat (8 * j)" using entry_unat(2) [OF al(1) j] by (simp add: and_mask_unat)
    then show ?thesis by (simp only: word_unat_eq_iff)
  qed
  have "\<not> bit t n \<or> \<not> bit (8 * j) n" for n
    using aligned_bits [OF al(2), of n] low by (cases "n < 12") (auto simp: bit_simps dest!: arg_cong [where f = "\<lambda>w. bit w n"])
  then have "t + 8 * j = t OR (8 * j)" by (subst disjunctive_add) auto
  moreover have "t AND NOT (mask 12) = t" using aligned_bits [OF al(2)] by (intro bit_word_eqI) (auto simp: bit_simps linorder_not_less [symmetric])
  ultimately have "(t AND NOT (mask 12)) OR (8 * j) = t + 8 * j" by simp
  then show ?thesis using less e low by (simp add: translate_def leaf_def leaf_address_def)
qed

section \<open>The invariant\<close>

text \<open>The paths of the tree do not use the entry of the root that refers to itself.\<close>

definition tpath :: "u64 list \<Rightarrow> bool" where
  "tpath p \<longleftrightarrow> indices p \<and> length p \<le> 3 \<and> (p \<noteq> [] \<longrightarrow> hd p \<noteq> 511)"

abbreviation tab :: "'f paging \<Rightarrow> u64 list \<Rightarrow> u64 option" where
  "tab s p \<equiv> table_of (pt_mem s) (ttbr0 s) p"

text \<open>The root refers to itself; the tables form a tree and are not free; all mappings are of pages of 4 KiB. \<open>free\<close> are the frames that the
  allocator has.\<close>

definition tree_ok :: "(u64 \<Rightarrow> u64) \<Rightarrow> u64 \<Rightarrow> u64 set \<Rightarrow> bool" where
  "tree_ok m root free \<longleftrightarrow>
     aligned root \<and> self_mapped m root \<and>
     (\<forall>p q t. tpath p \<longrightarrow> tpath q \<longrightarrow> table_of m root p = Some t \<longrightarrow> table_of m root q = Some t \<longrightarrow> p = q) \<and>
     (\<forall>p t. tpath p \<longrightarrow> table_of m root p = Some t \<longrightarrow> t \<notin> free) \<and>
     (\<forall>p t i. tpath p \<longrightarrow> i < 512 \<longrightarrow> table_of m root p = Some t \<longrightarrow> bit (m (t + 8 * i)) 0 \<longrightarrow> bit (m (t + 8 * i)) 1)"

definition pt_ok :: "('f \<Rightarrow> u64 set) \<Rightarrow> 'f paging \<Rightarrow> bool" where
  "pt_ok free s \<longleftrightarrow> tree_ok (pt_mem s) (ttbr0 s) (free (frames s))"

text \<open>What is documented of the allocator: an allocation is a range of free frames, aligned as asked for, which is not free afterwards, and
  a single frame is found as long as there is one.\<close>

definition frames_of :: "u64 \<Rightarrow> nat \<Rightarrow> u64 set" where
  "frames_of p sz = (\<lambda>k. p + 4096 * of_nat k) ` {..<sz div 4096}"

definition frame_source :: "'f alloc \<Rightarrow> ('f \<Rightarrow> u64 set) \<Rightarrow> bool" where
  "frame_source alloc free \<longleftrightarrow>
     (\<forall>f p. p \<in> free f \<longrightarrow> aligned p \<and> unat p < 2 ^ 48) \<and>
     (\<forall>f sz al p f'. alloc f sz al = Some (p, f') \<longrightarrow>
        frames_of p sz \<subseteq> free f \<and> free f' = free f - frames_of p sz \<and> unat p + sz \<le> 2 ^ 48 \<and> unat p mod al = 0) \<and>
     (\<forall>f. free f \<noteq> {} \<longrightarrow> alloc f 4096 4096 \<noteq> None)"

text \<open>At most \<open>n\<close> frames have been taken between two states.\<close>

definition uses_frames :: "('f \<Rightarrow> u64 set) \<Rightarrow> 'f paging \<Rightarrow> 'f paging \<Rightarrow> nat \<Rightarrow> bool" where
  "uses_frames free s s' n \<longleftrightarrow> free (frames s') \<subseteq> free (frames s) \<and> card (free (frames s)) \<le> card (free (frames s')) + n"

lemma uses_frames_same: "frames s' = frames s \<Longrightarrow> uses_frames free s s' n"
  by (simp add: uses_frames_def)

lemma uses_frames_trans: "uses_frames free s s1 a \<Longrightarrow> uses_frames free s1 s2 b \<Longrightarrow> a + b \<le> n \<Longrightarrow> uses_frames free s s2 n"
  by (auto simp: uses_frames_def)

lemma frames_of_one [simp]: "frames_of p 4096 = {p}"
  by (auto simp: frames_of_def)

lemma alloc_frame:
  assumes "frame_source alloc free" and "free f \<noteq> {}"
  obtains p f' where "alloc f 4096 4096 = Some (p, f')" "p \<in> free f" "free f' = free f - {p}" "aligned p" "unat p < 2 ^ 48"
proof -
  from assms obtain p f' where a: "alloc f 4096 4096 = Some (p, f')" by (cases "alloc f 4096 4096") (auto simp: frame_source_def)
  then have "frames_of p 4096 \<subseteq> free f" "free f' = free f - frames_of p 4096" using assms(1) unfolding frame_source_def by blast+
  moreover from this have "aligned p \<and> unat p < 2 ^ 48" using assms(1) unfolding frame_source_def by auto
  ultimately show ?thesis using a that by simp
qed

lemma tpath_prefix: "tpath (p @ q) \<Longrightarrow> tpath p"
  by (cases p) (auto simp: tpath_def)

lemma tpath_take: "tpath p \<Longrightarrow> tpath (take k p)"
  using tpath_prefix [of "take k p" "drop k p"] by simp

text \<open>The tables at the paths \<open>P\<close> that do not exist yet, and a step that adds exactly those, with at most one frame for each.\<close>

definition missing :: "'f paging \<Rightarrow> u64 list set \<Rightarrow> u64 list set" where
  "missing s P = {q \<in> P. tab s q = None}"

definition adds :: "('f \<Rightarrow> u64 set) \<Rightarrow> 'f paging \<Rightarrow> u64 list set \<Rightarrow> 'f paging \<Rightarrow> bool" where
  "adds free s P s' \<longleftrightarrow> uses_frames free s s' (card (missing s P)) \<and> (missing s P = {} \<longrightarrow> frames s' = frames s) \<and>
     (\<forall>q. tpath q \<longrightarrow> (tab s' q \<noteq> None \<longleftrightarrow> tab s q \<noteq> None \<or> q \<in> P)) \<and>
     (\<forall>q t. tpath q \<longrightarrow> tab s' q = Some t \<longrightarrow> tab s q = Some t \<or> t \<in> free (frames s))"

definition tpaths :: "u64 list set \<Rightarrow> bool" where
  "tpaths P \<longleftrightarrow> finite P \<and> (\<forall>q \<in> P. tpath q)"

lemma tpaths_Un: "tpaths (P \<union> Q) \<longleftrightarrow> tpaths P \<and> tpaths Q"
  by (auto simp: tpaths_def)

lemma missing_frames [simp]: "missing (s\<lparr>frames := fs\<rparr>) P = missing s P"
  by (simp add: missing_def)

lemma finite_missing: "tpaths P \<Longrightarrow> finite (missing s P)"
  by (simp add: missing_def tpaths_def)

lemma missing_mono: "P \<subseteq> Q \<Longrightarrow> tpaths Q \<Longrightarrow> card (missing s P) \<le> card (missing s Q)"
  using card_mono [OF finite_missing, of Q "missing s P"] by (auto simp: missing_def)

lemma missing_le: "tpaths P \<Longrightarrow> card (missing s P) \<le> card P"
  using card_mono [of P "missing s P"] by (auto simp: missing_def tpaths_def)

lemma card_missing_Un:
  assumes "adds free s P s1" and "tpaths (P \<union> Q)"
  shows "card (missing s (P \<union> Q)) = card (missing s P) + card (missing s1 Q)"
proof -
  have "\<forall>q. tpath q \<longrightarrow> (tab s1 q \<noteq> None \<longleftrightarrow> tab s q \<noteq> None \<or> q \<in> P)" using assms(1) by (simp add: adds_def)
  then have "tab s1 q = None \<longleftrightarrow> tab s q = None \<and> q \<notin> P" if "q \<in> Q" for q
    using assms(2) that unfolding tpaths_def by blast
  then have "missing s (P \<union> Q) = missing s P \<union> missing s1 Q" "missing s P \<inter> missing s1 Q = {}" unfolding missing_def by blast+
  then show ?thesis using assms(2) by (simp add: card_Un_disjoint finite_missing tpaths_Un)
qed

lemma adds_trans:
  assumes "adds free s P s1" and "adds free s1 Q s2" and "tpaths (P \<union> Q)"
  shows "adds free s (P \<union> Q) s2"
proof -
  have "tpaths P" "tpaths Q" using assms(3) by (simp_all add: tpaths_Un)
  then have "missing s P = {} \<and> missing s1 Q = {}" if "missing s (P \<union> Q) = {}"
    using that card_missing_Un [OF assms(1,3)] by (simp add: finite_missing)
  moreover have "tab s q = Some t \<or> t \<in> free (frames s)" if "tpath q" "tab s2 q = Some t" for q t
    using assms(1,2) that unfolding adds_def uses_frames_def by blast
  ultimately show ?thesis
    using assms uses_frames_trans [of free s s1 "card (missing s P)" s2 "card (missing s1 Q)"] card_missing_Un [OF assms(1,3)]
    by (simp add: adds_def)
qed

lemma adds_same: "frames s' = frames s \<Longrightarrow> (\<And>q. tpath q \<Longrightarrow> tab s' q = tab s q) \<Longrightarrow> adds free s {} s'"
  by (simp add: adds_def uses_frames_same)

lemma adds_present:
  assumes "adds free s P s'" and "q \<in> P" and "tpath q"
  shows "tab s' q \<noteq> None"
  using assms by (simp add: adds_def)

text \<open>A change of one entry, and of frames that are free, is seen only below this entry.\<close>

lemma tree_entry_inj:
  assumes "tree_ok m root free" and "tpath p" "tpath q" and "table_of m root p = Some t" "table_of m root q = Some t'"
    and "i < 512" "j < 512" and "t + 8 * i = t' + 8 * j"
  shows "p = q \<and> i = j"
proof -
  have "aligned t" "aligned t'" using assms(1,4,5) table_of_aligned unfolding tree_ok_def by blast+
  then have "t = t'" "i = j" using entry_inj assms(6-8) by blast+
  with assms(1-5) show ?thesis unfolding tree_ok_def by blast
qed

lemma tree_frame_disjoint:
  assumes "tree_ok m root free" and "f \<in> free" "aligned f" and "tpath q" "table_of m root q = Some t" and "i < 512" "j < 512"
  shows "f + 8 * i \<noteq> t + 8 * j"
proof
  assume eq: "f + 8 * i = t + 8 * j"
  have "aligned t" using assms(1,5) table_of_aligned unfolding tree_ok_def by blast
  then have "f = t" using entry_inj [OF assms(3) _ assms(6,7) eq] by blast
  with assms(1,2,4,5) show False unfolding tree_ok_def by blast
qed

lemma table_of_unchanged:
  assumes ok: "tree_ok m root free" and p: "tpath p" "table_of m root p = Some t" and i: "i < 512"
    and same: "\<And>a. a \<noteq> t + 8 * i \<Longrightarrow> (\<And>f j. f \<in> free \<Longrightarrow> j < 512 \<Longrightarrow> aligned f \<Longrightarrow> a \<noteq> f + 8 * j) \<Longrightarrow> m' a = m a"
    and q: "indices q" "length q \<le> 4" "q \<noteq> [] \<Longrightarrow> hd q \<noteq> 511" "\<not> prefix (p @ [i]) q"
  shows "table_of m' root q = table_of m root q"
proof (rule table_of_agree)
  fix k t' assume k: "k < length q" and t': "table_of m root (take k q) = Some t'"
  have tk: "tpath (take k q)" using q k by (cases k) (auto simp: tpath_def hd_take)
  have qk: "q ! k < 512" using indices_nth [OF q(1) k] .
  have "t' + 8 * q ! k \<noteq> t + 8 * i"
  proof
    assume eq: "t' + 8 * q ! k = t + 8 * i"
    then have "take k q = p \<and> q ! k = i" using tree_entry_inj [OF ok tk p(1) t' p(2) qk i] by blast
    then have "prefix (p @ [i]) q" using k take_Suc_conv_app_nth [OF k] take_is_prefix [of "Suc k" q] by simp
    with q(4) show False ..
  qed
  then show "m' (t' + 8 * q ! k) = m (t' + 8 * q ! k)"
    using same tree_frame_disjoint [OF ok _ _ tk t' _ qk] by metis
qed

section \<open>Access to entries\<close>

definition reachable_table :: "u64 list \<Rightarrow> u64 \<Rightarrow> 'f paging \<Rightarrow> bool" where
  "reachable_table p t s \<longleftrightarrow> self_mapped (pt_mem s) (ttbr0 s) \<and> aligned (ttbr0 s) \<and> indices p \<and> length p \<le> 3 \<and> tab s p = Some t"

lemma get_entry_table: "reachable_table p t s \<Longrightarrow> j < 512 \<Longrightarrow> get_entry (table_va p) j s = Some (pt_mem s (t + 8 * j))"
  using translate_table [of s p t j] by (simp add: reachable_table_def get_entry_def vread_def)

lemma put_entry_table:
  "reachable_table p t s \<Longrightarrow> j < 512 \<Longrightarrow> put_entry (table_va p) j e s = Some (s\<lparr>pt_mem := (pt_mem s)(t + 8 * j := e)\<rparr>)"
  using translate_table [of s p t j] by (simp add: reachable_table_def put_entry_def vwrite_def)

definition zeroed :: "u64 \<Rightarrow> u64 set \<Rightarrow> (u64 \<Rightarrow> u64) \<Rightarrow> u64 \<Rightarrow> u64" where
  "zeroed f J m a = (if a \<in> (\<lambda>j. f + 8 * j) ` J then 0 else m a)"

text \<open>Clearing a table that no table on the way to it shares its frame with.\<close>

lemma fill_entries_table:
  assumes "reachable_table q f s" and "aligned f" and "f \<noteq> ttbr0 s" and "indices is"
    and "\<And>k t'. k < length q \<Longrightarrow> tab s (take k q) = Some t' \<Longrightarrow> t' \<noteq> f"
  shows "fill_entries (table_va q) is s = Some (s\<lparr>pt_mem := zeroed f (set is) (pt_mem s)\<rparr>)"
  using assms
proof (induction "is" arbitrary: s)
  case Nil
  have "zeroed f (set []) (pt_mem s) = pt_mem s" by (rule ext) (simp add: zeroed_def)
  then show ?case by simp
next
  case (Cons j js)
  let ?s = "s\<lparr>pt_mem := (pt_mem s)(f + 8 * j := 0)\<rparr>"
  have j: "j < 512" and js: "indices js" using Cons.prems(4) by auto
  have al: "aligned (ttbr0 s)" and q: "indices q" using Cons.prems(1) by (auto simp: reachable_table_def)
  have same': "table_of ((pt_mem s)(f + 8 * j := 0)) (ttbr0 s) (take n q) = tab s (take n q)" for n
  proof (rule table_of_agree)
    fix k t' assume k: "k < length (take n q)" and t': "tab s (take k (take n q)) = Some t'"
    then have "t' \<noteq> f" using Cons.prems(5) [of k t'] by (simp add: min_def split: if_splits)
    then have "t' + 8 * take n q ! k \<noteq> f + 8 * j"
      using entry_inj [OF table_of_aligned [OF t' al] Cons.prems(2) _ j] indices_nth [OF indices_take [OF q] k] by blast
    then show "((pt_mem s)(f + 8 * j := 0)) (t' + 8 * take n q ! k) = pt_mem s (t' + 8 * take n q ! k)" by simp
  qed
  then have same: "tab ?s (take n q) = tab s (take n q)" for n by simp
  have "ttbr0 s + 8 * 511 \<noteq> f + 8 * j" using entry_inj [OF al Cons.prems(2) _ j, of 511] Cons.prems(3) by auto
  then have "reachable_table q f ?s" using Cons.prems(1) same [of "length q"] by (simp add: reachable_table_def self_mapped_def)
  then have "fill_entries (table_va q) js ?s = Some (?s\<lparr>pt_mem := zeroed f (set js) (pt_mem ?s)\<rparr>)"
  proof (rule Cons.IH)
    fix k t' assume "k < length q" and "tab ?s (take k q) = Some t'"
    then show "t' \<noteq> f" using Cons.prems(5) [of k t'] unfolding same by blast
  qed (use Cons.prems(2,3) js in auto)
  moreover have "zeroed f (set js) (pt_mem ?s) = zeroed f (set (j # js)) (pt_mem s)" by (rule ext) (auto simp: zeroed_def)
  ultimately show ?case using put_entry_table [OF Cons.prems(1) j] by simp
qed

lemma pt_ok_reachable: "pt_ok free s \<Longrightarrow> tpath p \<Longrightarrow> tab s p = Some t \<Longrightarrow> reachable_table p t s"
  by (auto simp: pt_ok_def tree_ok_def reachable_table_def tpath_def)

lemma table_indices: "set table_indices = {j. j < 512}" "indices table_indices"
proof -
  have "set (map of_nat [0..<512]) = {j :: u64. j < 512}"
  proof (intro set_eqI iffI)
    fix j :: u64 assume "j \<in> {j. j < 512}"
    then have "unat j < 512" and "j = of_nat (unat j)" by (simp_all add: word_less_nat_alt)
    then show "j \<in> set (map of_nat [0..<512])" by (metis (no_types, lifting) atLeastLessThan_iff image_eqI le0 list.set_map set_upt)
  qed (auto simp: word_less_nat_alt unat_of_nat)
  then show "set table_indices = {j. j < 512}" by (simp only: table_indices_def)
  then show "indices table_indices" by (simp add: indices_def)
qed

text \<open>The entry of a table: its address and its two low bits.\<close>

lemma bit_low_48: "unat pa < 2 ^ 48 \<Longrightarrow> 48 \<le> n \<Longrightarrow> \<not> bit pa n" for pa :: u64
proof -
  assume "unat pa < 2 ^ 48" and n: "48 \<le> n"
  then have "unat (pa AND mask 48) = unat pa" by (simp add: and_mask_unat)
  then have "pa AND mask 48 = pa" unfolding word_unat_eq_iff .
  then have "bit pa n \<longleftrightarrow> bit (pa AND mask 48) n" by simp
  then show "\<not> bit pa n" using n by (simp add: bit_simps)
qed

lemma bit_pte_address: "bit (pte_address e) n \<longleftrightarrow> 12 \<le> n \<and> n < 48 \<and> bit e n"
proof -
  have "pte_address e = (e AND mask 48) AND NOT (mask 12)"
    by (simp add: pte_address_def not_high mask_eq_exp_minus_1 ac_simps)
  then show ?thesis by (auto simp: bit_simps dest: bit_imp_le_length)
qed

definition plain_flags :: "u64 \<Rightarrow> bool" where
  "plain_flags flags \<longleftrightarrow> pte_address flags = 0"

text \<open>The bits of an entry that carry its attributes and are taken from the flags.\<close>

definition attribute_bit :: "nat \<Rightarrow> bool" where
  "attribute_bit j \<longleftrightarrow> 2 \<le> j \<and> j < 8 \<or> 48 \<le> j"

lemma pte_set_entry:
  assumes "aligned pa" and "unat pa < 2 ^ 48" and "plain_flags flags"
  shows "\<exists>e. pte_set pa flags = Some e \<and> pte_address e = pa \<and> bit e 0 \<and> (bit e 1 \<longleftrightarrow> bit flags 1) \<and>
    (\<forall>j. attribute_bit j \<longrightarrow> (bit e j \<longleftrightarrow> bit flags j))"
proof -
  let ?e = "pa OR (flags OR PRESENT OR INNER_SHAREABLE OR ACCESSED)"
  have low: "\<not> bit pa n" if "n < 12 \<or> 48 \<le> n" for n using that aligned_bits [OF assms(1)] bit_low_48 [OF assms(2)] by blast
  have "\<not> bit flags n" if "12 \<le> n" "n < 48" for n
    using assms(3) that bit_pte_address [of flags n] by (simp add: plain_flags_def)
  moreover have c: "bit (PRESENT OR INNER_SHAREABLE OR ACCESSED :: u64) n \<longleftrightarrow> n \<in> {0, 8, 9, 10}" for n
  proof -
    have "PRESENT OR INNER_SHAREABLE OR ACCESSED = 2 ^ 0 OR 2 ^ 8 OR 2 ^ 9 OR (2 ^ 10 :: u64)" by (simp add: flag_defs)
    then show ?thesis by (simp only: bit_or_iff bit_exp_iff) auto
  qed
  ultimately have "bit (pte_address ?e) n \<longleftrightarrow> bit pa n" for n
    using low [of n] by (cases "12 \<le> n \<and> n < 48") (auto simp: bit_pte_address bit_or_iff not_le not_less)
  then have "pte_address ?e = pa" by (intro bit_eqI) 
  moreover have "pa AND (SIZE BasePageSize - 1) = 0" using assms(1) low_mask_unat(2) [of pa] by (simp add: aligned_def flip: unat_eq_zero)
  moreover have "bit ?e 0" "bit ?e 1 \<longleftrightarrow> bit flags 1"
    using c low by (auto simp: bit_or_iff)
  moreover have "bit ?e j \<longleftrightarrow> bit flags j" if "attribute_bit j" for j
    using c [of j] low [of j] that by (auto simp: bit_or_iff attribute_bit_def)
  ultimately show ?thesis by (simp add: pte_set_def)
qed

section \<open>Mapping a page\<close>

text \<open>The walk of an address below the part of the address space that the tables take.\<close>

definition upath :: "u64 list \<Rightarrow> bool" where
  "upath is \<longleftrightarrow> length is = 4 \<and> indices is \<and> hd is \<noteq> 511"

abbreviation lf :: "'f paging \<Rightarrow> u64 list \<Rightarrow> (u64 \<times> nat) option" where
  "lf s is \<equiv> walk (pt_mem s) (ttbr0 s) is"

lemma upath_take: "upath is \<Longrightarrow> k \<le> 3 \<Longrightarrow> tpath (take k is)"
  by (cases "is") (auto simp: upath_def tpath_def take_Cons' split: if_splits)

lemma walk_last: 
  assumes "tree_ok m root free" and "upath is"
  shows "walk m root is =
    (case table_of m root (take 3 is) of None \<Rightarrow> None
     | Some t \<Rightarrow> if bit (m (t + 8 * is ! 3)) 0 \<and> bit (m (t + 8 * is ! 3)) 1 then Some (m (t + 8 * is ! 3), 0) else None)"
proof -
  obtain a b c d where isv: "is = [a, b, c, d]" using assms(2) by (auto simp: upath_def eval_nat_numeral length_Suc_conv)
  have blocks: "bit (m (t + 8 * i)) 1" if "tpath p" "i < 512" "table_of m root p = Some t" "bit (m (t + 8 * i)) 0" for p t i
    using assms(1) that unfolding tree_ok_def by blast
  have p: "tpath []" "tpath [a]" "tpath [a, b]" "a < 512" "b < 512" "c < 512" using assms(2) by (auto simp: isv upath_def tpath_def)
  show ?thesis
    using blocks [OF p(1,4)] blocks [OF p(2,5)] blocks [OF p(3,6)]
    by (auto simp: isv Let_def flag_bits)
qed

text \<open>The change of the memory when a table is added: an entry \<open>i\<close> of the table \<open>t\<close> at \<open>p\<close> gets the frame \<open>f\<close>, which is cleared.\<close>

definition adds_table :: "(u64 \<Rightarrow> u64) \<Rightarrow> u64 \<Rightarrow> u64 set \<Rightarrow> u64 list \<Rightarrow> u64 \<Rightarrow> u64 \<Rightarrow> u64 \<Rightarrow> u64 \<Rightarrow> bool" where
  "adds_table m root fr p t i f e \<longleftrightarrow>
     tree_ok m root fr \<and> tpath (p @ [i]) \<and> table_of m root p = Some t \<and> \<not> bit (m (t + 8 * i)) 0 \<and>
     f \<in> fr \<and> aligned f \<and> bit e 0 \<and> bit e 1 \<and> pte_address e = f"

abbreviation with_table :: "(u64 \<Rightarrow> u64) \<Rightarrow> u64 \<Rightarrow> u64 \<Rightarrow> u64 \<Rightarrow> u64 \<Rightarrow> u64 \<Rightarrow> u64" where
  "with_table m t i f e \<equiv> zeroed f {j. j < 512} (m(t + 8 * i := e))"

lemma adds_tableD:
  assumes "adds_table m root fr p t i f e"
  shows "tree_ok m root fr" "tpath p" "i < 512" "length p \<le> 2" "table_of m root p = Some t" "f \<in> fr" "aligned f" "aligned root" "aligned t" "tpath (p @ [i])"
  using assms tpath_prefix [of p "[i]"] table_of_aligned [of m root p t] unfolding adds_table_def tree_ok_def by (auto simp: tpath_def)

lemma with_table_old:
  assumes A: "adds_table m root fr p t i f e" and q: "indices q" "length q \<le> 4" "q \<noteq> [] \<Longrightarrow> hd q \<noteq> 511" "\<not> prefix (p @ [i]) q"
  shows "table_of (with_table m t i f e) root q = table_of m root q"
  by (rule table_of_unchanged [OF adds_tableD(1,2,5,3) [OF A] _ q]) (use adds_tableD [OF A] in \<open>auto simp: zeroed_def\<close>)

lemma with_table_entry:
  assumes A: "adds_table m root fr p t i f e" and q: "tpath q" "table_of m root q = Some tq" "j < 512"
  shows "with_table m t i f e (tq + 8 * j) = (if q = p \<and> j = i then e else m (tq + 8 * j))"
proof -
  note D = adds_tableD [OF A]
  have "tq + 8 * j \<noteq> f + 8 * k" if "k < 512" for k using tree_frame_disjoint [OF D(1,6,7) q(1,2) that q(3)] by simp
  moreover have "tq + 8 * j = t + 8 * i \<longleftrightarrow> q = p \<and> j = i"
    using tree_entry_inj [OF D(1) q(1) D(2) q(2) D(5) q(3) D(3)] q(2) D(5) by auto
  ultimately show ?thesis by (auto simp: zeroed_def)
qed

lemma with_table_new:
  assumes A: "adds_table m root fr p t i f e"
  shows "table_of (with_table m t i f e) root (p @ [i]) = Some f"
    and "indices q \<Longrightarrow> q \<noteq> [] \<Longrightarrow> table_of (with_table m t i f e) root ((p @ [i]) @ q) = None"
proof -
  note D = adds_tableD [OF A]
  have "table_of (with_table m t i f e) root p = Some t"
    using with_table_old [OF A, of p] D(2,5) by (auto simp: tpath_def)
  then show new: "table_of (with_table m t i f e) root (p @ [i]) = Some f"
    using with_table_entry [OF A D(2,5,3)] A by (simp add: table_of_append adds_table_def)
  show "table_of (with_table m t i f e) root ((p @ [i]) @ q) = None" if "indices q" "q \<noteq> []"
    unfolding table_of_append [of _ _ "p @ [i]"] new using that by (cases q) (auto simp: zeroed_def Let_def)
qed

lemma with_table_cases:
  assumes A: "adds_table m root fr p t i f e" and q: "tpath q" "table_of (with_table m t i f e) root q = Some tq"
  shows "q = p @ [i] \<and> tq = f \<or> q \<noteq> p @ [i] \<and> table_of m root q = Some tq"
proof (cases "prefix (p @ [i]) q")
  case True
  then obtain r where r: "q = (p @ [i]) @ r" by (auto elim: prefixE)
  then have "r = []" using with_table_new(2) [OF A, of r] q by (auto simp: tpath_def)
  then show ?thesis using with_table_new(1) [OF A] q(2) r by simp
next
  case False
  then show ?thesis using with_table_old [OF A, of q] q by (auto simp: tpath_def)
qed

lemma with_table_ok:
  assumes A: "adds_table m root fr p t i f e"
  shows "tree_ok (with_table m t i f e) root (fr - {f})"
proof -
  let ?m = "with_table m t i f e"
  note D = adds_tableD [OF A] and C = with_table_cases [OF A]
  have old: "table_of m root q = Some tq \<Longrightarrow> tpath q \<Longrightarrow> tq \<notin> fr" for q tq using D(1) unfolding tree_ok_def by blast
  have inj: "p1 = q1" if "tpath p1" "tpath q1" "table_of ?m root p1 = Some x" "table_of ?m root q1 = Some x" for p1 q1 x
    using C [OF that(1,3)] C [OF that(2,4)] old that(1,2) D(1,6) unfolding tree_ok_def by blast
  have free: "x \<notin> fr - {f}" if "tpath q" "table_of ?m root q = Some x" for q x using C [OF that] old that(1) by blast
  have root: "table_of m root [] = Some root" "tpath []" by (simp_all add: tpath_def)
  have "\<not> ([] = p \<and> 511 = i)" using D(10) by (auto simp: tpath_def)
  then have self: "?m (root + 8 * 511) = m (root + 8 * 511)" using with_table_entry [OF A root(2,1), of 511] by auto
  have base: "bit (?m (x + 8 * j)) 1" if q: "tpath q" "j < 512" "table_of ?m root q = Some x" "bit (?m (x + 8 * j)) 0" for q x j
    using C [OF q(1,3)]
  proof
    assume "q = p @ [i] \<and> x = f"
    with q(2,4) show ?thesis by (auto simp: zeroed_def)
  next
    assume *: "q \<noteq> p @ [i] \<and> table_of m root q = Some x"
    then have "q = p \<and> j = i \<or> ?m (x + 8 * j) = m (x + 8 * j)" using with_table_entry [OF A q(1) _ q(2)] by auto
    then show ?thesis using q with_table_entry [OF A q(1) _ q(2)] * A D(1) unfolding adds_table_def tree_ok_def by auto
  qed
  show ?thesis unfolding tree_ok_def self_mapped_def self using D(1,8) inj free base unfolding tree_ok_def self_mapped_def by blast
qed

lemma with_table_walk:
  assumes A: "adds_table m root fr p t i f e" and up: "upath is"
  shows "walk (with_table m t i f e) root is = walk m root is"
proof -
  let ?m = "with_table m t i f e"
  note D = adds_tableD [OF A]
  have isv: "length is = 4" "indices is" "hd is \<noteq> 511" "tpath (take 3 is)" "is ! 3 < 512"
    using up upath_take [OF up] indices_nth [of "is" 3] by (auto simp: upath_def)
  show ?thesis
  proof (cases "prefix (p @ [i]) (take 3 is)")
    case True
    then obtain r where r: "take 3 is = (p @ [i]) @ r" by (auto elim: prefixE)
    then have "indices r" using isv(4) by (auto simp: tpath_def)
    have "table_of m root (take 3 is) = None" using A unfolding r table_of_append by (simp add: adds_table_def)
    moreover have "r = [] \<and> table_of ?m root (take 3 is) = Some f \<or> table_of ?m root (take 3 is) = None"
      using with_table_new [OF A] \<open>indices r\<close> unfolding r by (cases "r = []") auto
    moreover have "?m (f + 8 * is ! 3) = 0" using isv(5) by (auto simp: zeroed_def)
    ultimately show ?thesis unfolding walk_last [OF with_table_ok [OF A] up] walk_last [OF D(1) up] by auto
  next
    case False
    have "take 3 is \<noteq> p" using D(4) isv(1) by auto
    moreover have "table_of ?m root (take 3 is) = table_of m root (take 3 is)"
      using with_table_old [OF A, of "take 3 is"] isv(4) False by (auto simp: tpath_def)
    ultimately show ?thesis unfolding walk_last [OF with_table_ok [OF A] up] walk_last [OF D(1) up]
      using with_table_entry [OF A isv(4) _ isv(5)] by (auto split: option.splits)
  qed
qed

lemma table_flags: "plain_flags (NORMAL OR TABLE_OR_4KIB_PAGE)" "bit (NORMAL OR TABLE_OR_4KIB_PAGE) 1"
  unfolding plain_flags_def pte_address_def flag_defs by code_simp+

lemma new_subtable_effect:
  assumes fs: "frame_source alloc free" and ok: "pt_ok free s" and p: "tpath (p @ [i])" "tab s p = Some t"
    and absent: "\<not> bit (pt_mem s (t + 8 * i)) 0" and fr: "free (frames s) \<noteq> {}"
  shows "\<exists>s' f. new_subtable alloc (table_va p) i s = Some s' \<and> pt_ok free s' \<and> tab s' (p @ [i]) = Some f \<and> ttbr0 s' = ttbr0 s \<and>
    (\<forall>is. upath is \<longrightarrow> lf s' is = lf s is) \<and> adds free s {p @ [i]} s'"
proof -
  obtain f fs' where f: "alloc (frames s) 4096 4096 = Some (f, fs')" "f \<in> free (frames s)" "free fs' = free (frames s) - {f}" "aligned f" "unat f < 2 ^ 48"
    using alloc_frame [OF fs fr] by blast
  obtain e where e: "pte_set f (NORMAL OR TABLE_OR_4KIB_PAGE) = Some e" "pte_address e = f" "bit e 0" "bit e 1"
    using pte_set_entry [OF f(4,5) table_flags(1)] table_flags(2) by auto
  have A: "adds_table (pt_mem s) (ttbr0 s) (free (frames s)) p t i f e"
    using ok p absent f e by (simp add: adds_table_def pt_ok_def)
  note D = adds_tableD [OF A]
  let ?m1 = "(pt_mem s)(t + 8 * i := e)" and ?m2 = "with_table (pt_mem s) t i f e"
  let ?s1 = "s\<lparr>frames := fs', pt_mem := ?m1\<rparr>" and ?s2 = "s\<lparr>frames := fs', pt_mem := ?m2\<rparr>"
  have put: "put_entry (table_va p) i e (s\<lparr>frames := fs'\<rparr>) = Some ?s1"
    using put_entry_table [of p t "s\<lparr>frames := fs'\<rparr>" i e] pt_ok_reachable [OF ok D(2) p(2)] D(3) by (simp add: reachable_table_def)
  have same: "table_of ?m1 (ttbr0 s) (take k p) = tab s (take k p)" for k
    by (rule table_of_unchanged [OF D(1,2) p(2) D(3)]) (use D(2) tpath_take [OF D(2), of k] in \<open>auto simp: tpath_def dest!: prefix_length_le\<close>)
  have "\<not> ([] = p \<and> 511 = i)" using D(10) by (auto simp: tpath_def)
  moreover have "tpath []" "table_of (pt_mem s) (ttbr0 s) [] = Some (ttbr0 s)" by (simp_all add: tpath_def)
  ultimately have "ttbr0 s + 8 * 511 \<noteq> t + 8 * i" using tree_entry_inj [OF D(1) _ D(2) _ p(2) _ D(3), of "[]" "ttbr0 s" 511] by auto
  then have self: "self_mapped ?m1 (ttbr0 s)" using D(1) by (simp add: tree_ok_def self_mapped_def)
  have "tab ?s1 (p @ [i]) = Some f" using same [of "length p"] p(2) e by (simp add: table_of_append)
  then have reach: "reachable_table (p @ [i]) f ?s1" using self D(8,10) by (simp add: reachable_table_def tpath_def)
  have "t' \<noteq> f" if "k < length (p @ [i])" "tab ?s1 (take k (p @ [i])) = Some t'" for k t'
    using that same [of k] tpath_take [OF D(2), of k] D(1,6) unfolding tree_ok_def by (auto simp: take_append)
  moreover have "f \<noteq> ttbr0 s" using D(1,6) \<open>tpath []\<close> unfolding tree_ok_def by (metis table_of.simps(1))
  ultimately have "fill_entries (table_va (p @ [i])) table_indices ?s1 = Some (?s1\<lparr>pt_mem := ?m2\<rparr>)"
    using fill_entries_table [OF reach f(4)] table_indices by auto
  then have "new_subtable alloc (table_va p) i s = Some ?s2" using f(1) e(1) put by (simp add: new_subtable_def)
  moreover have "pt_ok free ?s2" using with_table_ok [OF A] f(3) by (simp add: pt_ok_def)
  moreover have "tab ?s2 (p @ [i]) = Some f" using with_table_new(1) [OF A] by simp
  moreover have "\<forall>is. upath is \<longrightarrow> lf ?s2 is = lf s is" using with_table_walk [OF A] by simp
  moreover have "adds free s {p @ [i]} ?s2"
  proof -
    have "missing s {p @ [i]} = {p @ [i]}" using p(2) absent by (auto simp: missing_def table_of_append)
    moreover have "tab ?s2 q \<noteq> None \<longleftrightarrow> tab s q \<noteq> None \<or> q = p @ [i]" if "tpath q" for q
      using with_table_old [OF A, of q] with_table_new(1) [OF A] with_table_cases [OF A that] that p absent
      by (cases "prefix (p @ [i]) q") (auto simp: tpath_def table_of_append elim!: prefixE)
    moreover have "tab s q = Some x \<or> x \<in> free (frames s)" if "tpath q" "tab ?s2 q = Some x" for q x
      using with_table_cases [OF A that(1)] that(2) f(2) by auto
    ultimately show ?thesis using card_Diff_singleton [OF f(2)] f(3) by (simp add: adds_def uses_frames_def)
  qed
  ultimately show ?thesis by (intro exI [of _ ?s2] exI [of _ f]) simp
qed

text \<open>The last level: the entry of the page.\<close>

definition page_entry :: "u64 \<Rightarrow> u64 \<Rightarrow> (u64 \<times> nat) option" where
  "page_entry pa flags = (if flags = 0 then None else map_option (\<lambda>e. (e, 0)) (pte_set pa (TABLE_OR_4KIB_PAGE OR flags)))"

lemma put_leaf:
  assumes ok: "pt_ok free s" and up: "upath is" and t: "tab s (take 3 is) = Some t"
    and e: "bit e 0 \<Longrightarrow> bit e 1" and s': "s' = s\<lparr>pt_mem := (pt_mem s)(t + 8 * is ! 3 := e)\<rparr>"
  shows "pt_ok free s'" and "tpath q \<Longrightarrow> tab s' q = tab s q"
    and "upath js \<Longrightarrow> lf s' js = (if js = is then (if bit e 0 \<and> bit e 1 then Some (e, 0) else None) else lf s js)"
proof -
  let ?m = "(pt_mem s)(t + 8 * is ! 3 := e)" and ?r = "ttbr0 s"
  have tree: "tree_ok (pt_mem s) ?r (free (frames s))" using ok by (simp add: pt_ok_def)
  have p: "tpath (take 3 is)" and i: "is ! 3 < 512" and len: "length (take 3 is) = 3"
    using upath_take [OF up, of 3] indices_nth [of "is" 3] up by (auto simp: upath_def)
  have same: "table_of ?m ?r q = table_of (pt_mem s) ?r q" if "tpath q" for q
    by (rule table_of_unchanged [OF tree p t i]) (use that len in \<open>auto simp: tpath_def dest!: prefix_length_le\<close>)
  have entry: "?m (tq + 8 * j) = (if q = take 3 is \<and> j = is ! 3 then e else pt_mem s (tq + 8 * j))"
    if "tpath q" "table_of (pt_mem s) ?r q = Some tq" "j < 512" for q tq j
    using tree_entry_inj [OF tree that(1) p that(2) t that(3) i] that(2) t by auto
  have "tpath []" "take 3 is \<noteq> []" using len by (auto simp: tpath_def)
  then have "?m (?r + 8 * 511) = pt_mem s (?r + 8 * 511)" using entry [of "[]" ?r 511] by auto
  then have "self_mapped ?m ?r" using tree by (simp add: tree_ok_def self_mapped_def)
  moreover have "bit (?m (x + 8 * j)) 1" if "tpath q" "j < 512" "table_of (pt_mem s) ?r q = Some x" "bit (?m (x + 8 * j)) 0" for q x j
    using entry [OF that(1,3,2)] that tree e unfolding tree_ok_def by (auto split: if_splits)
  ultimately have tree': "tree_ok ?m ?r (free (frames s))"
    using tree same unfolding tree_ok_def by auto
  then show "pt_ok free s'" by (simp add: pt_ok_def s')
  show "tpath q \<Longrightarrow> tab s' q = tab s q" using same by (simp add: s')
  assume js: "upath js"
  have jp: "tpath (take 3 js)" and ji: "js ! 3 < 512" using upath_take [OF js, of 3] indices_nth [of js 3] js by (auto simp: upath_def)
  have "js = is \<longleftrightarrow> take 3 js = take 3 is \<and> js ! 3 = is ! 3"
    using js up by (auto simp: upath_def eval_nat_numeral length_Suc_conv)
  then show "lf s' js = (if js = is then (if bit e 0 \<and> bit e 1 then Some (e, 0) else None) else lf s js)"
    using walk_last [OF tree' js] walk_last [OF tree js] same [OF jp] entry [OF jp _ ji] t by (auto simp: s' split: option.splits)
qed

definition mappable :: "u64 \<Rightarrow> u64 \<Rightarrow> bool" where
  "mappable pa flags \<longleftrightarrow> flags = 0 \<or> aligned pa \<and> unat pa < 2 ^ 48 \<and> plain_flags flags"

lemma plain_flags_or: "plain_flags (a OR b) \<longleftrightarrow> plain_flags a \<and> plain_flags b"
  by (auto simp: plain_flags_def bit_eq_iff bit_pte_address bit_or_iff)

lemma plain_extra: "plain_flags TABLE_OR_4KIB_PAGE" "plain_flags CONTIGUOUS" "bit TABLE_OR_4KIB_PAGE 1"
  unfolding plain_flags_def pte_address_def flag_defs by code_simp+

lemma page_entry_set:
  assumes "mappable pa flags" and "flags \<noteq> 0"
  shows "\<exists>e. pte_set pa (TABLE_OR_4KIB_PAGE OR flags) = Some e \<and> pte_address e = pa \<and> bit e 0 \<and> bit e 1 \<and>
    (\<forall>j. attribute_bit j \<longrightarrow> (bit e j \<longleftrightarrow> bit flags j))"
proof -
  have "plain_flags (TABLE_OR_4KIB_PAGE OR flags)" using assms plain_extra(1) by (simp add: plain_flags_or mappable_def)
  moreover have "\<not> bit (TABLE_OR_4KIB_PAGE :: u64) j" if "attribute_bit j" for j
    using that bit_exp_iff [of 1 j, where ?'a = u64] by (auto simp: flag_defs attribute_bit_def)
  ultimately show ?thesis using pte_set_entry [of pa "TABLE_OR_4KIB_PAGE OR flags"] assms plain_extra(3) by (auto simp: mappable_def bit_or_iff)
qed

lemma va_indices_nth: "l \<le> 3 \<Longrightarrow> va_indices va ! l = table_index l va"
  by (auto simp: va_indices_def le_Suc_eq numeral_3_eq_3 numeral_2_eq_2)

lemma map_in_table_effect:
  assumes ok: "pt_ok free s" and up: "upath (va_indices page)" and t: "tab s (take 3 (va_indices page)) = Some t" and m: "mappable pa flags"
  shows "\<exists>s'. map_page_in_this_table BasePageSize 3 (table_va (take 3 (va_indices page))) page pa flags s = Some s' \<and> pt_ok free s' \<and>
    ttbr0 s' = ttbr0 s \<and> adds free s {} s' \<and>
    (\<forall>js. upath js \<longrightarrow> lf s' js = (if js = va_indices page then page_entry pa flags else lf s js))"
proof -
  let ?is = "va_indices page" and ?i = "table_index 3 page"
  have i: "?is ! 3 = ?i" by (simp add: va_indices_nth)
  have p: "tpath (take 3 ?is)" using upath_take [OF up, of 3] by simp
  let ?put = "\<lambda>e s. s\<lparr>pt_mem := (pt_mem s)(t + 8 * ?i := e)\<rparr>"
  have put: "put_entry (table_va (take 3 ?is)) ?i e x = Some (?put e x)" "get_entry (table_va (take 3 ?is)) ?i x = Some (pt_mem x (t + 8 * ?i))"
    if "pt_ok free x" "tab x (take 3 ?is) = Some t" for e x
    using put_entry_table [OF pt_ok_reachable [OF that(1) p that(2)]] get_entry_table [OF pt_ok_reachable [OF that(1) p that(2)]] by simp_all
  define s1 where "s1 = (if is_present (pt_mem s (t + 8 * ?i)) then ?put 0 s else s)"
  have s1: "pt_ok free s1" "ttbr0 s1 = ttbr0 s" "frames s1 = frames s" and tab1: "\<And>q. tpath q \<Longrightarrow> tab s1 q = tab s q"
    using put_leaf(1,2) [OF ok up t, of 0 "?put 0 s"] ok t i by (auto simp: s1_def)
  have t1: "tab s1 (take 3 ?is) = Some t" using tab1 [OF p] t by simp
  have "lf s ?is = None" if "\<not> is_present (pt_mem s (t + 8 * ?i))"
    using walk_last [OF _ up, of "pt_mem s" "ttbr0 s" "free (frames s)"] ok that t i by (simp add: pt_ok_def is_present_bit)
  then have lf1: "lf s1 js = (if js = ?is then None else lf s js)" if "upath js" for js
    using put_leaf(3) [OF ok up t, of 0 "?put 0 s" js] that i by (auto simp: s1_def)
  have first: "(if is_present (pt_mem s (t + 8 * ?i)) then put_entry (table_va (take 3 ?is)) ?i 0 s else Some s) = Some s1"
    using put(1) [OF ok t] by (simp add: s1_def)
  have run: "map_page_in_this_table BasePageSize 3 (table_va (take 3 ?is)) page pa flags s =
     (if flags = 0 then Some s1 else pte_set pa (TABLE_OR_4KIB_PAGE OR flags) \<bind> (\<lambda>e. Some (?put e s1)))"
    using put(2) [OF ok t] first put(1) [OF s1(1) t1] by (simp add: map_page_in_this_table_def Let_def)
  show ?thesis
  proof (cases "flags = 0")
    case True
    then show ?thesis using run s1 lf1 adds_same [OF s1(3) tab1] by (auto simp: page_entry_def)
  next
    case False
    then obtain e where e: "pte_set pa (TABLE_OR_4KIB_PAGE OR flags) = Some e" "bit e 0" "bit e 1" using page_entry_set [OF m] by blast
    have "?put e s1 = s1\<lparr>pt_mem := (pt_mem s1)(t + 8 * ?is ! 3 := e)\<rparr>" by (simp add: i)
    note L = put_leaf [OF s1(1) up t1 e(3) this]
    have "lf (?put e s1) js = (if js = ?is then page_entry pa flags else lf s js)" if "upath js" for js
      using L(3) [OF that] lf1 [OF that] e False by (simp add: page_entry_def)
    moreover have "adds free s {} (?put e s1)" using L(2) tab1 s1(3) by (intro adds_same) auto
    ultimately show ?thesis using run e(1) False L(1) s1(2) by auto
  qed
qed

text \<open>Mapping one page of 4 KiB changes the translation of this page only and adds the tables on the way to it.\<close>

definition page_paths :: "nat \<Rightarrow> u64 \<Rightarrow> u64 list set" where
  "page_paths l page = (\<lambda>k. take k (va_indices page)) ` {l<..3}"

lemma tpaths_page: "upath (va_indices page) \<Longrightarrow> tpaths (page_paths l page)"
  using upath_take by (auto simp: tpaths_def page_paths_def)

lemma page_paths_step: "l < 3 \<Longrightarrow> page_paths l page = {take (l + 1) (va_indices page)} \<union> page_paths (l + 1) page"
proof -
  assume "l < 3"
  then have "{l<..3} = insert (l + 1) {l + 1<..3}" by auto
  then show ?thesis unfolding page_paths_def by simp
qed

lemma map_page_effect:
  assumes "frame_source alloc free" "pt_ok free s" "upath (va_indices page)" "l \<le> 3" "tab s (take l (va_indices page)) \<noteq> None"
    and "card (missing s (page_paths l page)) \<le> card (free (frames s))" and "mappable pa flags"
  shows "\<exists>s'. map_page alloc BasePageSize l (table_va (take l (va_indices page))) page pa flags s = Some s' \<and> pt_ok free s' \<and>
    ttbr0 s' = ttbr0 s \<and> adds free s (page_paths l page) s' \<and>
    (\<forall>js. upath js \<longrightarrow> lf s' js = (if js = va_indices page then page_entry pa flags else lf s js))"
  using assms
proof (induction "3 - l" arbitrary: l s)
  case 0
  then have l: "l = 3" by simp
  then have "page_paths l page = {}" by (simp add: page_paths_def)
  then show ?case using map_in_table_effect [OF 0(3,4) _ 0(8)] 0(6) l by (subst map_page.simps) auto
next
  case (Suc n)
  let ?is = "va_indices page" and ?i = "table_index l page"
  have l: "l < 3" "l < length ?is" using Suc.hyps(2) by simp_all
  have i: "?is ! l = ?i" using l by (simp add: va_indices_nth)
  have snoc: "take (l + 1) ?is = take l ?is @ [?i]" using take_Suc_conv_app_nth [OF l(2)] i by simp
  have tp: "tpath (take l ?is @ [?i])" using upath_take [OF Suc.prems(3), of "l + 1"] l snoc by simp
  obtain t where t: "tab s (take l ?is) = Some t" using Suc.prems(5) by auto
  have get: "get_entry (table_va (take l ?is)) ?i s = Some (pt_mem s (t + 8 * ?i))"
    using get_entry_table [OF pt_ok_reachable [OF Suc.prems(2) tpath_prefix [OF tp] t]] by simp
  have "\<exists>s1. (if is_present (pt_mem s (t + 8 * ?i)) then Some s else new_subtable alloc (table_va (take l ?is)) ?i s) = Some s1 \<and> pt_ok free s1 \<and>
      tab s1 (take (l + 1) ?is) \<noteq> None \<and> ttbr0 s1 = ttbr0 s \<and> (\<forall>js. upath js \<longrightarrow> lf s1 js = lf s js) \<and>
      adds free s {take (l + 1) ?is} s1"
  proof (cases "is_present (pt_mem s (t + 8 * ?i))")
    case True
    then have "bit (pt_mem s (t + 8 * ?i)) 1"
      using Suc.prems(2) tpath_prefix [OF tp] t l unfolding pt_ok_def tree_ok_def is_present_bit by auto
    then have "tab s (take l ?is @ [?i]) \<noteq> None" using True t by (simp add: table_of_append is_present_bit)
    then show ?thesis using True Suc.prems(2) unfolding snoc by (auto simp: adds_def uses_frames_same)
  next
    case False
    then have "tab s (take (l + 1) ?is) = None" using t unfolding snoc by (simp add: table_of_append is_present_bit)
    then have "take (l + 1) ?is \<in> missing s (page_paths l page)" using page_paths_step [OF l(1), of page] by (auto simp: missing_def)
    then have "free (frames s) \<noteq> {}" using Suc.prems(6) finite_missing [OF tpaths_page [OF Suc.prems(3)], of s l] by (auto simp: card_eq_0_iff)
    from new_subtable_effect [OF Suc.prems(1,2) tp t _ this] False show ?thesis unfolding snoc by (auto simp: is_present_bit)
  qed
  then obtain s1 where s1: "(if is_present (pt_mem s (t + 8 * ?i)) then Some s else new_subtable alloc (table_va (take l ?is)) ?i s) = Some s1"
      "pt_ok free s1" "tab s1 (take (l + 1) ?is) \<noteq> None" "ttbr0 s1 = ttbr0 s" "\<forall>js. upath js \<longrightarrow> lf s1 js = lf s js"
      "adds free s {take (l + 1) ?is} s1" by blast
  have step: "map_page alloc BasePageSize l (table_va (take l ?is)) page pa flags s =
      map_page alloc BasePageSize (l + 1) (table_va (take (l + 1) ?is)) page pa flags s1"
    using get s1(1) l snoc by (subst map_page.simps) simp
  have tps: "tpaths ({take (l + 1) ?is} \<union> page_paths (l + 1) page)" using tpaths_page [OF Suc.prems(3), of l] page_paths_step [OF l(1), of page] by simp
  have "n = 3 - (l + 1)" "l + 1 \<le> 3" "card (missing s1 (page_paths (l + 1) page)) \<le> card (free (frames s1))"
    using Suc.hyps(2) l s1(6) Suc.prems(6) card_missing_Un [OF s1(6) tps] page_paths_step [OF l(1), of page] by (auto simp: adds_def uses_frames_def)
  from Suc.hyps(1) [OF this(1) Suc.prems(1) s1(2) Suc.prems(3) this(2) s1(3) this(3) Suc.prems(7)] obtain s' where
    "map_page alloc BasePageSize (l + 1) (table_va (take (l + 1) ?is)) page pa flags s1 = Some s'" "pt_ok free s'" "ttbr0 s' = ttbr0 s1"
    "adds free s1 (page_paths (l + 1) page) s'"
    "\<forall>js. upath js \<longrightarrow> lf s' js = (if js = ?is then page_entry pa flags else lf s1 js)" by blast
  with step s1(4,5) l show ?case using adds_trans [OF s1(6) _ tps] page_paths_step [OF l(1), of page] by auto
qed

section \<open>Ranges of pages\<close>

text \<open>The part of the address space below the tables.\<close>

abbreviation TABLES_START :: nat where
  "TABLES_START \<equiv> 511 * 2 ^ 39"

lemma va_indices_eq:
  assumes "unat x < 2 ^ 48" "unat y < 2 ^ 48"
  shows "va_indices x = va_indices y \<longleftrightarrow> unat x div 4096 = unat y div 4096"
proof
  define X where "X = unat x div 4096"
  define Y where "Y = unat y div 4096"
  have b: "X < 2 ^ 36" "Y < 2 ^ 36" using assms by (simp_all add: X_def Y_def less_mult_imp_div_less)
  have split: "Z = ((Z div 2 ^ 27 mod 512 * 512 + Z div 2 ^ 18 mod 512) * 512 + Z div 2 ^ 9 mod 512) * 512 + Z mod 512" if "Z < 2 ^ 36" for Z :: nat
  proof -
    have "Z div 2 ^ 27 mod 512 = Z div 2 ^ 27" using that by (simp add: less_mult_imp_div_less)
    moreover have "Z div 2 ^ 27 = Z div 512 div 512 div 512" "Z div 2 ^ 18 = Z div 512 div 512" by (simp_all add: div_mult2_eq [symmetric])
    ultimately show ?thesis by simp
  qed
  assume "va_indices x = va_indices y"
  then have "unat (table_index l x) = unat (table_index l y)" if "l \<le> 3" for l using that va_indices_nth by metis
  from this [of 0] this [of 1] this [of 2] this [of 3]
  have "X div 2 ^ 27 mod 512 = Y div 2 ^ 27 mod 512" "X div 2 ^ 18 mod 512 = Y div 2 ^ 18 mod 512" "X div 2 ^ 9 mod 512 = Y div 2 ^ 9 mod 512" "X mod 512 = Y mod 512"
    by (simp_all add: table_index_unat X_def Y_def div_mult2_eq [symmetric])
  then show "unat x div 4096 = unat y div 4096" using split [OF b(1)] split [OF b(2)] unfolding X_def Y_def by metis
next
  assume eq: "unat x div 4096 = unat y div 4096"
  have "table_index l x = table_index l y" for l
    unfolding word_unat_eq_iff table_index_unat power_add div_mult2_eq using eq by simp
  then show "va_indices x = va_indices y" by (simp add: va_indices_def)
qed

lemma upath_user: "unat x < TABLES_START \<Longrightarrow> upath (va_indices x)"
proof -
  assume x: "unat x < TABLES_START"
  then have "unat (table_index 0 x) < 511" by (simp add: table_index_unat less_mult_imp_div_less)
  then have "table_index 0 x \<noteq> 511" by auto
  then show ?thesis using va_indices_props by (simp add: upath_def) (simp add: va_indices_def)
qed

lemma leaf_user: "unat x < TABLES_START \<Longrightarrow> leaf s x = lf s (va_indices x)"
  by (simp add: leaf_def word_less_nat_alt)

primrec pages :: "u64 \<Rightarrow> nat \<Rightarrow> u64 list" where
  "pages va 0 = []"
| "pages va (Suc n) = va # pages (va + 4096) n"

lemma aligned_add: "aligned va \<Longrightarrow> unat va + 4096 * n < 2 ^ 64 \<Longrightarrow> aligned (va + 4096 * of_nat n) \<and> unat (va + 4096 * of_nat n) = unat va + 4096 * n"
proof -
  assume *: "aligned va" "unat va + 4096 * n < 2 ^ 64"
  then have "unat (4096 * of_nat n :: u64) = 4096 * n" by (simp add: unat_word_ariths unat_of_nat)
  with * show ?thesis by (simp add: unat_word_ariths aligned_def)
qed

lemma including_aligned: "aligned va \<Longrightarrow> unat va < 2 ^ 48 \<Longrightarrow> including_address BasePageSize va = Some va"
proof -
  assume *: "aligned va" "unat va < 2 ^ 48"
  have "va AND NOT (mask 12) = va" using aligned_bits [OF *(1)] by (intro bit_word_eqI) (auto simp: bit_simps linorder_not_less [symmetric])
  then show ?thesis using *(2) by (simp add: including_address_def is_valid_address_def word_less_nat_alt mask_eq_exp_minus_1)
qed

lemma page_iter_pages:
  assumes "aligned va" and "unat va + 4096 * Suc n \<le> 2 ^ 48"
  shows "page_iter BasePageSize va (va + 4096 * of_nat n) = pages va (Suc n)"
  using assms
proof (induction n arbitrary: va)
  case 0
  then show ?case
    by (subst page_iter.simps, subst page_iter.simps) (simp add: is_valid_address_def word_less_nat_alt unat_word_ariths)
next
  case (Suc n)
  have a: "aligned (va + 4096) \<and> unat (va + 4096) = unat va + 4096" using aligned_add [of va 1] Suc.prems by simp
  have e: "unat (va + 4096 * of_nat (Suc n)) = unat va + 4096 * Suc n" using aligned_add [of va "Suc n"] Suc.prems by simp
  have "va + 4096 * of_nat (Suc n) = (va + 4096) + 4096 * of_nat n" by (simp add: algebra_simps)
  then show ?case using Suc.IH [of "va + 4096"] Suc.prems a e
    by (subst page_iter.simps) (simp add: is_valid_address_def word_less_nat_alt add.assoc)
qed

lemma get_page_range_pages:
  assumes "aligned va" and "0 < n" and "unat va + 4096 * n \<le> 2 ^ 48"
  shows "get_page_range BasePageSize va n = Some (pages va n)"
proof -
  obtain k where n: "n = Suc k" using assms(2) by (cases n) auto
  have k: "aligned (va + 4096 * of_nat k)" "unat (va + 4096 * of_nat k) = unat va + 4096 * k" using aligned_add [OF assms(1), of k] assms(3) n by auto
  have e: "va + (of_nat n - 1) * SIZE BasePageSize = va + 4096 * of_nat k" by (simp add: n)
  have "va \<le> va + 4096 * of_nat k" using k(2) by (simp add: word_le_nat_alt)
  then show ?thesis unfolding get_page_range_def e
    using including_aligned [OF assms(1)] including_aligned [OF k(1)] k(2) assms(3) n page_iter_pages [OF assms(1), of k] by (simp del: pages.simps)
qed

text \<open>What an address is mapped to when a range of pages is mapped.\<close>

definition in_pages :: "u64 \<Rightarrow> u64 \<Rightarrow> nat \<Rightarrow> bool" where
  "in_pages x va n \<longleftrightarrow> unat va \<le> unat x \<and> unat x < unat va + 4096 * n"

definition page_no :: "u64 \<Rightarrow> u64 \<Rightarrow> nat" where
  "page_no x va = (unat x - unat va) div 4096"

text \<open>The paths of the tables that the pages of a range need.\<close>

definition table_paths :: "u64 \<Rightarrow> nat \<Rightarrow> u64 list set" where
  "table_paths va n = (\<Union>k<n. page_paths 0 (va + 4096 * of_nat k))"

lemma table_paths_append: "table_paths va (m + n) = table_paths va m \<union> table_paths (va + 4096 * of_nat m) n"
proof -
  have "{..<m + n} = {..<m} \<union> (\<lambda>k. m + k) ` {..<n}" by (auto simp: image_iff) (metis add_diff_inverse_nat lessThan_iff nat_add_left_cancel_less)
  then show ?thesis by (simp add: table_paths_def algebra_simps)
qed

lemma table_paths_Suc: "table_paths va (Suc n) = page_paths 0 va \<union> table_paths (va + 4096) n"
  using table_paths_append [of va 1 n] by (simp add: table_paths_def lessThan_Suc)

lemma table_paths_mono: "m \<le> n \<Longrightarrow> table_paths va m \<subseteq> table_paths va n"
  unfolding table_paths_def by (rule UN_mono) auto

lemma tpaths_range:
  assumes "aligned va" and "unat va + 4096 * n \<le> TABLES_START"
  shows "tpaths (table_paths va n)"
proof -
  have "tpaths (page_paths 0 (va + 4096 * of_nat k))" if "k < n" for k
    using aligned_add [OF assms(1), of k] assms(2) that by (intro tpaths_page upath_user) auto
  then show ?thesis by (auto simp: table_paths_def tpaths_def)
qed

lemma map_pages_effect:
  assumes "frame_source alloc free" and "pt_ok free s" and "aligned va" "unat va + 4096 * n \<le> TABLES_START"
    and "card (missing s (table_paths va n)) \<le> card (free (frames s))" and "flags = 0 \<or> aligned pa \<and> unat pa + 4096 * n \<le> 2 ^ 48 \<and> plain_flags flags"
  shows "\<exists>s'. map_pages alloc BasePageSize (pages va n) pa flags s = Some s' \<and> pt_ok free s' \<and>
    adds free s (table_paths va n) s' \<and>
    (\<forall>x. unat x < TABLES_START \<longrightarrow>
       leaf s' x = (if in_pages x va n then page_entry (pa + 4096 * of_nat (page_no x va)) flags else leaf s x))"
  using assms
proof (induction n arbitrary: va pa s)
  case 0
  then show ?case by (auto simp: in_pages_def table_paths_def intro: adds_same)
next
  case (Suc n)
  have m: "mappable pa flags" using Suc.prems(6) by (auto simp: mappable_def)
  have va: "unat va < TABLES_START" using Suc.prems(4) by simp
  have root: "tab s (take 0 (va_indices va)) \<noteq> None" by simp
  have tps: "tpaths (page_paths 0 va \<union> table_paths (va + 4096) n)" using tpaths_range [OF Suc.prems(3,4)] by (simp add: table_paths_Suc)
  then have "card (missing s (page_paths 0 va)) \<le> card (free (frames s))"
    using missing_mono [OF _ tps, of "page_paths 0 va" s] Suc.prems(5) by (simp add: table_paths_Suc)
  from map_page_effect [OF Suc.prems(1,2) upath_user [OF va] _ root this m] obtain s1 where
    s1: "map_page alloc BasePageSize 0 L0TABLE_ADDRESS va pa flags s = Some s1" "pt_ok free s1"
      "adds free s (page_paths 0 va) s1"
      "\<forall>js. upath js \<longrightarrow> lf s1 js = (if js = va_indices va then page_entry pa flags else lf s js)" by auto
  have a: "aligned (va + 4096) \<and> unat (va + 4096) = unat va + 4096" using aligned_add [of va 1] Suc.prems(3,4) by simp
  have p: "flags = 0 \<or> aligned (pa + 4096) \<and> unat (pa + 4096) + 4096 * n \<le> 2 ^ 48 \<and> plain_flags flags"
    using aligned_add [of pa 1] Suc.prems(6) by auto
  have "unat (va + 4096) + 4096 * n \<le> TABLES_START" "card (missing s1 (table_paths (va + 4096) n)) \<le> card (free (frames s1))"
    using a Suc.prems(4,5) s1(3) card_missing_Un [OF s1(3) tps] by (auto simp: uses_frames_def adds_def table_paths_Suc)
  from Suc.IH [OF Suc.prems(1) s1(2) conjunct1 [OF a] this p] obtain s' where
    s': "map_pages alloc BasePageSize (pages (va + 4096) n) (pa + 4096) flags s1 = Some s'" "pt_ok free s'"
      "adds free s1 (table_paths (va + 4096) n) s'"
      "\<And>x. unat x < TABLES_START \<Longrightarrow>
       leaf s' x = (if in_pages x (va + 4096) n then page_entry (pa + 4096 + 4096 * of_nat (page_no x (va + 4096))) flags else leaf s1 x)"
    by blast
  have "leaf s' x = (if in_pages x va (Suc n) then page_entry (pa + 4096 * of_nat (page_no x va)) flags else leaf s x)"
    if x: "unat x < TABLES_START" for x
  proof -
    have eq: "va_indices x = va_indices va \<longleftrightarrow> unat va \<le> unat x \<and> unat x < unat va + 4096"
    proof -
      obtain k where "unat va = 4096 * k" using Suc.prems(3) by (auto simp: aligned_dvd)
      then show ?thesis using va_indices_eq [of x va] x va by (auto simp: div_nat_eqI)
    qed
    then have l1: "leaf s1 x = (if unat va \<le> unat x \<and> unat x < unat va + 4096 then page_entry pa flags else leaf s x)"
      using s1(4) upath_user [OF x] leaf_user [OF x, of s1] leaf_user [OF x, of s] by auto
    show ?thesis
    proof (cases "in_pages x (va + 4096) n")
      case True
      then have "unat x - unat va = (unat x - unat (va + 4096)) + 4096" using a by (simp add: in_pages_def)
      then have "page_no x va = Suc (page_no x (va + 4096))" by (simp add: page_no_def)
      then show ?thesis using True s'(4) [OF x] a by (simp add: in_pages_def algebra_simps)
    next
      case False
      then show ?thesis using s'(4) [OF x] a l1 by (auto simp: in_pages_def page_no_def)
    qed
  qed
  with s1(1) s' show ?case using adds_trans [OF s1(3) s'(3) tps] by (intro exI [of _ s']) (auto simp: table_paths_Suc)
qed

text \<open>\<open>mapped\<close>: the tables of \<open>s'\<close> map \<open>n\<close> pages from \<open>va\<close> on to the frames from \<open>pa\<close> on, page \<open>k\<close> with the flags \<open>f k\<close>, and everything else as
  those of \<open>s\<close> do; each missing table takes at most one frame.\<close>

definition mapped :: "('f \<Rightarrow> u64 set) \<Rightarrow> 'f paging \<Rightarrow> u64 \<Rightarrow> u64 \<Rightarrow> nat \<Rightarrow> (nat \<Rightarrow> u64) \<Rightarrow> 'f paging \<Rightarrow> bool" where
  "mapped free s va pa n f s' \<longleftrightarrow> pt_ok free s' \<and> adds free s (table_paths va n) s' \<and>
     (\<forall>x. unat x < TABLES_START \<longrightarrow>
        leaf s' x = (if in_pages x va n then page_entry (pa + 4096 * of_nat (page_no x va)) (f (page_no x va)) else leaf s x))"

lemma mapped_none: "pt_ok free s \<Longrightarrow> mapped free s va pa 0 f s"
  by (auto simp: mapped_def in_pages_def table_paths_def intro: adds_same)

lemma mapped_append:
  assumes 1: "mapped free s va pa n1 f1 s1" and 2: "mapped free s1 (va + 4096 * of_nat n1) (pa + 4096 * of_nat n1) n2 f2 s2"
    and va: "aligned va" "unat va + 4096 * (n1 + n2) \<le> TABLES_START"
  shows "mapped free s va pa (n1 + n2) (\<lambda>k. if k < n1 then f1 k else f2 (k - n1)) s2"
proof -
  let ?va = "va + 4096 * of_nat n1" and ?pa = "pa + 4096 * of_nat n1"
  have v: "unat ?va = unat va + 4096 * n1" using aligned_add [OF va(1), of n1] va(2) by simp
  have "leaf s2 x = (if in_pages x va (n1 + n2)
      then page_entry (pa + 4096 * of_nat (page_no x va)) (if page_no x va < n1 then f1 (page_no x va) else f2 (page_no x va - n1)) else leaf s x)"
    if x: "unat x < TABLES_START" for x
  proof (cases "in_pages x ?va n2")
    case True
    then have "unat x - unat va = (unat x - unat ?va) + 4096 * n1" using v by (simp add: in_pages_def)
    then have no: "page_no x va = page_no x ?va + n1" by (simp add: page_no_def)
    have "?pa + 4096 * of_nat (page_no x ?va) = pa + 4096 * of_nat (page_no x va)" by (simp add: no algebra_simps)
    moreover have "leaf s2 x = page_entry (?pa + 4096 * of_nat (page_no x ?va)) (f2 (page_no x ?va))" using 2 x True by (simp add: mapped_def)
    ultimately show ?thesis using True no v by (simp add: in_pages_def ac_simps)
  next
    case False
    have "in_pages x va n1 \<Longrightarrow> page_no x va < n1" by (auto simp: in_pages_def page_no_def less_mult_imp_div_less)
    moreover have "in_pages x va (n1 + n2) \<longleftrightarrow> in_pages x va n1" using False v by (auto simp: in_pages_def)
    moreover have "leaf s2 x = leaf s1 x" using 2 x False by (simp add: mapped_def)
    ultimately show ?thesis using 1 x by (simp add: mapped_def)
  qed
  moreover have "adds free s (table_paths va (n1 + n2)) s2"
    using 1 2 adds_trans [of free s "table_paths va n1" s1 "table_paths ?va n2" s2] tpaths_range [OF va] by (auto simp: mapped_def table_paths_append)
  ultimately show ?thesis using 2 by (auto simp: mapped_def)
qed

lemma mapped_cong: "mapped free s va pa n f s' \<Longrightarrow> (\<And>k. k < n \<Longrightarrow> f k = g k) \<Longrightarrow> mapped free s va pa n g s'"
  by (auto simp: mapped_def in_pages_def page_no_def less_mult_imp_div_less)

definition range_ok :: "('f \<Rightarrow> u64 set) \<Rightarrow> u64 \<Rightarrow> u64 \<Rightarrow> nat \<Rightarrow> u64 \<Rightarrow> 'f paging \<Rightarrow> bool" where
  "range_ok free va pa n flags s \<longleftrightarrow> aligned va \<and> unat va + 4096 * n \<le> TABLES_START \<and>
     card (missing s (table_paths va n)) \<le> card (free (frames s)) \<and>
     (flags = 0 \<or> aligned pa \<and> unat pa + 4096 * n \<le> 2 ^ 48 \<and> plain_flags flags)"

lemma map_range_effect:
  assumes "frame_source alloc free" "pt_ok free s" "range_ok free va pa n flags s" "0 < n"
  shows "\<exists>s'. get_page_range BasePageSize va n \<bind> (\<lambda>range. map_pages alloc BasePageSize range pa flags s) = Some s' \<and>
    mapped free s va pa n (\<lambda>_. flags) s'"
proof -
  have r: "aligned va" "unat va + 4096 * n \<le> TABLES_START" using assms(3) by (auto simp: range_ok_def)
  have g: "get_page_range BasePageSize va n = Some (pages va n)" using get_page_range_pages [OF r(1) assms(4)] r(2) by simp
  have "card (missing s (table_paths va n)) \<le> card (free (frames s))" "flags = 0 \<or> aligned pa \<and> unat pa + 4096 * n \<le> 2 ^ 48 \<and> plain_flags flags"
    using assms(3) by (auto simp: range_ok_def)
  from map_pages_effect [OF assms(1,2) r this] show ?thesis unfolding mapped_def g by (simp del: map_pages.simps)
qed

lemma range_ok_rest:
  assumes r: "range_ok free va pa (n1 + n2) flags s" and m: "mapped free s va pa n1 f s1"
  shows "range_ok free (va + 4096 * of_nat n1) (pa + 4096 * of_nat n1) n2 flags s1"
proof -
  have "aligned (va + 4096 * of_nat n1) \<and> unat (va + 4096 * of_nat n1) = unat va + 4096 * n1"
    using aligned_add [of va n1] r by (simp add: range_ok_def)
  moreover have "flags \<noteq> 0 \<Longrightarrow> aligned (pa + 4096 * of_nat n1) \<and> unat (pa + 4096 * of_nat n1) = unat pa + 4096 * n1"
    using aligned_add [of pa n1] r by (simp add: range_ok_def)
  moreover have "tpaths (table_paths va n1 \<union> table_paths (va + 4096 * of_nat n1) n2)"
    using tpaths_range [of va "n1 + n2"] r by (simp add: range_ok_def table_paths_append)
  then have "card (missing s (table_paths va (n1 + n2))) = card (missing s (table_paths va n1)) + card (missing s1 (table_paths (va + 4096 * of_nat n1) n2))"
    using card_missing_Un m unfolding table_paths_append mapped_def by blast
  ultimately show ?thesis using r m by (auto simp: range_ok_def mapped_def adds_def uses_frames_def)
qed

lemma range_ok_le: "range_ok free va pa n flags s \<Longrightarrow> k \<le> n \<Longrightarrow> range_ok free va pa k flags s"
  using missing_mono [OF table_paths_mono tpaths_range, of k n va s] by (auto simp: range_ok_def)

lemma range_ok_contiguous: "range_ok free va pa n flags s \<Longrightarrow> flags \<noteq> 0 \<Longrightarrow> range_ok free va pa n (flags OR CONTIGUOUS) s"
  using plain_extra(2) by (auto simp: range_ok_def plain_flags_or)

text \<open>The pages that \<open>paging::map\<close> marks as contiguous: whole groups, counted from the first page after as many pages as the address is behind a
  boundary of a group.\<close>

definition head_pages :: "u64 \<Rightarrow> nat" where
  "head_pages va = unat va mod 65536 div 4096"

definition group_flags :: "u64 \<Rightarrow> nat \<Rightarrow> u64 \<Rightarrow> nat \<Rightarrow> u64" where
  "group_flags va n flags k =
     (if 16 \<le> n \<and> head_pages va \<le> k \<and> k < head_pages va + (n - head_pages va) div 16 * 16 then flags OR CONTIGUOUS else flags)"

lemma paging_map_small:
  assumes "frame_source alloc free" "pt_ok free s" "range_ok free va pa n flags s" "n < 16"
  shows "\<exists>s'. (if 0 < n then paging_map alloc BasePageSize va pa n flags s else Some s) = Some s' \<and> mapped free s va pa n (\<lambda>_. flags) s'"
proof (cases n)
  case 0
  then show ?thesis using mapped_none assms(2) by auto
next
  case (Suc k)
  then have "paging_map alloc BasePageSize va pa n flags s =
      get_page_range BasePageSize va n \<bind> (\<lambda>range. map_pages alloc BasePageSize range pa flags s)"
    using assms(4) by (subst paging_map.simps) (simp add: GROUP_SIZE_def)
  then show ?thesis using map_range_effect [OF assms(1-3)] Suc by simp
qed

lemma paging_map_group:
  assumes "frame_source alloc free" "pt_ok free s" "range_ok free va pa n flags s" "flags \<noteq> 0"
  shows "\<exists>s'. (if 16 \<le> n
      then get_page_range BasePageSize va (n div 16 * 16) \<bind> (\<lambda>range. map_pages alloc BasePageSize range pa (flags OR CONTIGUOUS) s)
      else Some s) = Some s' \<and> mapped free s va pa (n div 16 * 16) (\<lambda>_. flags OR CONTIGUOUS) s'"
proof (cases "16 \<le> n")
  case True
  then have "0 < n div 16 * 16" by (simp add: div_greater_zero_iff)
  moreover have "range_ok free va pa (n div 16 * 16) (flags OR CONTIGUOUS) s"
    using range_ok_contiguous [OF range_ok_le [OF assms(3)] assms(4)] by (simp add: div_times_less_eq_dividend)
  ultimately show ?thesis using map_range_effect [OF assms(1,2)] True by simp
next
  case False
  then show ?thesis using mapped_none [OF assms(2)] by simp
qed

lemma paging_map_unfold:
  fixes alloc :: "'f alloc" and va pa flags :: u64 and s :: "'f paging"
  assumes va: "aligned va" and n: "16 \<le> n" and h: "h = head_pages va"
  defines "va1 \<equiv> va + 4096 * of_nat h" and "pa1 \<equiv> pa + 4096 * of_nat h" and "g \<equiv> (n - h) div 16 * 16"
  shows "paging_map alloc BasePageSize va pa n flags s = do {
     s1 \<leftarrow> (if 0 < h then paging_map alloc BasePageSize va pa h flags s else Some s);
     s2 \<leftarrow> (if 16 \<le> n - h
       then get_page_range BasePageSize va1 g \<bind> (\<lambda>range. map_pages alloc BasePageSize range pa1 (flags OR CONTIGUOUS) s1) else Some s1);
     if 0 < n - h - g then paging_map alloc BasePageSize (va1 + 4096 * of_nat g) (pa1 + 4096 * of_nat g) (n - h - g) flags s2 else Some s2
   }"
proof -
  obtain k where k: "unat va = 4096 * k" using va by (auto simp: aligned_dvd)
  have e: "4096 * k mod 65536 = 4096 * (k mod 16)" using mult_mod_right [of 4096 k 16] by simp
  have off: "unat va mod 65536 = 4096 * h" unfolding h head_pages_def k e by simp
  have g0: "\<not> 16 \<le> n - h \<Longrightarrow> g = 0" by (simp add: g_def)
  have "of_nat (4096 * h) = (4096 * of_nat h :: u64)" "unat (SIZE BasePageSize) = 4096" by simp_all
  then show ?thesis using n g0
    by (subst paging_map.simps) (simp add: GROUP_SIZE_def Let_def off va1_def pa1_def g_def mult.commute [of _ 4096] cong: if_cong Option.bind_cong)
qed

lemma paging_map_effect:
  assumes fs: "frame_source alloc free" and ok: "pt_ok free s" and r: "range_ok free va pa n flags s" and "0 < n" and fl: "flags \<noteq> 0"
  shows "\<exists>s'. paging_map alloc BasePageSize va pa n flags s = Some s' \<and> mapped free s va pa n (group_flags va n flags) s'"
proof (cases "n < 16")
  case True
  then have "group_flags va n flags = (\<lambda>_. flags)" by (simp add: group_flags_def fun_eq_iff)
  then show ?thesis using paging_map_small [OF fs ok r True] \<open>0 < n\<close> by simp
next
  case False
  define h where "h = head_pages va"
  define g where "g = (n - h) div 16 * 16"
  have va: "aligned va" "unat va + 4096 * n \<le> TABLES_START" using r by (auto simp: range_ok_def)
  have h: "h < 16" "h \<le> n" using False by (auto simp: h_def head_pages_def less_mult_imp_div_less)
  have n16: "16 \<le> n" using False by simp
  have g: "g \<le> n - h" by (simp add: g_def div_times_less_eq_dividend)
  from paging_map_small [OF fs ok range_ok_le [OF r h(2)] h(1)] obtain s1 where
    s1: "(if 0 < h then paging_map alloc BasePageSize va pa h flags s else Some s) = Some s1" "mapped free s va pa h (\<lambda>_. flags) s1" by blast
  have r1: "range_ok free (va + 4096 * of_nat h) (pa + 4096 * of_nat h) (n - h) flags s1"
    using range_ok_rest [OF _ s1(2), of "n - h" flags] r h by simp
  have ok1: "pt_ok free s1" using s1(2) by (simp add: mapped_def)
  from paging_map_group [OF fs ok1 r1 fl] obtain s2 where
    s2: "(if 16 \<le> n - h then get_page_range BasePageSize (va + 4096 * of_nat h) g \<bind>
           (\<lambda>range. map_pages alloc BasePageSize range (pa + 4096 * of_nat h) (flags OR CONTIGUOUS) s1) else Some s1) = Some s2"
      "mapped free s1 (va + 4096 * of_nat h) (pa + 4096 * of_nat h) g (\<lambda>_. flags OR CONTIGUOUS) s2" unfolding g_def by blast
  let ?va2 = "va + 4096 * of_nat h + 4096 * of_nat g" and ?pa2 = "pa + 4096 * of_nat h + 4096 * of_nat g"
  have r2: "range_ok free ?va2 ?pa2 (n - h - g) flags s2" 
    using range_ok_rest [OF _ s2(2), of "n - h - g" flags] r1 le_add_diff_inverse [OF g] by simp
  have ok2: "pt_ok free s2" and small: "n - h - g < 16" using s2(2) by (auto simp: mapped_def g_def minus_div_mult_eq_mod)
  from paging_map_small [OF fs ok2 r2 small] obtain s3 where
    s3: "(if 0 < n - h - g then paging_map alloc BasePageSize ?va2 ?pa2 (n - h - g) flags s2 else Some s2) = Some s3"
      "mapped free s2 ?va2 ?pa2 (n - h - g) (\<lambda>_. flags) s3" by blast
  have run: "paging_map alloc BasePageSize va pa n flags s = Some s3"
    unfolding paging_map_unfold [OF va(1) n16 h_def] g_def [symmetric] s1(1) Option.bind.bind_lunit s2(1) by (rule s3(1))
  have r1': "aligned (va + 4096 * of_nat h)" "unat (va + 4096 * of_nat h) + 4096 * (g + (n - h - g)) \<le> TABLES_START"
    using r1 g by (auto simp: range_ok_def)
  from mapped_append [OF s1(2) mapped_append [OF s2(2) s3(2) r1'] va(1)] va(2) h g
  have "mapped free s va pa n (\<lambda>k. if k < h then flags else if k - h < g then flags OR CONTIGUOUS else flags) s3" by simp
  then have "mapped free s va pa n (group_flags va n flags) s3"
    by (rule mapped_cong) (use False in \<open>auto simp: group_flags_def g_def simp flip: h_def\<close>)
  with run show ?thesis by blast
qed

section \<open>How many tables a range needs\<close>

text \<open>Each table of the last level serves 512 pages, each of the level above 512 of those, and so on; both ends of the range may share tables.\<close>

definition tables_for :: "nat \<Rightarrow> nat" where
  "tables_for n = n div 512 + n div 512 ^ 2 + n div 512 ^ 3 + 6"

lemma card_image_factor:
  assumes "finite A" and "\<And>j k. j \<in> A \<Longrightarrow> k \<in> A \<Longrightarrow> h j = h k \<Longrightarrow> f j = f k"
  shows "card (f ` A) \<le> card (h ` A)"
proof -
  have "f k = f (inv_into A h (h k))" if "k \<in> A" for k
    using assms(2) [OF that inv_into_into [of "h k" h A]] f_inv_into_f [of "h k" h A] that by simp
  then have "f ` A = (f \<circ> inv_into A h) ` h ` A" by (auto simp: image_iff)
  then show ?thesis using card_image_le [of "h ` A" "f \<circ> inv_into A h"] assms(1) by simp
qed

lemma card_quotients: "0 < D \<Longrightarrow> card ((\<lambda>k. (V + k) div D) ` {..<n}) \<le> n div D + 2" for V D n :: nat
proof -
  assume "0 < D"
  have "(V + k) div D \<in> {V div D..V div D + n div D + 1}" if "k < n" for k
  proof -
    have "k div D \<le> n div D" using that by (simp add: div_le_mono)
    moreover have "(V + k) div D \<le> V div D + k div D + 1"
    proof -
      have "V mod D + k mod D < 2 * D" using \<open>0 < D\<close> mod_less_divisor [of D V] mod_less_divisor [of D k] by linarith
      then have "(V mod D + k mod D) div D < 2" by (rule less_mult_imp_div_less)
      then show ?thesis using div_add1_eq [of V k D] by linarith
    qed
    ultimately show ?thesis by (simp add: div_le_mono)
  qed
  then have "(\<lambda>k. (V + k) div D) ` {..<n} \<subseteq> {V div D..V div D + n div D + 1}" by auto
  from card_mono [OF _ this] show ?thesis by simp
qed

lemma take_va_indices_eq:
  assumes "unat x div 2 ^ (48 - 9 * l) = unat y div 2 ^ (48 - 9 * l)" and "l \<le> 4"
  shows "take l (va_indices x) = take l (va_indices y)"
proof (rule nth_equalityI)
  show "length (take l (va_indices x)) = length (take l (va_indices y))" by simp
  fix j assume "j < length (take l (va_indices x))"
  then have j: "j < l" "j \<le> 3" using assms(2) by simp_all
  then have e: "12 + (3 - j) * 9 = (48 - 9 * l) + 9 * (l - 1 - j)" using assms(2) by simp
  have "table_index j x = table_index j y" unfolding word_unat_eq_iff table_index_unat e power_add div_mult2_eq assms(1) ..
  then show "take l (va_indices x) ! j = take l (va_indices y) ! j" using j by (simp add: va_indices_nth)
qed

lemma card_level_paths:
  assumes va: "aligned va" "unat va + 4096 * n \<le> TABLES_START" and l: "l \<le> 3" "D = 2 ^ (36 - 9 * l)"
  shows "card ((\<lambda>k. take l (va_indices (va + 4096 * of_nat k))) ` {..<n}) \<le> n div D + 2"
proof -
  obtain V where V: "unat va = 4096 * V" using va(1) by (auto simp: aligned_dvd)
  have e: "48 - 9 * l = 12 + (36 - 9 * l)" using l(1) by simp
  have pw: "2 ^ (48 - 9 * l) = 4096 * D" unfolding e power_add l(2) by simp
  have x: "unat (va + 4096 * of_nat k) div 2 ^ (48 - 9 * l) = (V + k) div D" if "k < n" for k
  proof -
    have "unat (va + 4096 * of_nat k) = 4096 * (V + k)" using aligned_add [OF va(1), of k] va(2) that V by simp
    then show ?thesis unfolding pw by (simp only: div_mult_mult1 zero_neq_numeral not_False_eq_True simp_thms)
  qed
  have "card ((\<lambda>k. take l (va_indices (va + 4096 * of_nat k))) ` {..<n}) \<le> card ((\<lambda>k. (V + k) div D) ` {..<n})"
  proof (rule card_image_factor)
    fix j k assume "j \<in> {..<n}" "k \<in> {..<n}" and eq: "(V + j) div D = (V + k) div D"
    then have "j < n" "k < n" by simp_all
    from x [OF this(1)] x [OF this(2)] eq
    have "unat (va + 4096 * of_nat j) div 2 ^ (48 - 9 * l) = unat (va + 4096 * of_nat k) div 2 ^ (48 - 9 * l)" by (simp only:)
    then show "take l (va_indices (va + 4096 * of_nat j)) = take l (va_indices (va + 4096 * of_nat k))" by (rule take_va_indices_eq) (use l(1) in simp)
  qed simp
  also have "\<dots> \<le> n div D + 2" by (rule card_quotients) (simp add: l(2))
  finally show ?thesis .
qed

lemma tables_sum: "a \<le> x + 2 \<Longrightarrow> b \<le> y + 2 \<Longrightarrow> c \<le> z + 2 \<Longrightarrow> d \<le> a + b + c \<Longrightarrow> d \<le> z + y + x + 6" for a b c d x y z :: nat
  by simp

lemma card_table_paths:
  assumes "aligned va" "unat va + 4096 * n \<le> TABLES_START"
  shows "card (table_paths va n) \<le> tables_for n"
proof -
  let ?P = "\<lambda>l. (\<lambda>k. take l (va_indices (va + 4096 * of_nat k))) ` {..<n}"
  have "{0<..3} = {1, 2, 3 :: nat}" by auto
  then have "page_paths 0 page = {take 1 (va_indices page), take 2 (va_indices page), take 3 (va_indices page)}" for page by (simp add: page_paths_def)
  then have eq: "table_paths va n = ?P 1 \<union> ?P 2 \<union> ?P 3" unfolding table_paths_def by blast
  have "card (?P 1) \<le> n div 512 ^ 3 + 2" by (rule card_level_paths [OF assms]) simp_all
  moreover have "card (?P 2) \<le> n div 512 ^ 2 + 2" by (rule card_level_paths [OF assms]) simp_all
  moreover have "card (?P 3) \<le> n div 512 + 2" by (rule card_level_paths [OF assms]) simp_all
  moreover have "card (table_paths va n) \<le> card (?P 1) + card (?P 2) + card (?P 3)"
    unfolding eq using card_Un_le [of "?P 1 \<union> ?P 2" "?P 3"] card_Un_le [of "?P 1" "?P 2"] by (rule order_trans [OF _ add_right_mono])
  ultimately show ?thesis unfolding tables_for_def by (rule tables_sum)
qed

lemma missing_bound:
  assumes "aligned va" "unat va + 4096 * n \<le> TABLES_START"
  shows "card (missing s (table_paths va n)) \<le> tables_for n"
  using missing_le [OF tpaths_range [OF assms], of s] card_table_paths [OF assms] by simp

end
