(* ===== verification/Page_Mapping.thy ===== *)
theory Page_Mapping
  imports Page_Tables
begin

text \<open>
  What mapping, unmapping and looking up pages (\<^verbatim>\<open>src/arch/aarch64/mm/paging.rs\<close>) means for the translation of addresses.
\<close>

unbundle bit_operations_syntax

section \<open>Translation\<close>

lemma leaf_address_page:
  assumes "aligned pa" and "pte_address e = pa"
  shows "leaf_address x (e, 0) = pa + (x AND mask 12)"
proof -
  have "\<not> bit pa n \<or> \<not> bit (x AND mask 12) n" for n using aligned_bits [OF assms(1), of n] by (auto simp: bit_simps)
  then have "pa + (x AND mask 12) = pa OR (x AND mask 12)" by (subst disjunctive_add) auto
  moreover have "pa AND NOT (mask 12) = pa"
    using aligned_bits [OF assms(1)] by (intro bit_word_eqI) (auto simp: bit_simps linorder_not_less [symmetric])
  ultimately show ?thesis by (simp add: leaf_address_def assms(2))
qed

lemma in_pages_offset:
  assumes va: "aligned va" and x: "in_pages x va n"
  shows "x - va = 4096 * of_nat (page_no x va) + (x AND mask 12)" and "page_no x va < n"
proof -
  obtain k where k: "unat va = 4096 * k" using va by (auto simp: aligned_dvd)
  have d: "unat (x - va) = unat x - unat va" using x by (simp add: in_pages_def unat_sub word_le_nat_alt)
  have "(unat x - 4096 * k) mod 4096 = unat x mod 4096"
    using x k by (metis in_pages_def le_add_diff_inverse mod_mult_self4)
  then have "unat x - unat va = 4096 * page_no x va + unat x mod 4096" unfolding page_no_def k by (metis mult_div_mod_eq)
  then have "unat (x - va) = 4096 * page_no x va + unat (x AND mask 12)" by (simp add: d and_mask_unat)
  then have "of_nat (unat (x - va)) = (of_nat (4096 * page_no x va + unat (x AND mask 12)) :: u64)" by simp
  then show "x - va = 4096 * of_nat (page_no x va) + (x AND mask 12)" by simp
  show "page_no x va < n" using x by (auto simp: in_pages_def page_no_def less_mult_imp_div_less)
qed

lemma mapped_entry:
  assumes m: "mapped free s va pa n f s'" and r: "aligned pa" "unat pa + 4096 * n \<le> 2 ^ 48" and f: "\<And>k. k < n \<Longrightarrow> f k \<noteq> 0 \<and> plain_flags (f k)"
    and x: "unat x < TABLES_START" "in_pages x va n" "aligned va"
  shows "\<exists>e. leaf s' x = Some (e, 0) \<and> pte_address e = pa + 4096 * of_nat (page_no x va) \<and> (\<forall>j. attribute_bit j \<longrightarrow> (bit e j \<longleftrightarrow> bit (f (page_no x va)) j)) \<and>
    leaf_address x (e, 0) = pa + (x - va)"
proof -
  let ?k = "page_no x va"
  have k: "?k < n" using in_pages_offset(2) [OF x(3,2)] .
  have p: "aligned (pa + 4096 * of_nat ?k) \<and> unat (pa + 4096 * of_nat ?k) = unat pa + 4096 * ?k"
    using aligned_add [OF r(1), of ?k] r(2) k by simp
  then have "mappable (pa + 4096 * of_nat ?k) (f ?k)" using f [OF k] r(2) k by (simp add: mappable_def)
  from page_entry_set [OF this] f [OF k] obtain e where e: "pte_set (pa + 4096 * of_nat ?k) (TABLE_OR_4KIB_PAGE OR f ?k) = Some e"
    "pte_address e = pa + 4096 * of_nat ?k" "\<forall>j. attribute_bit j \<longrightarrow> (bit e j \<longleftrightarrow> bit (f ?k) j)" by auto
  then have "leaf s' x = Some (e, 0)" using m x(1,2) f [OF k] by (simp add: mapped_def page_entry_def)
  moreover have "leaf_address x (e, 0) = pa + (x - va)"
    using leaf_address_page [OF conjunct1 [OF p] e(2), of x] in_pages_offset(1) [OF x(3,2)] by (simp add: algebra_simps)
  ultimately show ?thesis using e by blast
qed

lemma mapped_other: "mapped free s va pa n f s' \<Longrightarrow> unat x < TABLES_START \<Longrightarrow> \<not> in_pages x va n \<Longrightarrow> translate s' x = translate s x"
  by (simp add: mapped_def translate_def)

lemma group_flags_plain: "flags \<noteq> 0 \<Longrightarrow> plain_flags flags \<Longrightarrow> group_flags va n flags k \<noteq> 0 \<and> plain_flags (group_flags va n flags k)"
  using plain_extra(2) by (auto simp: group_flags_def plain_flags_or or_eq_0_iff)

lemma mapped_translate:
  assumes "mapped free s va pa n f s'" and "range_ok free va pa n flags s" "flags \<noteq> 0" and "\<And>k. k < n \<Longrightarrow> f k \<noteq> 0 \<and> plain_flags (f k)"
    and "unat x < TABLES_START"
  shows "translate s' x = (if in_pages x va n then Some (pa + (x - va)) else translate s x)"
proof (cases "in_pages x va n")
  case True
  have r: "aligned pa" "unat pa + 4096 * n \<le> 2 ^ 48" "aligned va" using assms(2,3) by (auto simp: range_ok_def)
  show ?thesis using mapped_entry [OF assms(1) r(1,2) assms(4,5) True r(3)] True by (auto simp: translate_def)
next
  case False
  then show ?thesis using mapped_other [OF assms(1,5)] by simp
qed

section \<open>Looking up a page\<close>

lemma get_page_table_entry_walk:
  assumes ok: "pt_ok free s" and up: "upath (va_indices page)" and "l \<le> 3" and "tab s (take l (va_indices page)) \<noteq> None"
  shows "get_page_table_entry BasePageSize l (table_va (take l (va_indices page))) page s = Some (map_option fst (lf s (va_indices page)))"
  using assms(3,4)
proof (induction "3 - l" arbitrary: l)
  case 0
  let ?is = "va_indices page"
  have l: "l = 3" using 0 by simp
  obtain t where t: "tab s (take 3 ?is) = Some t" using 0(3) l by auto
  have p: "tpath (take 3 ?is)" using upath_take [OF up, of 3] by simp
  have i: "?is ! 3 = table_index 3 page" by (simp add: va_indices_nth)
  have tree: "tree_ok (pt_mem s) (ttbr0 s) (free (frames s))" using ok by (simp add: pt_ok_def)
  then have "bit (pt_mem s (t + 8 * table_index 3 page)) 0 \<Longrightarrow> bit (pt_mem s (t + 8 * table_index 3 page)) 1"
    using p t unfolding tree_ok_def by auto
  then show ?case unfolding l using get_entry_table [OF pt_ok_reachable [OF ok p t], of "table_index 3 page"] walk_last [OF tree up] t i
    by (subst get_page_table_entry.simps) (auto simp: Let_def is_present_bit)
next
  case (Suc n)
  let ?is = "va_indices page" and ?i = "table_index l page"
  have l: "l < 3" "l < length ?is" using Suc.hyps(2) by simp_all
  have i: "?is ! l = ?i" using l by (simp add: va_indices_nth)
  have snoc: "take (l + 1) ?is = take l ?is @ [?i]" using take_Suc_conv_app_nth [OF l(2)] i by simp
  have tp: "tpath (take l ?is)" using upath_take [OF up, of l] l by simp
  obtain t where t: "tab s (take l ?is) = Some t" using Suc.prems(2) by auto
  have get: "get_entry (table_va (take l ?is)) ?i s = Some (pt_mem s (t + 8 * ?i))"
    using get_entry_table [OF pt_ok_reachable [OF ok tp t]] by simp
  have tree: "tree_ok (pt_mem s) (ttbr0 s) (free (frames s))" using ok by (simp add: pt_ok_def)
  show ?case
  proof (cases "is_present (pt_mem s (t + 8 * ?i))")
    case True
    then have "bit (pt_mem s (t + 8 * ?i)) 1" using tree tp t unfolding tree_ok_def is_present_bit by auto
    then have "tab s (take (l + 1) ?is) \<noteq> None" using True t unfolding snoc by (simp add: table_of_append is_present_bit)
    moreover have "n = 3 - (l + 1)" "l + 1 \<le> 3" using Suc.hyps(2) l by auto
    ultimately show ?thesis using Suc.hyps(1) [of "l + 1"] get True l snoc by (subst get_page_table_entry.simps) simp
  next
    case False
    have "tab s (take (l + 1) ?is) = None" using False t unfolding snoc by (simp add: table_of_append is_present_bit)
    moreover have "take 3 ?is = take (l + 1) ?is @ drop (l + 1) (take 3 ?is)" using l by (metis add_leD1 append_take_drop_id less_eq_Suc_le min.absorb1 Suc_eq_plus1 take_take)
    ultimately have "tab s (take 3 ?is) = None" by (metis bind.bind_lzero table_of_append)
    then have "lf s ?is = None" using walk_last [OF tree up] by simp
    then show ?thesis using get False l by (subst get_page_table_entry.simps) simp
  qed
qed

section \<open>The heap\<close>

abbreviation heap_flags :: u64 where
  "heap_flags \<equiv> execute_disable (writable (normal 0))"

lemma heap_flags_plain: "plain_flags heap_flags" "heap_flags \<noteq> 0"
  unfolding plain_flags_def pte_address_def execute_disable_def writable_def normal_def flags_remove_def flag_defs by code_simp+

lemma alloc_down_Some:
  assumes "frame_source alloc free" and "free fs \<noteq> {}" and "0 < n"
  shows "\<exists>m pa fs'. alloc_down alloc BasePageSize n fs = Some (m, pa, fs') \<and> 0 < m \<and> m \<le> n \<and> alloc fs (m * 4096) 4096 = Some (pa, fs')"
  using assms(3)
proof (induction n)
  case (Suc n)
  show ?case
  proof (cases "alloc fs (Suc n * 4096) 4096")
    case None
    then have "0 < n" using alloc_frame [OF assms(1,2)] by (cases n) auto
    with Suc.IH None show ?thesis by (auto intro: le_SucI simp del: mult_Suc)
  next
    case (Some r)
    then show ?thesis by (cases r) (auto simp del: mult_Suc)
  qed
qed simp

lemma tree_ok_subset: "tree_ok m root fr \<Longrightarrow> fr' \<subseteq> fr \<Longrightarrow> tree_ok m root fr'"
  unfolding tree_ok_def by blast

lemma alloc_pages:
  assumes "frame_source alloc free" and "alloc (frames s) (m * 4096) 4096 = Some (pa, fs)" and "pt_ok free s"
  shows "aligned pa" "unat pa + 4096 * m \<le> 2 ^ 48" "pt_ok free (s\<lparr>frames := fs\<rparr>)" "uses_frames free s (s\<lparr>frames := fs\<rparr>) m"
    and "k < m \<Longrightarrow> pa + 4096 * of_nat k \<in> free (frames s) - free fs"
proof -
  from assms(1,2) have a: "frames_of pa (m * 4096) \<subseteq> free (frames s)" "free fs = free (frames s) - frames_of pa (m * 4096)"
    "unat pa + m * 4096 \<le> 2 ^ 48" "unat pa mod 4096 = 0" unfolding frame_source_def by blast+
  then show "aligned pa" "unat pa + 4096 * m \<le> 2 ^ 48" by (simp_all add: aligned_def mult.commute)
  show "pt_ok free (s\<lparr>frames := fs\<rparr>)" using assms(3) a(2) tree_ok_subset by (fastforce simp: pt_ok_def)
  have "card (frames_of pa (m * 4096)) \<le> m" using card_image_le [of "{..<m}" "\<lambda>k. pa + 4096 * of_nat k"] by (simp add: frames_of_def)
  then have "card (free (frames s)) \<le> card (free fs) + m" unfolding a(2) using card_Diff_subset [OF _ a(1)] card_mono [OF _ a(1)] by simp
  then show "uses_frames free s (s\<lparr>frames := fs\<rparr>) m" using a(2) by (auto simp: uses_frames_def)
  show "pa + 4096 * of_nat k \<in> free (frames s) - free fs" if "k < m"
    using a(1,2) that by (auto simp: frames_of_def)
qed

text \<open>\<open>heap_mapped\<close>: each address of the range is translated into a frame that was free, no two of them to the same address, and all other
  addresses are translated as before.\<close>

definition heap_mapped :: "('f \<Rightarrow> u64 set) \<Rightarrow> 'f paging \<Rightarrow> u64 \<Rightarrow> nat \<Rightarrow> 'f paging \<Rightarrow> bool" where
  "heap_mapped free s va n s' \<longleftrightarrow>
     (\<forall>x. unat x < TABLES_START \<longrightarrow> in_pages x va n \<longrightarrow>
        (\<exists>p \<in> free (frames s) - free (frames s'). translate s' x = Some (p + (x AND mask 12)))) \<and>
     (\<forall>x y. unat x < TABLES_START \<longrightarrow> unat y < TABLES_START \<longrightarrow> in_pages x va n \<longrightarrow> in_pages y va n \<longrightarrow>
        translate s' x = translate s' y \<longrightarrow> x = y) \<and>
     (\<forall>x. unat x < TABLES_START \<longrightarrow> \<not> in_pages x va n \<longrightarrow> translate s' x = translate s x)"

lemma page_sum_inj:
  assumes "aligned p" "aligned q" and "p + (x AND mask 12) = q + (y AND mask 12)"
  shows "p = q"
proof -
  have "(p + (x AND mask 12)) AND NOT (mask 12) = p" if "aligned p" for p x :: u64
  proof -
    have "\<not> bit p n \<or> \<not> bit (x AND mask 12) n" for n using aligned_bits [OF that, of n] by (auto simp: bit_simps)
    then have "p + (x AND mask 12) = p OR (x AND mask 12)" by (subst disjunctive_add) auto
    then show ?thesis using aligned_bits [OF that] by (intro bit_word_eqI) (auto simp: bit_simps linorder_not_less [symmetric])
  qed
  with assms show ?thesis by metis
qed

lemma heap_mapped_none: "heap_mapped free s va 0 s"
  by (auto simp: heap_mapped_def in_pages_def)

lemma heap_mapped_step:
  assumes fs: "frame_source alloc free" and ok: "pt_ok free s" and a: "alloc (frames s) (m * 4096) 4096 = Some (pa, fs')"
    and m: "mapped free (s\<lparr>frames := fs'\<rparr>) va pa m f s1" "\<And>k. k < m \<Longrightarrow> f k \<noteq> 0 \<and> plain_flags (f k)"
    and h: "heap_mapped free s1 (va + 4096 * of_nat m) n s'" "uses_frames free s1 s' k"
    and va: "aligned va" "unat va + 4096 * (m + n) \<le> TABLES_START"
  shows "heap_mapped free s va (m + n) s'"
proof -
  let ?va = "va + 4096 * of_nat m"
  note A = alloc_pages [OF fs a ok]
  have v: "unat ?va = unat va + 4096 * m" using aligned_add [OF va(1), of m] va(2) by simp
  have split: "in_pages x va (m + n) \<longleftrightarrow> in_pages x va m \<or> in_pages x ?va n" "in_pages x va m \<Longrightarrow> \<not> in_pages x ?va n" for x
    using v by (auto simp: in_pages_def)
  have sub: "free (frames s') \<subseteq> free (frames s1)" "free (frames s1) \<subseteq> free fs'" "free fs' \<subseteq> free (frames s)"
    using h(2) m(1) A(4) by (simp_all add: uses_frames_def mapped_def adds_def)
  have fst: "translate s' x = Some (pa + (x - va))" "pa + (x - va) = pa + 4096 * of_nat (page_no x va) + (x AND mask 12)"
      "pa + 4096 * of_nat (page_no x va) \<in> free (frames s) - free fs'" if "unat x < TABLES_START" "in_pages x va m" for x
  proof -
    have "translate s1 x = Some (pa + (x - va))" using mapped_entry [OF m(1) A(1,2) m(2) that va(1)] by (auto simp: translate_def)
    then show "translate s' x = Some (pa + (x - va))" using h(1) that split(2) unfolding heap_mapped_def by metis
    show "pa + (x - va) = pa + 4096 * of_nat (page_no x va) + (x AND mask 12)" using in_pages_offset(1) [OF va(1) that(2)] by simp
    show "pa + 4096 * of_nat (page_no x va) \<in> free (frames s) - free fs'" using A(5) in_pages_offset(2) [OF va(1) that(2)] by blast
  qed
  have snd: "\<exists>p \<in> free (frames s1) - free (frames s'). translate s' x = Some (p + (x AND mask 12))" if "unat x < TABLES_START" "in_pages x ?va n" for x
    using h(1) that unfolding heap_mapped_def by blast
  have al: "p \<in> free g \<Longrightarrow> aligned p" for p g using fs unfolding frame_source_def by blast
  have cross: False if "unat x < TABLES_START" "unat y < TABLES_START" "in_pages x va m" "in_pages y ?va n" "translate s' x = translate s' y" for x y
  proof -
    let ?p = "pa + 4096 * of_nat (page_no x va)"
    note F = fst [OF that(1,3)] and S = snd [OF that(2,4)]
    obtain q where q: "q \<in> free (frames s1)" "translate s' y = Some (q + (y AND mask 12))" using S by blast
    have "aligned ?p" "aligned q" using al F(3) q(1) by blast+
    moreover have "?p + (x AND mask 12) = q + (y AND mask 12)" using F(1,2) q(2) that(5) by simp
    ultimately have "?p = q" by (rule page_sum_inj)
    then show False using q(1) F(3) sub by blast
  qed
  have "translate s' x = translate s x" if "unat x < TABLES_START" "\<not> in_pages x va (m + n)" for x
    using h(1) mapped_other [OF m(1) that(1)] that split(1) unfolding heap_mapped_def by (simp add: translate_def leaf_def)
  moreover have "\<exists>p \<in> free (frames s) - free (frames s'). translate s' x = Some (p + (x AND mask 12))"
    if "unat x < TABLES_START" "in_pages x va (m + n)" for x
  proof (cases "in_pages x va m")
    case True
    note F = fst [OF that(1) True]
    have "translate s' x = Some (pa + 4096 * of_nat (page_no x va) + (x AND mask 12))" using F(1,2) by simp
    then show ?thesis using F(3) sub by blast
  next
    case False
    then have "in_pages x ?va n" using that(2) split(1) by blast
    from snd [OF that(1) this] sub show ?thesis by blast
  qed
  moreover have "x = y" if "unat x < TABLES_START" "unat y < TABLES_START" "in_pages x va (m + n)" "in_pages y va (m + n)" "translate s' x = translate s' y" for x y
  proof (cases "in_pages x va m")
    case True
    then have y: "in_pages y va m" using cross [OF that(1,2) True _ that(5)] that(4) split(1) by blast
    then have "Some (pa + (x - va)) = Some (pa + (y - va))" using fst(1) [OF that(1) True] fst(1) [OF that(2) y] that(5) by metis
    then show ?thesis by simp
  next
    case False
    then have "in_pages x ?va n" "in_pages y ?va n" using cross [OF that(2,1) _ _ that(5) [symmetric]] that(3,4) split(1) by blast+
    then show ?thesis using h(1) that(1,2,5) unfolding heap_mapped_def by blast
  qed
  ultimately show ?thesis unfolding heap_mapped_def by blast
qed

abbreviation heap_frames :: "'f paging \<Rightarrow> u64 \<Rightarrow> nat \<Rightarrow> nat" where
  "heap_frames s va n \<equiv> n + card (missing s (table_paths va n))"

lemma heap_frames_step:
  assumes "mapped free (s\<lparr>frames := fs\<rparr>) va pa m f s1" and "uses_frames free s (s\<lparr>frames := fs\<rparr>) m" and "aligned va" "unat va + 4096 * (m + n) \<le> TABLES_START"
  shows "heap_frames s va (m + n) = heap_frames s va m + heap_frames s1 (va + 4096 * of_nat m) n" and "uses_frames free s s1 (heap_frames s va m)"
proof -
  have "tpaths (table_paths va m \<union> table_paths (va + 4096 * of_nat m) n)" using tpaths_range [OF assms(3,4)] by (simp add: table_paths_append)
  then show "heap_frames s va (m + n) = heap_frames s va m + heap_frames s1 (va + 4096 * of_nat m) n"
    using card_missing_Un [of free "s\<lparr>frames := fs\<rparr>" "table_paths va m" s1] assms(1) by (simp add: mapped_def table_paths_append)
  show "uses_frames free s s1 (heap_frames s va m)"
    using uses_frames_trans [OF assms(2), of s1 "card (missing s (table_paths va m))"] assms(1) by (simp add: mapped_def adds_def)
qed

lemma map_heap_loop_ok:
  assumes fs: "frame_source alloc free" and "pt_ok free s" and "aligned va" "unat va + 4096 * n \<le> TABLES_START" "c \<le> n"
    and "heap_frames s (va + 4096 * of_nat c) (n - c) \<le> card (free (frames s))"
  shows "\<exists>s'. map_heap_loop alloc BasePageSize va n c s = Some (n, s') \<and> pt_ok free s' \<and> heap_mapped free s (va + 4096 * of_nat c) (n - c) s' \<and>
    uses_frames free s s' (heap_frames s (va + 4096 * of_nat c) (n - c))"
  using assms(2,5,6)
proof (induction "n - c" arbitrary: c s rule: less_induct)
  case less
  show ?case
  proof (cases "c < n")
    case False
    then have "c = n" using less.prems by simp
    then show ?thesis using less.prems heap_mapped_none by (subst map_heap_loop.simps) (simp add: uses_frames_same)
  next
    case True
    let ?va = "va + 4096 * of_nat c"
    have "free (frames s) \<noteq> {}" "0 < n - c" using True less.prems(3) by auto
    from alloc_down_Some [OF fs this] obtain m pa fs' where d: "alloc_down alloc BasePageSize (n - c) (frames s) = Some (m, pa, fs')" "0 < m" "m \<le> n - c"
      "alloc (frames s) (m * 4096) 4096 = Some (pa, fs')" by blast
    note A = alloc_pages [OF fs d(4) less.prems(1)]
    have va: "aligned ?va" "unat ?va = unat va + 4096 * c" using aligned_add [OF assms(3), of c] assms(4) less.prems(2) by auto
    define r where "r = n - (c + m)"
    have nc: "n - c = m + r" and cm: "c + m \<le> n" using d(3) True by (simp_all add: r_def)
    have top: "unat ?va + 4096 * (m + r) \<le> TABLES_START" using va(2) assms(4) cm by (simp add: r_def)
    have "card (missing s (table_paths ?va m)) \<le> card (missing s (table_paths ?va (m + r)))"
      by (rule missing_mono [OF table_paths_mono tpaths_range [OF va(1) top]]) simp
    then have r: "range_ok free ?va pa m heap_flags (s\<lparr>frames := fs'\<rparr>)"
      using va(1) A(1,2,4) top less.prems(3) heap_flags_plain(1) unfolding nc by (simp add: range_ok_def uses_frames_def)
    from paging_map_effect [OF fs A(3) r d(2) heap_flags_plain(2)] obtain s1 where
      s1: "paging_map alloc BasePageSize ?va pa m heap_flags (s\<lparr>frames := fs'\<rparr>) = Some s1"
        "mapped free (s\<lparr>frames := fs'\<rparr>) ?va pa m (group_flags ?va m heap_flags) s1" by blast
    note H = heap_frames_step [OF s1(2) A(4) va(1) top]
    have ok1: "pt_ok free s1" using s1(2) by (simp add: mapped_def)
    have next_va: "?va + 4096 * of_nat m = va + 4096 * of_nat (c + m)" by (simp add: algebra_simps)
    have le: "r < n - c" "heap_frames s1 (va + 4096 * of_nat (c + m)) r \<le> card (free (frames s1))"
      using d(2) nc H(2) less.prems(3) unfolding nc H(1) next_va by (simp_all add: uses_frames_def)
    from less.hyps [OF le(1) [unfolded r_def] ok1 cm le(2) [unfolded r_def]] obtain s' where
      s': "map_heap_loop alloc BasePageSize va n (c + m) s1 = Some (n, s')" "pt_ok free s'"
        "heap_mapped free s1 (?va + 4096 * of_nat m) r s'" "uses_frames free s1 s' (heap_frames s1 (?va + 4096 * of_nat m) r)"
      unfolding r_def [symmetric] next_va by blast
    from heap_mapped_step [OF fs less.prems(1) d(4) s1(2) group_flags_plain [OF heap_flags_plain(2,1)] s'(3,4) va(1) top]
    have "heap_mapped free s ?va (n - c) s'" unfolding nc .
    moreover have "uses_frames free s s' (heap_frames s ?va (n - c))" unfolding nc H(1) by (rule uses_frames_trans [OF H(2) s'(4)]) simp
    moreover have "map_heap_loop alloc BasePageSize va n c s = Some (n, s')"
      using True d(1) s1(1) s'(1) by (subst map_heap_loop.simps) (simp add: mult.commute [of _ 4096])
    ultimately show ?thesis using s'(2) by blast
  qed
qed

lemma map_heap_loop_result: "map_heap_loop alloc S va n c s = Some r \<Longrightarrow> n \<le> fst r"
  by (rule map_heap_loop.raw_induct [where P = "\<lambda>alloc S va n c s r. n \<le> fst r"]) (auto split: if_splits option.splits)

lemma alloc_down_stuck: "(\<And>f sz al. alloc f sz al = None) \<Longrightarrow> alloc_down alloc S k f = None"
  by (induction k) simp_all

lemma map_heap_loop_stuck:
  assumes "map_heap_loop alloc S va n c s = Some r"
  shows "(\<forall>f sz al. alloc f sz al = None) \<longrightarrow> n \<le> c"
proof (rule map_heap_loop.raw_induct [where P = "\<lambda>alloc S va n c s r. (\<forall>f sz al. alloc f sz al = None) \<longrightarrow> n \<le> c", OF _ assms], intro impI, rule ccontr)
  fix loop :: "'a alloc \<Rightarrow> page_size \<Rightarrow> u64 \<Rightarrow> nat \<Rightarrow> nat \<Rightarrow> 'a paging \<Rightarrow> (nat \<times> 'a paging) option" and alloc :: "'a alloc" and S va n c s r
  assume IH: "\<And>alloc S va n c s r. loop alloc S va n c s = Some r \<Longrightarrow> (\<forall>f sz al. alloc f sz al = None) \<longrightarrow> n \<le> c"
    and body: "(if c < n then (case alloc_down alloc S (n - c) (frames s) of None \<Rightarrow> loop alloc S va n c s
       | Some (m, pa, fs) \<Rightarrow> do {
           s1 \<leftarrow> paging_map alloc S (va + of_nat c * SIZE S) pa m heap_flags (s\<lparr>frames := fs\<rparr>);
           loop alloc S va n (c + m) s1
         }) else Some (c, s)) = Some r"
    and none: "\<forall>f sz al. alloc f sz al = None" and "\<not> n \<le> c"
  then have "loop alloc S va n c s = Some r" using alloc_down_stuck [of alloc] by simp
  with IH none \<open>\<not> n \<le> c\<close> show False by blast
qed

section \<open>Properties\<close>

text \<open>C13: Mapping pages. Mapping a range of 4 KiB pages below the tables never panics while there is a free frame for each table that is
  missing on the way to a page; afterwards the processor translates each address of the range to the frame with the same offset, and every other address as before, and the tables are still a tree that refers to
  itself.\<close>

theorem map_translates:
  assumes "frame_source alloc free" and "pt_ok free s" and "range_ok free va pa n flags s" and "0 < n" and "flags \<noteq> 0"
  shows "\<exists>s'. paging_map alloc BasePageSize va pa n flags s = Some s' \<and> pt_ok free s' \<and>
    (\<forall>x. unat x < TABLES_START \<longrightarrow> translate s' x = (if in_pages x va n then Some (pa + (x - va)) else translate s x))"
proof -
  have fl: "plain_flags flags" using assms(3,5) by (simp add: range_ok_def)
  from paging_map_effect [OF assms] obtain s' where s': "paging_map alloc BasePageSize va pa n flags s = Some s'"
    "mapped free s va pa n (group_flags va n flags) s'" by blast
  have "translate s' x = (if in_pages x va n then Some (pa + (x - va)) else translate s x)" if "unat x < TABLES_START" for x
    using mapped_translate [OF s'(2) assms(3,5) _ that] group_flags_plain [OF assms(5) fl] by blast
  then show ?thesis using s' by (auto simp: mapped_def)
qed

text \<open>C14: Looking up an address. For every address below the tables \<open>virtual_to_physical\<close> agrees with the translation of the processor, as long as all mappings are of 4 KiB
  pages; it never faults.\<close>

theorem virtual_to_physical_correct:
  assumes "pt_ok free s" and "unat va < TABLES_START"
  shows "virtual_to_physical va s = Some (translate s va)"
proof -
  let ?page = "va AND NOT (mask 12)"
  have eq: "unat ?page div 4096 = unat va div 4096" "unat ?page \<le> unat va" unfolding and_not_mask_unat
    by (simp_all add: minus_mod_eq_mult_div)
  have idx: "va_indices ?page = va_indices va" using va_indices_eq [of ?page va] eq assms(2) by simp
  have inc: "including_address BasePageSize va = Some ?page"
    using assms(2) by (simp add: including_address_def is_valid_address_def word_less_nat_alt mask_eq_exp_minus_1)
  have up: "upath (va_indices ?page)" unfolding idx by (rule upath_user [OF assms(2)])
  have "get_page_table_entry BasePageSize 0 L0TABLE_ADDRESS ?page s = Some (map_option fst (lf s (va_indices va)))"
    using get_page_table_entry_walk [OF assms(1) up, of 0] by (simp add: idx)
  moreover have "pte_address e OR (va AND (SIZE BasePageSize - 1)) = leaf_address va (e, 0)" for e
  proof -
    have "pte_address e AND NOT (mask 12) = pte_address e" by (intro bit_word_eqI) (auto simp: bit_simps bit_pte_address)
    then show ?thesis by (simp add: leaf_address_def mask_eq_exp_minus_1)
  qed
  moreover have "n = 0" if "lf s (va_indices va) = Some (e, n)" for e n
    using walk_last [OF _ up, of "pt_mem s" "ttbr0 s" "free (frames s)"] assms(1) that unfolding idx
    by (auto simp: pt_ok_def split: option.splits if_splits)
  ultimately show ?thesis unfolding virtual_to_physical_def get_physical_address_def inc
    using leaf_user [OF assms(2), of s] by (auto simp: translate_def split: option.splits)
qed

text \<open>C15: Unmapping pages. After unmapping a range no address of it is translated, and all others are as before. Missing tables need free frames
  here too: the code adds the tables on the way to a page that it then removes, and panics if it cannot.\<close>

theorem unmap_removes:
  assumes "frame_source alloc free" and "pt_ok free s" and "range_ok free va 0 n 0 s" and "0 < n"
  shows "\<exists>s'. paging_unmap alloc BasePageSize va n s = Some s' \<and> pt_ok free s' \<and>
    (\<forall>x. unat x < TABLES_START \<longrightarrow> translate s' x = (if in_pages x va n then None else translate s x))"
proof -
  from map_range_effect [OF assms] obtain s' where s': "paging_unmap alloc BasePageSize va n s = Some s'" "mapped free s va 0 n (\<lambda>_. 0) s'"
    by (auto simp: paging_unmap_def)
  then show ?thesis by (auto simp: mapped_def translate_def page_entry_def)
qed



text \<open>C17: Running out of memory for the heap. \<open>map_heap\<close> never returns its error value; when no allocation succeeds it does not return at all, since the outer loop repeats the
  same allocations for ever.\<close>

theorem map_heap_never_fails:
  "map_heap alloc S va n s \<noteq> Some (Inl k, s') \<and> ((\<forall>f sz al. alloc f sz al = None) \<longrightarrow> 0 < n \<longrightarrow> map_heap alloc S va n s = None)"
proof -
  have "map_heap alloc S va n s \<noteq> Some (Inl k, s')" using map_heap_loop_result [of alloc S va n 0 s] by (auto simp: map_heap_def split: if_splits)
  moreover have "map_heap alloc S va n s = None" if "\<forall>f sz al. alloc f sz al = None" "0 < n"
    using map_heap_loop_stuck [of alloc S va n 0 s] that by (cases "map_heap_loop alloc S va n 0 s") (auto simp: map_heap_def)
  ultimately show ?thesis by blast
qed

text \<open>C19: Large pages. An address that is mapped by a page of 2 MiB is translated by the processor, but \<open>virtual_to_physical\<close> takes the entry of the page for a table and
  faults.\<close>

theorem large_page_lookup_faults:
  assumes "self_mapped (pt_mem s) (ttbr0 s)" and "aligned (ttbr0 s)" and "unat va < TABLES_START" and "leaf s va = Some (e, 1)"
  shows "translate s va \<noteq> None \<and> virtual_to_physical va s = None"
proof -
  let ?page = "va AND NOT (mask 12)" and ?is = "va_indices va"
  have eq: "unat ?page div 4096 = unat va div 4096" "unat ?page \<le> unat va" unfolding and_not_mask_unat
    by (simp_all add: minus_mod_eq_mult_div)
  have idx: "va_indices ?page = ?is" using va_indices_eq [of ?page va] eq assms(3) by simp
  have inc: "including_address BasePageSize va = Some ?page"
    using assms(3) by (simp add: including_address_def is_valid_address_def word_less_nat_alt mask_eq_exp_minus_1)
  obtain a b c d where is4: "?is = [a, b, c, d]" by (simp add: va_indices_def)
  have lt: "a < 512" "b < 512" "c < 512" "d < 512" using va_indices_props(1) [of va] by (simp_all add: is4)
  have i: "table_index 0 ?page = a" "table_index 1 ?page = b" "table_index 2 ?page = c" "table_index 3 ?page = d"
    using idx is4 unfolding va_indices_def by simp_all
  have w: "walk (pt_mem s) (ttbr0 s) [a, b, c, d] = Some (e, 1)" using assms(3,4) leaf_user [OF assms(3), of s] is4 by simp
  then obtain t1 t2 where t: "tab s [a] = Some t1" "tab s [a, b] = Some t2" and e: "pt_mem s (t2 + 8 * c) = e" "bit e 0" "\<not> bit e 1"
    by (auto simp: Let_def flag_bits split: if_splits)
  have reach: "reachable_table [] (ttbr0 s) s" "reachable_table [a] t1 s" "reachable_table [a, b] t2 s"
    using assms(1,2) t lt by (auto simp: reachable_table_def)
  have p: "is_present (pt_mem s (ttbr0 s + 8 * a))" "is_present (pt_mem s (t1 + 8 * b))"
    using t by (auto simp: Let_def is_present_bit split: if_splits)
  have g: "get_entry L0TABLE_ADDRESS a s = Some (pt_mem s (ttbr0 s + 8 * a))" "get_entry (subtable L0TABLE_ADDRESS a) b s = Some (pt_mem s (t1 + 8 * b))"
    "get_entry (subtable (subtable L0TABLE_ADDRESS a) b) c s = Some e"
    using get_entry_table [OF reach(1) lt(1)] get_entry_table [OF reach(2) lt(2)] get_entry_table [OF reach(3) lt(3)] e(1) by (simp_all add: table_va_def)
  have fault: "get_entry (subtable (subtable (subtable L0TABLE_ADDRESS a) b) c) d s = None"
  proof -
    have v: "aligned (table_va [a, b, c])" "va_indices (table_va [a, b, c]) = [511, a, b, c]" using table_va_props [of "[a, b, c]"] lt by auto
    have "walk (pt_mem s) (ttbr0 s) [511, a, b, c] = None"
      using assms(1) t e by (auto simp: Let_def flag_bits self_mapped_def split: if_splits)
    then have "leaf s (table_va [a, b, c] + 8 * d) = None" using entry_indices [OF v(1) lt(4)] v(2) by (simp add: leaf_def)
    then show ?thesis by (simp add: get_entry_def vread_def translate_def table_va_def)
  qed
  have "get_page_table_entry BasePageSize 3 (subtable (subtable (subtable L0TABLE_ADDRESS a) b) c) ?page s = None"
    by (subst get_page_table_entry.simps) (simp add: i fault)
  then have "get_page_table_entry BasePageSize 2 (subtable (subtable L0TABLE_ADDRESS a) b) ?page s = None"
    by (subst get_page_table_entry.simps) (simp add: i g e is_present_bit)
  then have "get_page_table_entry BasePageSize 1 (subtable L0TABLE_ADDRESS a) ?page s = None"
    by (subst get_page_table_entry.simps) (simp add: i g p del: One_nat_def)
  then have "get_page_table_entry BasePageSize 0 L0TABLE_ADDRESS ?page s = None"
    by (subst get_page_table_entry.simps) (simp add: i g p)
  then show ?thesis unfolding virtual_to_physical_def get_physical_address_def inc using assms(4) by (simp add: translate_def)
qed

section \<open>The properties on concrete tables\<close>

text \<open>A root table at 3 MiB that refers to itself only, and an allocator that hands out a thousand frames from 4 MiB on one by one.\<close>

definition demo_tables :: "nat paging" where
  "demo_tables = \<lparr>pt_mem = (\<lambda>_. 0)(0x300ff8 := 0x300003), ttbr0 = 0x300000, frames = 1000\<rparr>"

definition demo_free :: "nat \<Rightarrow> u64 set" where
  "demo_free n = (if n \<le> 1000 then (\<lambda>k. 0x400000 + 4096 * of_nat k) ` {..<n} else {})"

definition demo_alloc :: "nat alloc" where
  "demo_alloc n sz al = (if 0 < n \<and> n \<le> 1000 \<and> sz = 4096 \<and> al = 4096 then Some (0x400000 + 4096 * of_nat (n - 1), n - 1) else None)"

lemma demo_frame: "k < 1000 \<Longrightarrow> unat (0x400000 + 4096 * of_nat k :: u64) = 0x400000 + 4096 * k"
  by (simp add: unat_word_ariths unat_of_nat)

lemma demo_frame_inj: "inj_on (\<lambda>k. 0x400000 + 4096 * of_nat k :: u64) {..<1000}"
proof (rule inj_onI)
  fix j k :: nat assume *: "j \<in> {..<1000}" "k \<in> {..<1000}" "0x400000 + 4096 * of_nat j = (0x400000 + 4096 * of_nat k :: u64)"
  have "unat (0x400000 + 4096 * of_nat j :: u64) = unat (0x400000 + 4096 * of_nat k :: u64)" by (rule arg_cong [OF *(3)])
  then have "0x400000 + 4096 * j = 0x400000 + 4096 * k" using *(1,2) by (simp only: demo_frame lessThan_iff)
  then show "j = k" by simp
qed

lemma demo_free_Suc:
  assumes "f < 1000"
  shows "demo_free (Suc f) = insert (0x400000 + 4096 * of_nat f) (demo_free f)" and "0x400000 + 4096 * of_nat f \<notin> demo_free f"
proof -
  show "demo_free (Suc f) = insert (0x400000 + 4096 * of_nat f) (demo_free f)" using assms unfolding demo_free_def lessThan_Suc by simp
  show "0x400000 + 4096 * of_nat f \<notin> demo_free f"
    using assms inj_onD [OF demo_frame_inj, of f] by (fastforce simp: demo_free_def)
qed

lemma demo_source: "frame_source demo_alloc demo_free"
proof -
  have 1: "aligned p \<and> unat p < 2 ^ 48" if "p \<in> demo_free f" for p f
  proof -
    have "p \<in> (\<lambda>k. 0x400000 + 4096 * of_nat k) ` {..<1000}" using that by (auto simp: demo_free_def split: if_splits)
    then obtain k where k: "k < 1000" "p = 0x400000 + 4096 * of_nat k" by auto
    then show ?thesis using demo_frame [OF k(1)] by (simp add: aligned_def)
  qed
  have 2: "frames_of p sz \<subseteq> demo_free f \<and> demo_free f' = demo_free f - frames_of p sz \<and> unat p + sz \<le> 2 ^ 48 \<and> unat p mod al = 0"
    if "demo_alloc f sz al = Some (p, f')" for f sz al p f'
  proof -
    have f: "f = Suc f'" "f' < 1000" "sz = 4096" "al = 4096" "p = 0x400000 + 4096 * of_nat f'"
      using that by (auto simp: demo_alloc_def split: if_splits)
    show ?thesis using demo_free_Suc [OF f(2)] demo_frame [OF f(2)] f(2) unfolding f by auto
  qed
  have 3: "demo_alloc f 4096 4096 \<noteq> None" if "demo_free f \<noteq> {}" for f
    using that by (auto simp: demo_free_def demo_alloc_def split: if_splits)
  show ?thesis unfolding frame_source_def using 1 2 3 by blast
qed

lemma demo_self: "self_mapped (pt_mem demo_tables) (ttbr0 demo_tables)"
  unfolding self_mapped_def demo_tables_def by code_simp

lemma demo_tab: "tpath p \<Longrightarrow> tab demo_tables p = Some t \<Longrightarrow> p = [] \<and> t = 0x300000"
proof (cases p)
  case (Cons i q)
  assume *: "tpath p" "tab demo_tables p = Some t"
  have "i < 512" "i \<noteq> 511" using *(1) Cons by (auto simp: tpath_def)
  then have "0x300000 + 8 * i \<noteq> 0x300ff8" using entry_inj [where t = "0x300000" and t' = "0x300000" and i = i and i' = 511] by (auto simp: aligned_def)
  then show ?thesis using *(2) by (simp add: Cons demo_tables_def)
qed (simp add: demo_tables_def)

lemma demo_ok: "pt_ok demo_free demo_tables"
proof -
  have "(0x300000 :: u64) \<notin> demo_free 1000"
  proof
    assume "(0x300000 :: u64) \<in> demo_free 1000"
    then obtain k where k: "k < 1000" "(0x300000 :: u64) = 0x400000 + 4096 * of_nat k" by (auto simp: demo_free_def)
    then have "unat (0x400000 + 4096 * of_nat k :: u64) = 0x300000" by (subst k(2) [symmetric]) simp
    then show False unfolding demo_frame [OF k(1)] by simp
  qed
  then have free: "(0x300000 :: u64) \<notin> demo_free (frames demo_tables)" by (simp add: demo_tables_def)
  have bits: "bit (pt_mem demo_tables (0x300000 + 8 * i)) 0 \<Longrightarrow> bit (pt_mem demo_tables (0x300000 + 8 * i)) 1" for i
    by (auto simp: demo_tables_def bit_iff_odd split: if_splits)
  have al: "aligned (ttbr0 demo_tables)" by (simp add: demo_tables_def aligned_def)
  show ?thesis unfolding pt_ok_def tree_ok_def
  proof (intro conjI allI impI)
    fix p q t assume "tpath p" "tpath q" "tab demo_tables p = Some t" "tab demo_tables q = Some t"
    then show "p = q" using demo_tab by blast
  next
    fix p t assume "tpath p" "tab demo_tables p = Some t"
    then show "t \<notin> demo_free (frames demo_tables)" using demo_tab free by blast
  next
    fix p t i assume "tpath p" "tab demo_tables p = Some t" "bit (pt_mem demo_tables (t + 8 * i)) 0"
    then show "bit (pt_mem demo_tables (t + 8 * i)) 1" using demo_tab bits by blast
  qed (rule al demo_self)+
qed

lemma demo_card: "card (demo_free (frames demo_tables)) = 1000"
  using card_image [OF demo_frame_inj] by (simp add: demo_free_def demo_tables_def)

lemma demo_missing: "aligned va \<Longrightarrow> unat va \<le> 0x200000 \<Longrightarrow> n \<le> 100 \<Longrightarrow> card (missing s (table_paths va n)) \<le> 1000"
  using missing_bound [of va n s] by (simp add: tables_for_def)

lemma demo_range: "aligned va \<Longrightarrow> unat va \<le> 0x200000 \<Longrightarrow> n \<le> 100 \<Longrightarrow> range_ok demo_free va 0x10000000 n heap_flags demo_tables"
  using heap_flags_plain demo_card demo_missing [of va n demo_tables] by (auto simp: range_ok_def aligned_def)

theorem map_translates_witness:
  "\<exists>s'. paging_map demo_alloc BasePageSize 0x5000 0x10000000 40 heap_flags demo_tables = Some s' \<and> translate s' 0x7123 = Some 0x10002123"
proof -
  have r: "range_ok demo_free 0x5000 0x10000000 40 heap_flags demo_tables" by (rule demo_range) (simp_all add: aligned_def)
  from map_translates [OF demo_source demo_ok r _ heap_flags_plain(2)] obtain s' where
    s': "paging_map demo_alloc BasePageSize 0x5000 0x10000000 40 heap_flags demo_tables = Some s'"
      "\<forall>x. unat x < TABLES_START \<longrightarrow> translate s' x = (if in_pages x 0x5000 40 then Some (0x10000000 + (x - 0x5000)) else translate demo_tables x)"
    by auto
  from s'(2) [rule_format, of "0x7123"] have "translate s' 0x7123 = Some 0x10002123" by (simp add: in_pages_def)
  with s'(1) show ?thesis by blast
qed

theorem virtual_to_physical_correct_witness: "virtual_to_physical 0x5123 demo_tables = Some (translate demo_tables 0x5123)"
  using virtual_to_physical_correct [OF demo_ok, of "0x5123"] by simp

theorem unmap_removes_witness:
  "\<exists>s'. paging_unmap demo_alloc BasePageSize 0x5000 2 demo_tables = Some s' \<and> translate s' 0x6123 = None"
proof -
  have r: "range_ok demo_free 0x5000 0 2 0 demo_tables" using demo_card demo_missing [of "0x5000" 2 demo_tables] by (simp add: range_ok_def aligned_def)
  from unmap_removes [OF demo_source demo_ok r] obtain s' where s': "paging_unmap demo_alloc BasePageSize 0x5000 2 demo_tables = Some s'"
    "\<forall>x. unat x < TABLES_START \<longrightarrow> translate s' x = (if in_pages x 0x5000 2 then None else translate demo_tables x)" by auto
  from s'(2) [rule_format, of "0x6123"] have "translate s' 0x6123 = None" by (simp add: in_pages_def)
  with s'(1) show ?thesis by blast
qed



theorem map_heap_never_fails_witness: "map_heap (\<lambda>f sz al. None) BasePageSize 0x5000 1 demo_tables = None"
  using map_heap_never_fails [of "\<lambda>f sz al. None" BasePageSize "0x5000" 1 demo_tables] by simp

text \<open>A root table with one page of 2 MiB.\<close>

definition demo_large :: "nat paging" where
  "demo_large = \<lparr>pt_mem = (\<lambda>_. 0)(0x300ff8 := 0x300003, 0x300000 := 0x301003, 0x301000 := 0x302003, 0x302000 := 0x200701), ttbr0 = 0x300000, frames = 0\<rparr>"

theorem large_page_lookup_faults_witness: "translate demo_large 0x1234 \<noteq> None \<and> virtual_to_physical 0x1234 demo_large = None"
proof -
  have "self_mapped (pt_mem demo_large) (ttbr0 demo_large)" unfolding self_mapped_def demo_large_def by code_simp
  moreover have "aligned (ttbr0 demo_large)" by (simp add: demo_large_def aligned_def)
  moreover have "leaf demo_large 0x1234 = Some (0x200701, 1)" unfolding leaf_def demo_large_def by code_simp
  ultimately show ?thesis using large_page_lookup_faults [of demo_large "0x1234"] by simp
qed

end
