(* ===== verification/Spec2Isabelle.thy ===== *)
theory Spec2Isabelle
  imports Spawning Synch File_System Interrupts Event_Fd Cont_Runs Page_Mapping
begin

text \<open>
  A verification library for the Hermit unikernel (Rust, sources under \<^verbatim>\<open>src/\<close>; paths below are relative to
  \<^verbatim>\<open>src/src/\<close>). The kernel runs one application per virtual machine; the part modelled here is the aarch64 build with several
  cores: tasks and their scheduling, the interrupt path that calls the scheduler, the synchronisation on top of it, the file interface
  with the in-memory file system, and the stackful continuations of the idle loop.

  \<^bold>\<open>How the parts interact.\<close> A core owns a scheduler (ready queue, blocked queue, exception slots). An interrupt is acknowledged, its
  handlers run, the blocked queue is searched for expired deadlines and the scheduler picks the task to return to; a task that blocks does
  so in a synchronisation primitive, whose queue of waiters is woken through the scheduler. All deadlines share the one-shot hardware timer.
  Descriptors lead to open files of the in-memory file system or to event counters. Continuations run inside the idle task.

  \<^bold>\<open>Theories, from the bottom up.\<close>

  \<^item> \<open>Prelude\<close>: machine integers, panics, positions in lists, lemma collections.
  \<^item> \<open>Errno\<close> (\<^verbatim>\<open>errno.rs\<close>, \<^verbatim>\<open>io.rs\<close>) and \<open>Times\<close> (\<^verbatim>\<open>time.rs\<close>): error numbers and points in time with their conversions.
  \<^item> \<open>Prio_Bitmap\<close>: the bitmap of non-empty priority levels; locale \<open>prio_queue\<close>, the contract of a queue that serves by priority and arrival.
  \<^item> \<open>Supervisor\<close> (\<^verbatim>\<open>scheduler/supervisor.rs\<close>): restart policies, and the bound they put on restarts in an interval.
  \<^item> \<open>Tasks\<close>, \<open>Handle_Queue\<close>, \<open>Ready_Queue\<close>, \<open>Blocked_Queue\<close> (\<^verbatim>\<open>scheduler/task/mod.rs\<close>): the control block and the three queues of
    tasks. \<open>Handle_Queue\<close> holds the locale \<open>waiter_queue\<close>; both priority queues interpret \<open>prio_queue\<close>.
  \<^item> \<open>Timers\<close> (\<^verbatim>\<open>scheduler/timer_interrupts.rs\<close>): the timers multiplexed onto the hardware timer, with reachable states by a step relation.
  \<^item> \<open>Slot_Pool\<close> (\<^verbatim>\<open>arch/aarch64/kernel/slot_pool.rs\<close>): the exception slots of a core and the eviction of frames, over a memory of words.
  \<^item> \<open>Task_Frame\<close> (\<^verbatim>\<open>arch/aarch64/kernel/scheduler.rs\<close>): stacks and the first register frame of a task.
  \<^item> \<open>Fd_Table\<close> (\<^verbatim>\<open>scheduler/mod.rs\<close>): descriptor tables, locale \<open>fd_table\<close>.
  \<^item> \<open>Percore_Scheduler\<close> (\<^verbatim>\<open>scheduler/mod.rs\<close>): the operations of the scheduler; \<open>Scheduling\<close>: its invariant and what one call does;
    \<open>Core_Steps\<close>: sequences of operations of a core; \<open>Spawning\<close>: new tasks, identifiers and priorities.
  \<^item> \<open>Interrupts\<close> (\<^verbatim>\<open>arch/aarch64/kernel/interrupts.rs\<close>, \<^verbatim>\<open>core_local.rs\<close>): from the acknowledgement to the switch; locale \<open>service\<close>.
  \<^item> \<open>Synch\<close> (\<^verbatim>\<open>synch/semaphore.rs\<close>, \<^verbatim>\<open>recmutex.rs\<close>, \<^verbatim>\<open>futex.rs\<close>): histories of operations, locale \<open>sleepers\<close>.
  \<^item> \<open>Mem_Fs\<close>, \<open>Dir_Tree\<close>, \<open>Fs_Steps\<close> (\<^verbatim>\<open>fs/mem.rs\<close>, \<^verbatim>\<open>fs/dev_directory.rs\<close>): the in-memory file system, its tree of names (locales
    \<open>directory\<close>, \<open>traversal\<close>) and its operations; \<open>Vfs\<close>, \<open>Vfs_Steps\<close>, \<open>File_System\<close> (\<^verbatim>\<open>fs/mod.rs\<close>, \<^verbatim>\<open>fd/mod.rs\<close>): the file
    interface on top of it.
  \<^item> \<open>Event_Fd\<close> (\<^verbatim>\<open>fd/eventfd.rs\<close>): event counters, one poll of a future per step.
  \<^item> \<open>Cont_Switch\<close>, \<open>Continuations\<close>, \<open>Cont_Steps\<close>, \<open>Cont_Runs\<close> (\<^verbatim>\<open>arch/aarch64/kernel/continuations.rs\<close>): the assembly routine that
    switches between continuations as a program of a small machine, the operations on the pool of continuations, their invariant over every
    sequence of operations, and what a wake, a drain and a futex wake do.
  \<^item> \<open>Paging\<close>, \<open>Page_Tables\<close>, \<open>Page_Mapping\<close> (\<^verbatim>\<open>arch/aarch64/mm/paging.rs\<close>): page tables in a memory of words, reached through their
    own recursive mapping; the tables as a tree, and what mapping, unmapping and looking up pages means for the translation of the processor.

  \<^bold>\<open>Conventions.\<close> A panic of the code (a failed assertion, an index out of range, an \<^verbatim>\<open>unwrap\<close> of nothing) is \<^const>\<open>None\<close>; results
  of fallible functions are sums with the error number on the left. Integers keep their width where they can wrap; indices into arrays of
  fixed size are natural numbers. What the code shares behind \<^verbatim>\<open>Rc\<close>, \<^verbatim>\<open>Arc\<close> or a raw pointer is an address into a store. Readings
  of clocks and registers of devices are arguments. Code outside the repository (the interrupt controller, the drivers behind an interrupt
  handler, the executor of futures) is a parameter with its documented behaviour as a hypothesis. Operations that sleep are split at the
  point where the task gives up the core.

  \<^bold>\<open>What the theorems show.\<close> For each component an invariant that every operation keeps, so that the panics of the code are unreachable or
  exactly characterised; the result of each operation on every branch; the order in which tasks are served; round trips between writing
  and reading (files, frames, error numbers). Where the code does not do what its comments say, the theorem states what it does:
  the first waiter queue loses its waiter, an evicted frame is overwritten, a release can panic after a time-out, an existing file is
  opened by an exclusive create, a blocked writer of an event counter is never woken, a wake discards an escape, a resumed futex
  waiter deletes the registration of another, a switch between continuations permutes eight registers, and groups of pages are marked
  contiguous that are not aligned.

  \<^bold>\<open>Bounds and termination.\<close> Loops over arrays and lists are structural recursions. The search for a task identifier is bounded by the
  number of tasks and shown to end; \<open>mkdir\<close> and \<open>mount\<close> recurse on the rest of the path, with a measure. Programs of the machine only jump
  forward, so \<open>run\<close> ends. \<open>map_heap_loop\<close> may run for ever and is a partial function: it is shown to return when enough frames are free, and not
  to return when there are none. No definition is cut off by fuel that could run out.

  \<^bold>\<open>Not modelled.\<close>
  \<^item> Device drivers (\<^verbatim>\<open>drivers/\<close>), the network stack and the executor of futures: they drive registers of devices and the
    external crates smoltcp and virtio-spec, whose code is not part of the repository.
  \<^item> The start of memory management (\<^verbatim>\<open>mm/mod.rs\<close>, \<^verbatim>\<open>mm/physicalmem.rs\<close>): it reads the device tree; the allocator of ranges is the
    external free-list crate.
  \<^item> The x86-64 and riscv64 ports, boot code, console, logging and the shell: hardware access and text output.
  \<^item> The system call layer (\<^verbatim>\<open>syscalls/\<close>) apart from the functions the file interface needs: wrappers that copy arguments.
  \<^item> The self-tests inside \<^verbatim>\<open>continuations.rs\<close>, which run at boot and print their results.
\<close>

end
